(* ===== verification/Socket_Prelude.thy ===== *)
theory Socket_Prelude
  imports Main "HOL-Library.Word"
begin

text \<open>
  Shared ground of the development: bytes and machine words, the big-endian encodings
  that the wire formats use (package \<^verbatim>\<open>encoding/binary\<close>), Go's \<^verbatim>\<open>error\<close> values
  and the result type of a fallible operation.  A Go \<^verbatim>\<open>string\<close> is an immutable byte
  sequence and is modelled by \<^typ>\<open>string\<close>, whose characters are bytes; a
  \<^verbatim>\<open>[]byte\<close> is a list of 8-bit words.
\<close>

unbundle bit_operations_syntax

section \<open>Bytes and strings\<close>

type_synonym byte = "8 word"
type_synonym bytes = "byte list"

definition byte_of_char :: "char \<Rightarrow> byte" where
  "byte_of_char c = of_nat (of_char c)"

definition char_of_byte :: "byte \<Rightarrow> char" where
  "char_of_byte b = char_of (unat b)"

definition bytes_of_string :: "string \<Rightarrow> bytes" where
  "bytes_of_string s = map byte_of_char s"

definition string_of_bytes :: "bytes \<Rightarrow> string" where
  "string_of_bytes bs = map char_of_byte bs"

lemma unat_byte_less [simp]: "unat (b :: byte) < 256"
proof -
  have "unat b < 2 ^ LENGTH(8)"
    by (rule unsigned_less)
  then show ?thesis by simp
qed

lemma unat_byte_of_char [simp]: "unat (byte_of_char c) = of_char c"
  by (simp add: byte_of_char_def unat_of_nat)

lemma char_of_byte_of_char [simp]: "char_of_byte (byte_of_char c) = c"
  by (simp add: char_of_byte_def)

lemma byte_of_char_of_byte [simp]: "byte_of_char (char_of_byte b) = b"
  using unat_byte_less [of b] by (simp add: byte_of_char_def char_of_byte_def)

lemma string_of_bytes_of_string [simp]: "string_of_bytes (bytes_of_string s) = s"
  by (simp add: string_of_bytes_def bytes_of_string_def comp_def)

lemma bytes_of_string_of_bytes [simp]: "bytes_of_string (string_of_bytes bs) = bs"
  by (simp add: string_of_bytes_def bytes_of_string_def comp_def)

lemma length_bytes_of_string [simp]: "length (bytes_of_string s) = length s"
  by (simp add: bytes_of_string_def)

lemma length_string_of_bytes [simp]: "length (string_of_bytes s) = length s"
  by (simp add: string_of_bytes_def)

lemma bytes_of_string_append [simp]:
  "bytes_of_string (s @ t) = bytes_of_string s @ bytes_of_string t"
  by (simp add: bytes_of_string_def)

lemma string_of_bytes_append [simp]:
  "string_of_bytes (s @ t) = string_of_bytes s @ string_of_bytes t"
  by (simp add: string_of_bytes_def)

lemma bytes_of_string_inject [simp]: "bytes_of_string s = bytes_of_string t \<longleftrightarrow> s = t"
  by (metis string_of_bytes_of_string)

text \<open>Bytes are equal when their eight bits are.\<close>

lemma byte_eqI:
  assumes "bit x 0 = bit y 0" "bit x (Suc 0) = bit y (Suc 0)" "bit x 2 = bit y 2" "bit x 3 = bit y 3"
    "bit x 4 = bit y 4" "bit x 5 = bit y 5" "bit x 6 = bit y 6" "bit x 7 = bit y 7"
  shows "x = (y :: byte)"
proof (rule bit_word_eqI)
  fix n assume "n < LENGTH(8)"
  then have "n \<in> {0, 1, 2, 3, 4, 5, 6, 7}" by auto
  with assms show "bit x n \<longleftrightarrow> bit y n" by auto
qed

lemma byte_bit_high: "8 \<le> n \<Longrightarrow> \<not> bit (b :: byte) n"
  using bit_imp_le_length [of b n] by auto

section \<open>Big-endian integers\<close>

definition put_u16 :: "16 word \<Rightarrow> bytes" where
  "put_u16 w = [ucast (drop_bit 8 w), ucast w]"

definition put_u32 :: "32 word \<Rightarrow> bytes" where
  "put_u32 w = [ucast (drop_bit 24 w), ucast (drop_bit 16 w), ucast (drop_bit 8 w), ucast w]"

definition put_u64 :: "64 word \<Rightarrow> bytes" where
  "put_u64 w = put_u32 (ucast (drop_bit 32 w)) @ put_u32 (ucast w)"

text \<open>
  \<^verbatim>\<open>binary.BigEndian.Uint32\<close> reads the first four bytes.  Its callers always pass a
  buffer that is long enough; the accumulating definition covers every list.
\<close>

definition get_u16 :: "bytes \<Rightarrow> 16 word" where
  "get_u16 bs = foldl (\<lambda>a b. push_bit 8 a OR ucast b) 0 (take 2 bs)"

definition get_u32 :: "bytes \<Rightarrow> 32 word" where
  "get_u32 bs = foldl (\<lambda>a b. push_bit 8 a OR ucast b) 0 (take 4 bs)"

lemma length_put_u16 [simp]: "length (put_u16 w) = 2"
  by (simp add: put_u16_def)

lemma length_put_u32 [simp]: "length (put_u32 w) = 4"
  by (simp add: put_u32_def)

lemma length_put_u64 [simp]: "length (put_u64 w) = 8"
  by (simp add: put_u64_def)

lemma get_put_u32 [simp]: "get_u32 (put_u32 w @ rest) = w"
proof (rule bit_word_eqI)
  fix n
  assume "n < LENGTH(32)"
  then consider "n < 8" | "8 \<le> n" "n < 16" | "16 \<le> n" "n < 24" | "24 \<le> n" "n < 32"
    by fastforce
  then show "bit (get_u32 (put_u32 w @ rest)) n \<longleftrightarrow> bit w n"
    by cases (auto simp: get_u32_def put_u32_def bit_simps)
qed

lemma get_put_u16 [simp]: "get_u16 (put_u16 w @ rest) = w"
  by (rule bit_word_eqI) (auto simp: get_u16_def put_u16_def bit_simps)

lemma put_get_u32:
  assumes "length bs = 4"
  shows "put_u32 (get_u32 bs) = bs"
proof -
  obtain a b c d where bs: "bs = [a, b, c, d]"
    using assms by (auto simp: numeral_eq_Suc length_Suc_conv)
  have "ucast (drop_bit 24 (get_u32 bs)) = a" "ucast (drop_bit 16 (get_u32 bs)) = b"
    "ucast (drop_bit 8 (get_u32 bs)) = c" "ucast (get_u32 bs) = d"
    by (rule bit_word_eqI; auto simp: bs get_u32_def bit_simps dest: bit_imp_le_length)+
  then show ?thesis by (simp add: put_u32_def bs)
qed

section \<open>Go errors\<close>

text \<open>
  An \<^verbatim>\<open>error\<close> value is one of the sentinels that the code compares with
  \<^verbatim>\<open>==\<close> or whose text matters, or the text built by \<^verbatim>\<open>fmt.Errorf\<close>.  Wrapping
  with \<^verbatim>\<open>%w\<close> concatenates the texts; no caller in the repository unwraps one.
  \<open>JSONError\<close> stands for every syntax or type error of \<^verbatim>\<open>encoding/json\<close>, whose texts differ
  but are only ever logged or wrapped.
\<close>

datatype gerror = EOF | ErrUnexpectedEOF | ErrShortWrite | CtxCanceled | CtxDeadlineExceeded
  | JSONError | Errorf string

fun err_msg :: "gerror \<Rightarrow> string" where
  "err_msg EOF = ''EOF''"
| "err_msg ErrUnexpectedEOF = ''unexpected EOF''"
| "err_msg ErrShortWrite = ''short write''"
| "err_msg CtxCanceled = ''context canceled''"
| "err_msg CtxDeadlineExceeded = ''context deadline exceeded''"
| "err_msg JSONError = ''invalid JSON input''"
| "err_msg (Errorf s) = s"

definition wrap_err :: "string \<Rightarrow> gerror \<Rightarrow> gerror" where
  "wrap_err msg e = Errorf (msg @ '': '' @ err_msg e)"

lemma err_msg_wrap_err [simp]: "err_msg (wrap_err msg e) = msg @ '': '' @ err_msg e"
  by (simp add: wrap_err_def)

end
