(* ===== verification/Go_Strings.thy ===== *)
theory Go_Strings
  imports Socket_Prelude "HOL-Library.Sublist"
begin

text \<open>
  The part of Go's packages \<^verbatim>\<open>strings\<close>, \<^verbatim>\<open>strconv\<close> and \<^verbatim>\<open>bufio\<close> (the line scanner)
  that the program calls, on byte strings.  White space is Unicode white space,
  recognised by its UTF-8 encodings, as \<^verbatim>\<open>unicode.IsSpace\<close> does.  Case mapping takes
  Go's ASCII fast path; on a string with a byte above 127 it uses the Unicode tables,
  which are the parameter \<open>uni\<close> of \<open>ToLower\<close> and \<open>ToUpper\<close>.
\<close>

section \<open>Prefixes, suffixes, substrings\<close>

definition HasPrefix :: "string \<Rightarrow> string \<Rightarrow> bool" where
  "HasPrefix s p \<longleftrightarrow> length p \<le> length s \<and> take (length p) s = p"

definition HasSuffix :: "string \<Rightarrow> string \<Rightarrow> bool" where
  "HasSuffix s p \<longleftrightarrow> length p \<le> length s \<and> drop (length s - length p) s = p"

definition TrimPrefix :: "string \<Rightarrow> string \<Rightarrow> string" where
  "TrimPrefix s p = (if HasPrefix s p then drop (length p) s else s)"

definition CutPrefix :: "string \<Rightarrow> string \<Rightarrow> string \<times> bool" where
  "CutPrefix s p = (if HasPrefix s p then (drop (length p) s, True) else (s, False))"

fun Contains :: "string \<Rightarrow> string \<Rightarrow> bool" where
  "Contains [] sub = (sub = [])"
| "Contains (c # s) sub = (HasPrefix (c # s) sub \<or> Contains s sub)"

definition ContainsAny :: "string \<Rightarrow> string \<Rightarrow> bool" where
  "ContainsAny s chars = list_ex (\<lambda>c. c \<in> set chars) s"

text \<open>\<^verbatim>\<open>strings.Cut\<close>: text before and after the first separator, and whether there is one.\<close>

fun Cut :: "string \<Rightarrow> string \<Rightarrow> string \<times> string \<times> bool" where
  "Cut s sep =
     (if HasPrefix s sep then ([], drop (length sep) s, True)
      else case s of
             [] \<Rightarrow> ([], [], False)
           | c # t \<Rightarrow> (case Cut t sep of (b, a, found) \<Rightarrow>
                 if found then (c # b, a, True) else (c # t, [], False)))"

declare Cut.simps [simp del]

lemma HasPrefix_iff: "HasPrefix s p \<longleftrightarrow> prefix p s"
  unfolding HasPrefix_def prefix_def by (metis append_eq_conv_conj append_take_drop_id
      length_append le_add1)

lemma HasPrefix_append [simp]: "HasPrefix (p @ s) p"
  by (simp add: HasPrefix_def)

lemma HasPrefix_Nil [simp]: "HasPrefix s []"
  by (simp add: HasPrefix_def)

lemma HasPrefix_Nil_iff [simp]: "HasPrefix [] p \<longleftrightarrow> p = []"
  by (auto simp: HasPrefix_def)

lemma HasPrefix_Cons_Cons [simp]: "HasPrefix (c # s) (d # p) \<longleftrightarrow> c = d \<and> HasPrefix s p"
  by (auto simp: HasPrefix_def)

lemma HasSuffix_iff: "HasSuffix s p \<longleftrightarrow> suffix p s"
  unfolding HasSuffix_def suffix_def
  by (metis append_eq_conv_conj append_take_drop_id diff_diff_cancel diff_le_self le_add2
      length_append length_drop same_append_eq add_diff_cancel_right')

lemma Contains_iff: "Contains s sub \<longleftrightarrow> (\<exists>a b. s = a @ sub @ b)"
proof (induction s)
  case Nil
  then show ?case by simp
next
  case (Cons c s)
  have "(\<exists>a b. c # s = a @ sub @ b) \<longleftrightarrow> prefix sub (c # s) \<or> (\<exists>a b. s = a @ sub @ b)"
    by (auto simp: prefix_def Cons_eq_append_conv)
  with Cons show ?case by (simp add: HasPrefix_iff)
qed

lemma Contains_infix [simp]: "Contains (a @ sub @ b) sub"
  by (auto simp: Contains_iff)

lemma Contains_appendI1: "Contains a sub \<Longrightarrow> Contains (a @ b) sub"
  unfolding Contains_iff by (metis append.assoc)

lemma Contains_appendI2: "Contains b sub \<Longrightarrow> Contains (a @ b) sub"
  unfolding Contains_iff by (metis append.assoc)

lemma Contains_char: "Contains s [c] \<longleftrightarrow> c \<in> set s"
  by (auto simp: Contains_iff in_set_conv_decomp)

lemma Cut_char:
  "Cut s [c] = (if c \<in> set s then (takeWhile (\<lambda>x. x \<noteq> c) s, tl (dropWhile (\<lambda>x. x \<noteq> c) s), True)
                else (s, [], False))"
proof (induction s)
  case Nil
  then show ?case by (simp add: Cut.simps)
next
  case (Cons x s)
  then show ?case by (subst Cut.simps) (auto split: prod.splits)
qed

section \<open>Splitting and joining\<close>

text \<open>\<^verbatim>\<open>strings.Split\<close> with a one-byte separator; the result is never empty.\<close>

fun Split :: "string \<Rightarrow> char \<Rightarrow> string list" where
  "Split [] sep = [[]]"
| "Split (c # s) sep =
     (if c = sep then [] # Split s sep
      else case Split s sep of [] \<Rightarrow> [[c]] | f # fs \<Rightarrow> (c # f) # fs)"

fun Join :: "string list \<Rightarrow> string \<Rightarrow> string" where
  "Join [] sep = []"
| "Join [x] sep = x"
| "Join (x # xs) sep = x @ sep @ Join xs sep"

lemma Split_not_Nil [simp]: "Split s c \<noteq> []"
  by (cases s) (auto split: list.splits)

lemma Join_Cons: "xs \<noteq> [] \<Longrightarrow> Join (x # xs) sep = x @ sep @ Join xs sep"
  by (cases xs) auto

lemma Join_Split [simp]: "Join (Split s c) [c] = s"
proof (induction s)
  case Nil
  then show ?case by simp
next
  case (Cons x s)
  show ?case
  proof (cases "Split s c")
    case Nil
    then show ?thesis by simp
  next
    case (Cons f fs)
    with Cons.IH show ?thesis by (cases fs) auto
  qed
qed

lemma Split_no_sep: "f \<in> set (Split s c) \<Longrightarrow> c \<notin> set f"
  by (induction s arbitrary: f) (fastforce split: if_splits list.splits)+

lemma Split_append: "c \<notin> set f \<Longrightarrow> Split (f @ c # s) c = f # Split s c"
  by (induction f) auto

lemma Split_single: "c \<notin> set f \<Longrightarrow> Split f c = [f]"
  by (induction f) auto

lemma Split_Join:
  "xs \<noteq> [] \<Longrightarrow> \<forall>x \<in> set xs. c \<notin> set x \<Longrightarrow> Split (Join xs [c]) c = xs"
proof (induction xs)
  case Nil
  then show ?case by simp
next
  case (Cons x xs)
  then show ?case
    by (cases "xs = []") (auto simp: Join_Cons Split_single Split_append)
qed

section \<open>White space\<close>

definition ascii_space :: "char \<Rightarrow> bool" where
  "ascii_space c \<longleftrightarrow> c = CHR '' '' \<or> (9 \<le> (of_char c :: nat) \<and> of_char c \<le> (13 :: nat))"

text \<open>UTF-8 encodings of the white space characters above U+007F.\<close>

definition wide_spaces :: "string list" where
  "wide_spaces =
     [[CHR 0xC2, CHR 0x85], [CHR 0xC2, CHR 0xA0], [CHR 0xE1, CHR 0x9A, CHR 0x80],
      [CHR 0xE2, CHR 0x80, CHR 0x80], [CHR 0xE2, CHR 0x80, CHR 0x81],
      [CHR 0xE2, CHR 0x80, CHR 0x82], [CHR 0xE2, CHR 0x80, CHR 0x83],
      [CHR 0xE2, CHR 0x80, CHR 0x84], [CHR 0xE2, CHR 0x80, CHR 0x85],
      [CHR 0xE2, CHR 0x80, CHR 0x86], [CHR 0xE2, CHR 0x80, CHR 0x87],
      [CHR 0xE2, CHR 0x80, CHR 0x88], [CHR 0xE2, CHR 0x80, CHR 0x89],
      [CHR 0xE2, CHR 0x80, CHR 0x8A], [CHR 0xE2, CHR 0x80, CHR 0xA8],
      [CHR 0xE2, CHR 0x80, CHR 0xA9], [CHR 0xE2, CHR 0x80, CHR 0xAF],
      [CHR 0xE2, CHR 0x81, CHR 0x9F], [CHR 0xE3, CHR 0x80, CHR 0x80]]"

fun match_any :: "string list \<Rightarrow> string \<Rightarrow> nat" where
  "match_any [] s = 0"
| "match_any (e # es) s = (if HasPrefix s e then length e else match_any es s)"

text \<open>How many bytes of white space stand at the front of a string (0 for none); the
  list \<open>ws\<close> holds the wide encodings, reversed when the string is scanned from its end.\<close>

fun space_len :: "string list \<Rightarrow> string \<Rightarrow> nat" where
  "space_len ws [] = 0"
| "space_len ws (c # s) =
     (if (of_char c :: nat) < 128 then (if ascii_space c then 1 else 0)
      else match_any ws (c # s))"

function trim_front :: "string list \<Rightarrow> string \<Rightarrow> string" where
  "trim_front ws s =
     (let n = space_len ws s in if n = 0 then s else trim_front ws (drop n s))"
  by pat_completeness auto
termination
proof (relation "measure (\<lambda>(ws, s). length s)", simp)
  fix ws s n
  assume "n = space_len ws s" "n \<noteq> 0"
  then show "((ws, drop n s), ws, s) \<in> measure (\<lambda>(ws, s). length s)"
    by (cases s) auto
qed

declare trim_front.simps [simp del]

definition TrimSpace :: "string \<Rightarrow> string" where
  "TrimSpace s = rev (trim_front (map rev wide_spaces) (rev (trim_front wide_spaces s)))"

text \<open>\<^verbatim>\<open>strings.Trim\<close> with a cutset of ASCII characters works on bytes.\<close>

definition Trim :: "string \<Rightarrow> string \<Rightarrow> string" where
  "Trim s cutset =
     rev (dropWhile (\<lambda>c. c \<in> set cutset) (rev (dropWhile (\<lambda>c. c \<in> set cutset) s)))"

text \<open>\<^verbatim>\<open>strings.Fields\<close>: the maximal runs of bytes that are no white space.\<close>

function fields_from :: "string \<Rightarrow> string \<Rightarrow> string list" where
  "fields_from cur [] = (if cur = [] then [] else [cur])"
| "fields_from cur (c # s) =
     (let n = space_len wide_spaces (c # s)
      in if n = 0 then fields_from (cur @ [c]) s
         else (if cur = [] then [] else [cur]) @ fields_from [] (drop n (c # s)))"
  by pat_completeness auto
termination
  by (relation "measure (\<lambda>(cur, s). length s)") auto

definition Fields :: "string \<Rightarrow> string list" where
  "Fields s = fields_from [] s"

lemma trim_front_id: "space_len ws s = 0 \<Longrightarrow> trim_front ws s = s"
  by (subst trim_front.simps) simp

lemma space_len_trim_front [simp]: "space_len ws (trim_front ws s) = 0"
proof (induction ws s rule: trim_front.induct)
  case (1 ws s)
  then show ?case by (subst trim_front.simps) (auto simp: Let_def)
qed

lemma trim_front_idem [simp]: "trim_front ws (trim_front ws s) = trim_front ws s"
  by (simp add: trim_front_id)

lemma suffix_trim_front: "suffix (trim_front ws s) s"
proof (induction ws s rule: trim_front.induct)
  case (1 ws s)
  show ?case
  proof (cases "space_len ws s = 0")
    case True
    then show ?thesis by (simp add: trim_front_id)
  next
    case False
    then have "suffix (trim_front ws (drop (space_len ws s) s)) (drop (space_len ws s) s)"
      using 1 by simp
    then have "suffix (trim_front ws (drop (space_len ws s) s)) s"
      using suffix_drop suffix_order.trans by blast
    with False show ?thesis by (subst trim_front.simps) (simp add: Let_def)
  qed
qed

lemma set_TrimSpace: "set (TrimSpace s) \<subseteq> set s"
  using set_mono_suffix [OF suffix_trim_front [of "map rev wide_spaces"]]
    set_mono_suffix [OF suffix_trim_front [of wide_spaces s]]
  unfolding TrimSpace_def by fastforce

text \<open>A string whose first and last bytes are printable ASCII is left alone.\<close>

definition tight :: "string \<Rightarrow> bool" where
  "tight s \<longleftrightarrow> s = [] \<or> ((of_char (hd s) :: nat) < 128 \<and> \<not> ascii_space (hd s)
                     \<and> (of_char (last s) :: nat) < 128 \<and> \<not> ascii_space (last s))"

lemma TrimSpace_tight: "tight s \<Longrightarrow> TrimSpace s = s"
proof -
  assume t: "tight s"
  have 1: "trim_front wide_spaces s = s"
    using t by (intro trim_front_id) (cases s, auto simp: tight_def)
  have 2: "trim_front (map rev wide_spaces) (rev s) = rev s"
    using t by (intro trim_front_id) (cases s rule: rev_cases, auto simp: tight_def)
  show ?thesis by (simp add: TrimSpace_def 1 2)
qed

lemma TrimSpace_Nil [simp]: "TrimSpace [] = []"
  by (simp add: TrimSpace_tight tight_def)

section \<open>Case mapping\<close>

definition is_ascii :: "string \<Rightarrow> bool" where
  "is_ascii s = list_all (\<lambda>c. (of_char c :: nat) < 128) s"

definition lower_char :: "char \<Rightarrow> char" where
  "lower_char c = (if 65 \<le> (of_char c :: nat) \<and> (of_char c :: nat) \<le> 90
                   then char_of ((of_char c :: nat) + 32) else c)"

definition upper_char :: "char \<Rightarrow> char" where
  "upper_char c = (if 97 \<le> (of_char c :: nat) \<and> (of_char c :: nat) \<le> 122
                   then char_of ((of_char c :: nat) - 32) else c)"

definition ToLower :: "(string \<Rightarrow> string) \<Rightarrow> string \<Rightarrow> string" where
  "ToLower uni s = (if is_ascii s then map lower_char s else uni s)"

definition ToUpper :: "(string \<Rightarrow> string) \<Rightarrow> string \<Rightarrow> string" where
  "ToUpper uni s = (if is_ascii s then map upper_char s else uni s)"

section \<open>Decimal numbers\<close>

definition digit_val :: "char \<Rightarrow> nat option" where
  "digit_val c = (if 48 \<le> (of_char c :: nat) \<and> (of_char c :: nat) \<le> 57
                  then Some (of_char c - 48) else None)"

fun parse_digits :: "nat \<Rightarrow> string \<Rightarrow> nat option" where
  "parse_digits n [] = Some n"
| "parse_digits n (c # s) =
     (case digit_val c of None \<Rightarrow> None | Some d \<Rightarrow> parse_digits (10 * n + d) s)"

text \<open>\<^verbatim>\<open>strconv.ParseUint(s, 10, 64)\<close>: \<open>None\<close> is a syntax or a range error.\<close>

definition ParseUint64 :: "string \<Rightarrow> nat option" where
  "ParseUint64 s =
     (if s = [] then None
      else case parse_digits 0 s of
             None \<Rightarrow> None
           | Some n \<Rightarrow> if n < 2 ^ 64 then Some n else None)"

text \<open>\<^verbatim>\<open>strconv.Atoi\<close> on a 64-bit platform.\<close>

definition Atoi :: "string \<Rightarrow> int option" where
  "Atoi s =
     (let neg = (s \<noteq> [] \<and> hd s = CHR ''-'');
          ds = (if s \<noteq> [] \<and> (hd s = CHR ''-'' \<or> hd s = CHR ''+'') then tl s else s)
      in if ds = [] then None
         else case parse_digits 0 ds of
                None \<Rightarrow> None
              | Some n \<Rightarrow> if neg then (if n \<le> 2 ^ 63 then Some (- int n) else None)
                          else (if n < 2 ^ 63 then Some (int n) else None))"

definition digit_char :: "nat \<Rightarrow> char" where
  "digit_char d = char_of (48 + d)"

fun show_nat :: "nat \<Rightarrow> string" where
  "show_nat n = (if n < 10 then [digit_char n] else show_nat (n div 10) @ [digit_char (n mod 10)])"

declare show_nat.simps [simp del]

definition Itoa :: "int \<Rightarrow> string" where
  "Itoa i = (if i < 0 then ''-'' @ show_nat (nat (- i)) else show_nat (nat i))"

lemma digit_val_digit_char [simp]: "d < 10 \<Longrightarrow> digit_val (digit_char d) = Some d"
  by (simp add: digit_val_def digit_char_def)

lemma parse_digits_append:
  "parse_digits n (s @ t) = (case parse_digits n s of None \<Rightarrow> None | Some m \<Rightarrow> parse_digits m t)"
  by (induction s arbitrary: n) (auto split: option.splits)

lemma parse_digits_show_nat: "parse_digits 0 (show_nat n) = Some n"
proof (induction n rule: show_nat.induct)
  case (1 n)
  then show ?case
    by (subst show_nat.simps) (simp add: parse_digits_append)
qed

lemma show_nat_not_Nil [simp]: "show_nat n \<noteq> []"
  by (subst show_nat.simps) simp

lemma ParseUint64_show_nat: "n < 2 ^ 64 \<Longrightarrow> ParseUint64 (show_nat n) = Some n"
  by (simp add: ParseUint64_def parse_digits_show_nat)

lemma ParseUint64_less: "ParseUint64 s = Some n \<Longrightarrow> n < 2 ^ 64"
  by (auto simp: ParseUint64_def split: if_splits option.splits)

lemma set_show_nat: "c \<in> set (show_nat n) \<Longrightarrow> \<exists>d < 10. c = digit_char d"
proof (induction n rule: show_nat.induct)
  case (1 n)
  show ?case
  proof (cases "n < 10")
    case True
    with 1 show ?thesis by (subst (asm) (2) show_nat.simps) auto
  next
    case False
    have "n mod 10 < 10" by simp
    with 1 False show ?thesis
      by (subst (asm) (2) show_nat.simps) (auto simp del: mod_less_divisor)
  qed
qed

section \<open>The line scanner\<close>

text \<open>
  \<^verbatim>\<open>bufio.Scanner\<close> with its default split function: the lines of the input without
  their terminators and without one trailing carriage return, an unterminated last line
  when it is not empty, and the scanner's error.  A line that does not fit in the buffer of
  \<open>MaxScanTokenSize\<close> bytes stops the scan.  The second argument is the error with which
  reading the input ended (\<open>None\<close> at its end).
\<close>

definition MaxScanTokenSize :: nat where
  "MaxScanTokenSize = 64 * 1024"

definition raw_lines :: "string \<Rightarrow> string list" where
  "raw_lines s = (let ls = Split s (CHR 0x0A) in if last ls = [] then butlast ls else ls)"

definition drop_cr :: "string \<Rightarrow> string" where
  "drop_cr l = (if l \<noteq> [] \<and> last l = CHR 0x0D then butlast l else l)"

definition scan_lines :: "string \<Rightarrow> gerror option \<Rightarrow> string list \<times> gerror option" where
  "scan_lines s rerr =
     (let fits = (\<lambda>l. length l < MaxScanTokenSize)
      in (map drop_cr (takeWhile fits (raw_lines s)),
          if list_all fits (raw_lines s) then rerr
          else Some (Errorf ''bufio.Scanner: token too long'')))"

section \<open>Lines and fields of generated text\<close>

lemma Cut_append: "c \<notin> set k \<Longrightarrow> Cut (k @ c # v) [c] = (k, v, True)"
proof -
  assume c: "c \<notin> set k"
  then have "takeWhile (\<lambda>x. x \<noteq> c) (k @ c # v) = k" "dropWhile (\<lambda>x. x \<noteq> c) (k @ c # v) = c # v"
    by (auto simp: takeWhile_append dropWhile_append)
  then show ?thesis by (simp add: Cut_char)
qed

lemma tight_append: "tight s \<Longrightarrow> tight t \<Longrightarrow> s \<noteq> [] \<Longrightarrow> t \<noteq> [] \<Longrightarrow> tight (s @ t)"
  by (auto simp: tight_def hd_append last_append)

lemma ascii_space_small: "ascii_space c \<Longrightarrow> (of_char c :: nat) < 128"
  by (auto simp: ascii_space_def)

lemma TrimSpace_blank:
  assumes "ascii_space c"
  shows "TrimSpace (c # s) = TrimSpace s"
proof -
  have "trim_front wide_spaces (c # s) = trim_front wide_spaces s"
    using assms ascii_space_small [OF assms] by (subst trim_front.simps) simp
  then show ?thesis by (simp add: TrimSpace_def)
qed

lemma scan_lines_line:
  assumes "CHR 0x0A \<notin> set l" and "last l \<noteq> CHR 0x0D" and "length l < MaxScanTokenSize"
  shows "scan_lines (l @ CHR 0x0A # s) e = (l # fst (scan_lines s e), snd (scan_lines s e))"
proof -
  have "raw_lines (l @ CHR 0x0A # s) = l # raw_lines s"
    using assms(1) by (simp add: raw_lines_def Split_append Let_def)
  then show ?thesis using assms(2,3) by (simp add: scan_lines_def Let_def drop_cr_def)
qed

text \<open>A line as a program writes it: it fits the scanner and has no line end of its own.\<close>

definition line_ok :: "string \<Rightarrow> bool" where
  "line_ok l \<longleftrightarrow> CHR 0x0A \<notin> set l \<and> last l \<noteq> CHR 0x0D \<and> length l < MaxScanTokenSize"

definition unlines :: "string list \<Rightarrow> string" where
  "unlines ls = concat (map (\<lambda>l. l @ [CHR 0x0A]) ls)"

lemma unlines_simps [simp]: "unlines [] = []" "unlines (l # ls) = l @ CHR 0x0A # unlines ls"
  by (simp_all add: unlines_def)

lemma scan_lines_unlines: "list_all line_ok ls \<Longrightarrow> scan_lines (unlines ls) e = (ls, e)"
proof (induction ls)
  case Nil
  then show ?case by (simp add: scan_lines_def raw_lines_def)
next
  case (Cons l ls)
  then show ?case by (simp add: scan_lines_line line_ok_def)
qed

text \<open>A word without white space, as far as \<^verbatim>\<open>Fields\<close> is concerned.\<close>

definition word_ok :: "string \<Rightarrow> bool" where
  "word_ok w \<longleftrightarrow> w \<noteq> [] \<and> list_all (\<lambda>c. (of_char c :: nat) < 128 \<and> \<not> ascii_space c) w"

lemma fields_from_word:
  "list_all (\<lambda>c. (of_char c :: nat) < 128 \<and> \<not> ascii_space c) w \<Longrightarrow> fields_from cur (w @ s) = fields_from (cur @ w) s"
  by (induction w arbitrary: cur) simp_all

lemma Fields_blanks: "list_all ascii_space b \<Longrightarrow> Fields (b @ s) = Fields s"
  by (induction b) (simp_all add: Fields_def ascii_space_small)

lemma Fields_word: "word_ok w \<Longrightarrow> s = [] \<or> ascii_space (hd s) \<Longrightarrow> Fields (w @ s) = w # Fields (tl s)"
  using fields_from_word [of w "[]" s] by (cases s) (auto simp: Fields_def word_ok_def ascii_space_small)

lemma Fields_Nil [simp]: "Fields [] = []"
  by (simp add: Fields_def)

lemma Fields_Join: "list_all word_ok ws \<Longrightarrow> Fields (Join ws '' '') = ws"
proof (induction ws)
  case (Cons w ws)
  then show ?case
    by (cases ws) (simp_all add: Fields_word [of w "[]", simplified] Fields_word ascii_space_def)
qed simp

end
