(* ===== verification/Go_Json.thy ===== *)
theory Go_Json
  imports Go_Strings
begin

text \<open>
  The part of package \<^verbatim>\<open>encoding/json\<close> that the wire messages and the LUKS token rely on:
  values, the compact printer behind \<^verbatim>\<open>json.Marshal\<close> with its HTML-safe string escapes,
  the lexer and parser behind \<^verbatim>\<open>json.Unmarshal\<close> (invalid UTF-8 becomes U+FFFD,
  surrogate pairs are joined, nesting is bounded), and the assignment of object members
  to struct fields.  The main result is the round trip \<open>json_parse_print\<close>.
\<close>

datatype json = JNull | JBool bool | JNum string | JStr string | JArr "json list"
  | JObj "(string \<times> json) list"

datatype tok = LBrace | RBrace | LBrack | RBrack | Colon | Comma
  | TTrue | TFalse | TNull | TNum string | TStr string

section \<open>UTF-8\<close>

definition byte_in :: "nat \<Rightarrow> nat \<Rightarrow> char \<Rightarrow> bool" where
  "byte_in lo hi c \<longleftrightarrow> lo \<le> of_char c \<and> of_char c \<le> hi"

fun cont_bytes :: "nat \<Rightarrow> string \<Rightarrow> bool" where
  "cont_bytes 0 s = True"
| "cont_bytes (Suc n) [] = False"
| "cont_bytes (Suc n) (c # s) = (byte_in 0x80 0xBF c \<and> cont_bytes n s)"

text \<open>
  Length of the well-formed UTF-8 sequence at the front of a string, 0 if there is none:
  the lead byte fixes how many continuation bytes follow and restricts the first of them.
\<close>

definition utf8_need :: "char \<Rightarrow> nat option" where
  "utf8_need c = (if byte_in 0 0x7F c then Some 0
                  else if byte_in 0xC2 0xDF c then Some 1
                  else if byte_in 0xE0 0xEF c then Some 2
                  else if byte_in 0xF0 0xF4 c then Some 3
                  else None)"

definition utf8_second :: "char \<Rightarrow> char \<Rightarrow> bool" where
  "utf8_second c d \<longleftrightarrow>
     (if c = CHR 0xE0 then byte_in 0xA0 0xBF d
      else if c = CHR 0xED then byte_in 0x80 0x9F d
      else if c = CHR 0xF0 then byte_in 0x90 0xBF d
      else if c = CHR 0xF4 then byte_in 0x80 0x8F d
      else True)"

fun utf8_len :: "string \<Rightarrow> nat" where
  "utf8_len [] = 0"
| "utf8_len (c # s) =
     (case utf8_need c of
        None \<Rightarrow> 0
      | Some n \<Rightarrow> if cont_bytes n s \<and> (n = 0 \<or> utf8_second c (hd s)) then Suc n else 0)"

declare utf8_len.simps(2) [simp del]

definition utf8_enc :: "nat \<Rightarrow> string" where
  "utf8_enc r =
     (if r < 0x80 then [char_of r]
      else if r < 0x800 then [char_of (0xC0 + r div 64), char_of (0x80 + r mod 64)]
      else if r < 0x10000 then
        [char_of (0xE0 + r div 4096), char_of (0x80 + r div 64 mod 64), char_of (0x80 + r mod 64)]
      else [char_of (0xF0 + r div 262144), char_of (0x80 + r div 4096 mod 64),
            char_of (0x80 + r div 64 mod 64), char_of (0x80 + r mod 64)])"

definition replacement :: string where
  "replacement = [CHR 0xEF, CHR 0xBF, CHR 0xBD]"

lemma cont_bytes_append: "cont_bytes n s \<Longrightarrow> cont_bytes n (take n s @ t)"
  by (induction n s rule: cont_bytes.induct) auto

lemma cont_bytes_length: "cont_bytes n s \<Longrightarrow> n \<le> length s"
  by (induction n s rule: cont_bytes.induct) auto

lemma utf8_len_le: "utf8_len s \<le> length s"
  by (cases s) (auto simp: utf8_len.simps(2) dest: cont_bytes_length split: option.splits)

lemma hd_take_append: "0 < n \<Longrightarrow> n \<le> length s \<Longrightarrow> hd (take n s @ t) = hd s"
  by (cases s; cases n) auto

lemma utf8_len_append: "0 < utf8_len s \<Longrightarrow> utf8_len (take (utf8_len s) s @ t) = utf8_len s"
  by (cases s)
     (auto simp: utf8_len.simps(2) cont_bytes_append hd_take_append dest: cont_bytes_length
       split: option.splits if_splits)

section \<open>String literals\<close>

definition hex_val :: "char \<Rightarrow> nat option" where
  "hex_val c = (if byte_in 48 57 c then Some (of_char c - 48)
                else if byte_in 65 70 c then Some (of_char c - 55)
                else if byte_in 97 102 c then Some (of_char c - 87) else None)"

fun hex4 :: "string \<Rightarrow> nat option" where
  "hex4 (a # b # c # d # s) =
     (case (hex_val a, hex_val b, hex_val c, hex_val d) of
        (Some w, Some x, Some y, Some z) \<Rightarrow> Some (4096 * w + 256 * x + 16 * y + z)
      | _ \<Rightarrow> None)"
| "hex4 s = None"

definition hex_char :: "nat \<Rightarrow> char" where
  "hex_char n = (if n < 10 then char_of (48 + n) else char_of (87 + n))"

definition simple_escape :: "char \<Rightarrow> char option" where
  "simple_escape e =
     map_of [(CHR 0x22, CHR 0x22), (CHR 0x5C, CHR 0x5C), (CHR ''/'', CHR ''/''),
             (CHR ''b'', CHR 0x08), (CHR ''f'', CHR 0x0C), (CHR ''n'', CHR 0x0A),
             (CHR ''r'', CHR 0x0D), (CHR ''t'', CHR 0x09)] e"

definition low_surrogate :: "string \<Rightarrow> nat option" where
  "low_surrogate s =
     (case s of
        b # u # t \<Rightarrow>
          (if b = CHR 0x5C \<and> u = CHR ''u'' then
             (case hex4 t of
                Some r \<Rightarrow> if 0xDC00 \<le> r \<and> r < 0xE000 then Some r else None
              | None \<Rightarrow> None)
           else None)
      | _ \<Rightarrow> None)"

definition prepend :: "string \<Rightarrow> (string \<times> string) option \<Rightarrow> (string \<times> string) option" where
  "prepend p r = map_option (\<lambda>(s, rest). (p @ s, rest)) r"

text \<open>\<open>lex_str\<close> reads the text after an opening quote: the decoded string and what follows
  the closing quote.\<close>

function (sequential) lex_str :: "string \<Rightarrow> (string \<times> string) option" where
  "lex_str [] = None"
| "lex_str (c # s) =
     (if c = CHR 0x22 then Some ([], s)
      else if c = CHR 0x5C then
        (case s of
           [] \<Rightarrow> None
         | e # u \<Rightarrow>
             if e = CHR ''u'' then
               (case hex4 u of
                  None \<Rightarrow> None
                | Some r \<Rightarrow>
                    if 0xD800 \<le> r \<and> r < 0xE000 then
                      (case (r < 0xDC00, low_surrogate (drop 4 u)) of
                         (True, Some r2) \<Rightarrow>
                           prepend (utf8_enc (0x10000 + (r - 0xD800) * 1024 + (r2 - 0xDC00)))
                             (lex_str (drop 10 u))
                       | _ \<Rightarrow> prepend replacement (lex_str (drop 4 u)))
                    else prepend (utf8_enc r) (lex_str (drop 4 u)))
             else (case simple_escape e of
                     None \<Rightarrow> None
                   | Some d \<Rightarrow> prepend [d] (lex_str u)))
      else if byte_in 0 0x1F c then None
      else if utf8_len (c # s) = 0 then prepend replacement (lex_str s)
      else prepend (take (utf8_len (c # s)) (c # s)) (lex_str (drop (utf8_len (c # s)) (c # s))))"
  by pat_completeness auto
termination
proof (relation "measure length")
  fix c s assume "utf8_len (c # s) \<noteq> 0"
  then show "(drop (utf8_len (c # s)) (c # s), c # s) \<in> measure length"
    by (simp)
qed (auto simp: less_Suc_eq_le)

declare lex_str.simps [simp del]

lemma prepend_SomeD: "prepend p r = Some (v, rest) \<Longrightarrow> \<exists>w. r = Some (w, rest)"
  by (auto simp: prepend_def)

lemma lex_str_shorter: "lex_str s = Some (v, rest) \<Longrightarrow> length rest < length s"
proof (induction s arbitrary: v rule: measure_induct_rule [of length])
  case (less s)
  have IH: "length rest < n"
    if "lex_str u = Some (w, rest)" "length u < length s" "length u \<le> n" for u w n
    using less.IH [OF that(2,1)] that(3) by simp
  show ?case
  proof (cases s)
    case Nil
    with less.prems show ?thesis by (simp add: lex_str.simps)
  next
    case (Cons c t)
    with less.prems show ?thesis
      by (auto simp: lex_str.simps(2) [of c t] dest!: prepend_SomeD
           split: if_splits list.splits option.splits bool.splits intro!: IH)
  qed
qed

text \<open>The escapes of \<^verbatim>\<open>appendString\<close> with HTML escaping on.\<close>

definition esc_ascii :: "char \<Rightarrow> string" where
  "esc_ascii c =
     (if c = CHR 0x22 \<or> c = CHR 0x5C then [CHR 0x5C, c]
      else if c = CHR 0x08 then [CHR 0x5C, CHR ''b'']
      else if c = CHR 0x0C then [CHR 0x5C, CHR ''f'']
      else if c = CHR 0x0A then [CHR 0x5C, CHR ''n'']
      else if c = CHR 0x0D then [CHR 0x5C, CHR ''r'']
      else if c = CHR 0x09 then [CHR 0x5C, CHR ''t'']
      else if byte_in 0 0x1F c \<or> c = CHR ''<'' \<or> c = CHR ''>'' \<or> c = CHR ''&'' then
        [CHR 0x5C, CHR ''u'', CHR ''0'', CHR ''0'', hex_char (of_char c div 16), hex_char (of_char c mod 16)]
      else [c])"

function (sequential) escape :: "string \<Rightarrow> string" where
  "escape [] = []"
| "escape (c # s) =
     (let n = utf8_len (c # s); rune = take n (c # s)
      in if n = 0 then [CHR 0x5C] @ ''ufffd'' @ escape s
         else if n = 1 then esc_ascii c @ escape s
         else if rune = [CHR 0xE2, CHR 0x80, CHR 0xA8] then [CHR 0x5C] @ ''u2028'' @ escape (drop n (c # s))
         else if rune = [CHR 0xE2, CHR 0x80, CHR 0xA9] then [CHR 0x5C] @ ''u2029'' @ escape (drop n (c # s))
         else rune @ escape (drop n (c # s)))"
  by pat_completeness auto
termination
  by (relation "measure length") (auto)

declare escape.simps [simp del]

function (sequential) valid_utf8 :: "string \<Rightarrow> bool" where
  "valid_utf8 [] = True"
| "valid_utf8 (c # s) =
     (let n = utf8_len (c # s) in if n = 0 then False else valid_utf8 (drop n (c # s)))"
  by pat_completeness auto
termination
  by (relation "measure length") (auto)

declare valid_utf8.simps [simp del]

text \<open>What a decoder makes of an encoded string: every byte that is no UTF-8 has become U+FFFD.\<close>

function (sequential) to_valid :: "string \<Rightarrow> string" where
  "to_valid [] = []"
| "to_valid (c # s) =
     (let n = utf8_len (c # s)
      in if n = 0 then replacement @ to_valid s
         else take n (c # s) @ to_valid (drop n (c # s)))"
  by pat_completeness auto
termination
  by (relation "measure length") (auto)

declare to_valid.simps [simp del]

lemma to_valid_id: "valid_utf8 s \<Longrightarrow> to_valid s = s"
proof (induction s rule: valid_utf8.induct)
  case (2 c s)
  then show ?case by (auto simp: valid_utf8.simps(2) to_valid.simps(2) Let_def split: if_splits)
qed (simp add: to_valid.simps)

lemma lex_str_simps [simp]:
  "lex_str [] = None"
  "lex_str (CHR 0x22 # s) = Some ([], s)"
  by (simp_all add: lex_str.simps)

lemma lex_str_rune:
  assumes "0 < utf8_len (c # s)" "c \<noteq> CHR 0x22" "c \<noteq> CHR 0x5C" "\<not> byte_in 0 0x1F c"
  shows "lex_str (c # s) =
    prepend (take (utf8_len (c # s)) (c # s)) (lex_str (drop (utf8_len (c # s)) (c # s)))"
  using assms by (simp add: lex_str.simps(2) [of c s])

lemma prepend_Some [simp]: "prepend p (Some (s, rest)) = Some (p @ s, rest)"
  by (simp add: prepend_def)

text \<open>Every ASCII character survives its escape.\<close>

lemma hex_val_hex_char [simp]: "n < 16 \<Longrightarrow> hex_val (hex_char n) = Some n"
  by (auto simp: hex_val_def hex_char_def byte_in_def)

lemma hex_val_zero: "hex_val (CHR ''0'') = Some 0"
  by (simp add: hex_val_def byte_in_def)

lemma lex_str_simple:
  "simple_escape e = Some d \<Longrightarrow> e \<noteq> CHR ''u'' \<Longrightarrow>
    lex_str (CHR 0x5C # e # s) = prepend [d] (lex_str s)"
  by (simp add: lex_str.simps(2) [of "CHR 0x5C"])

lemma lex_str_u:
  "hex4 (a # b # c # d # s) = Some r \<Longrightarrow> r < 0xD800 \<or> 0xE000 \<le> r \<Longrightarrow>
    lex_str (CHR 0x5C # CHR ''u'' # a # b # c # d # s) = prepend (utf8_enc r) (lex_str s)"
  by (auto simp: lex_str.simps(2) [of "CHR 0x5C"] simp del: hex4.simps)

lemma lex_str_esc_ascii:
  assumes "byte_in 0 0x7F c"
  shows "lex_str (esc_ascii c @ s) = prepend [c] (lex_str s)"
proof -
  consider (named) e where "esc_ascii c = [CHR 0x5C, e]" "simple_escape e = Some c" "e \<noteq> CHR ''u''"
    | (hex) "esc_ascii c = [CHR 0x5C, CHR ''u'', CHR ''0'', CHR ''0'',
              hex_char (of_char c div 16), hex_char (of_char c mod 16)]"
    | (plain) "esc_ascii c = [c]" "c \<noteq> CHR 0x22" "c \<noteq> CHR 0x5C" "\<not> byte_in 0 0x1F c"
    unfolding esc_ascii_def by (force simp: simple_escape_def split: if_splits)
  then show ?thesis
  proof cases
    case named
    then show ?thesis by (simp add: lex_str_simple)
  next
    case hex
    have c: "of_char c < (128 :: nat)" using assms by (simp add: byte_in_def)
    have "hex4 (CHR ''0'' # CHR ''0'' # hex_char (of_char c div 16) # hex_char (of_char c mod 16) # s)
          = Some (of_char c)"
      using c by (simp add: hex_val_zero)
    with c show ?thesis by (simp add: hex lex_str_u utf8_enc_def)
  next
    case plain
    have "utf8_len (c # s) = 1" using assms by (simp add: utf8_len.simps(2) utf8_need_def)
    with plain show ?thesis by (simp add: lex_str_rune)
  qed
qed

lemma lex_str_wide:
  assumes "n = utf8_len (c # s)" "1 < n"
  shows "lex_str (take n (c # s) @ t) = prepend (take n (c # s)) (lex_str t)"
proof -
  let ?u = "take (n - 1) s @ t"
  have eq: "take n (c # s) @ t = c # ?u"
    using assms(2) by (cases n) auto
  have le: "n \<le> length (c # s)"
    using utf8_len_le [of "c # s"] assms(1) by simp
  have len: "utf8_len (c # ?u) = n"
    using utf8_len_append [of "c # s" t] assms eq by (simp)
  have "\<not> byte_in 0 0x7F c"
    using assms by (auto simp: utf8_len.simps(2) utf8_need_def split: if_splits)
  then have "c \<noteq> CHR 0x22" "c \<noteq> CHR 0x5C" "\<not> byte_in 0 0x1F c"
    by (auto simp: byte_in_def)
  then have "lex_str (c # ?u) = prepend (take n (c # ?u)) (lex_str (drop n (c # ?u)))"
    using lex_str_rune [of c ?u] len assms(2) by (simp)
  moreover have "take n (c # ?u) = take n (c # s)" "drop n (c # ?u) = t"
    using le assms(2) by (cases n; simp)+
  ultimately show ?thesis by (simp add: eq)
qed

lemma utf8_enc_separators:
  "utf8_enc 0x2028 = [CHR 0xE2, CHR 0x80, CHR 0xA8]"
  "utf8_enc 0x2029 = [CHR 0xE2, CHR 0x80, CHR 0xA9]"
  by (simp_all add: utf8_enc_def char_of_def bit_0)

lemma utf8_enc_replacement: "utf8_enc 0xFFFD = replacement"
  by (simp add: utf8_enc_def char_of_def bit_0 replacement_def)

lemma lex_str_escape: "lex_str (escape s @ CHR 0x22 # rest) = Some (to_valid s, rest)"
proof (induction s rule: escape.induct)
  case 1
  then show ?case by (simp add: escape.simps to_valid.simps)
next
  case (2 c s)
  define n where "n = utf8_len (c # s)"
  let ?rune = "take n (c # s)" and ?tl = "drop n (c # s)"
  show ?case
  proof (cases "n = 0")
    case True
    then have "escape (c # s) = [CHR 0x5C] @ ''ufffd'' @ escape s" "to_valid (c # s) = replacement @ to_valid s"
      by (simp_all add: escape.simps(2) to_valid.simps(2) Let_def flip: n_def)
    moreover have "lex_str (escape s @ CHR 0x22 # rest) = Some (to_valid s, rest)"
      using "2.IH"(1) True by (simp flip: n_def)
    ultimately have "lex_str (escape (c # s) @ CHR 0x22 # rest) = prepend (utf8_enc 0xFFFD) (Some (to_valid s, rest))"
      by (simp add: lex_str_u hex_val_def byte_in_def)
    then show ?thesis
      using \<open>to_valid (c # s) = _\<close> by (simp add: utf8_enc_replacement)
  next
    case n: False
    then have tv: "to_valid (c # s) = ?rune @ to_valid ?tl"
      by (simp add: to_valid.simps(2) Let_def flip: n_def)
    consider (one) "n = 1"
      | (ls) "n \<noteq> 1" "?rune = [CHR 0xE2, CHR 0x80, CHR 0xA8]"
      | (ps) "n \<noteq> 1" "?rune = [CHR 0xE2, CHR 0x80, CHR 0xA9]"
      | (raw) "n \<noteq> 1" "?rune \<noteq> [CHR 0xE2, CHR 0x80, CHR 0xA8]"
          "?rune \<noteq> [CHR 0xE2, CHR 0x80, CHR 0xA9]"
      by blast
    then show ?thesis
    proof cases
      case one
      then have "byte_in 0 0x7F c"
        by (auto simp: n_def utf8_len.simps(2) utf8_need_def split: option.splits if_splits)
      moreover have "escape (c # s) = esc_ascii c @ escape s"
        using one n by (simp add: escape.simps(2) Let_def flip: n_def)
      moreover have "lex_str (escape s @ CHR 0x22 # rest) = Some (to_valid s, rest)"
        using "2.IH"(2) one n by (simp flip: n_def)
      ultimately show ?thesis using one by (simp add: lex_str_esc_ascii tv)
    next
      case ls
      then have esc: "escape (c # s) = [CHR 0x5C] @ ''u2028'' @ escape ?tl"
        using n by (simp add: escape.simps(2) Let_def flip: n_def)
      have "lex_str (escape ?tl @ CHR 0x22 # rest) = Some (to_valid ?tl, rest)"
        using "2.IH"(3) ls n by (simp flip: n_def)
      then have "lex_str (escape (c # s) @ CHR 0x22 # rest) = prepend (utf8_enc 0x2028) (Some (to_valid ?tl, rest))"
        by (simp add: esc lex_str_u hex_val_def byte_in_def)
      then have "lex_str (escape (c # s) @ CHR 0x22 # rest) = Some (?rune @ to_valid ?tl, rest)"
        unfolding ls(2) utf8_enc_separators prepend_Some .
      then show ?thesis unfolding tv .
    next
      case ps
      then have esc: "escape (c # s) = [CHR 0x5C] @ ''u2029'' @ escape ?tl"
        using n by (simp add: escape.simps(2) Let_def flip: n_def)
      have "lex_str (escape ?tl @ CHR 0x22 # rest) = Some (to_valid ?tl, rest)"
        using "2.IH"(4) ps n by (simp flip: n_def)
      then have "lex_str (escape (c # s) @ CHR 0x22 # rest) = prepend (utf8_enc 0x2029) (Some (to_valid ?tl, rest))"
        by (simp add: esc lex_str_u hex_val_def byte_in_def)
      then have "lex_str (escape (c # s) @ CHR 0x22 # rest) = Some (?rune @ to_valid ?tl, rest)"
        unfolding ps(2) utf8_enc_separators prepend_Some .
      then show ?thesis unfolding tv .
    next
      case raw
      then have "escape (c # s) = ?rune @ escape ?tl"
        using n by (simp add: escape.simps(2) Let_def flip: n_def)
      moreover have "lex_str (escape ?tl @ CHR 0x22 # rest) = Some (to_valid ?tl, rest)"
        using "2.IH"(5) raw n by (simp flip: n_def)
      ultimately show ?thesis
        using lex_str_wide [OF n_def] raw(1) n tv by simp
    qed
  qed
qed

section \<open>Numbers and the lexer\<close>

definition is_digit :: "char \<Rightarrow> bool" where
  "is_digit c \<longleftrightarrow> byte_in 48 57 c"

text \<open>A number literal at the front of a string: sign, integer part without a leading
  zero, optional fraction, optional exponent.\<close>

definition lex_frac :: "string \<Rightarrow> string option" where
  "lex_frac s =
     (if s \<noteq> [] \<and> hd s = CHR ''.'' then
        (let ds = takeWhile is_digit (tl s) in if ds = [] then None else Some (CHR ''.'' # ds))
      else Some [])"

definition lex_exp :: "string \<Rightarrow> string option" where
  "lex_exp s =
     (if s \<noteq> [] \<and> (hd s = CHR ''e'' \<or> hd s = CHR ''E'') then
        (let sg = (if tl s \<noteq> [] \<and> (hd (tl s) = CHR ''+'' \<or> hd (tl s) = CHR ''-'')
                   then [hd (tl s)] else []);
             ds = takeWhile is_digit (drop (length sg) (tl s))
         in if ds = [] then None else Some (hd s # sg @ ds))
      else Some [])"

definition lex_num :: "string \<Rightarrow> string option" where
  "lex_num s =
     (let sg = (if s \<noteq> [] \<and> hd s = CHR ''-'' then ''-'' else []);
          ds = takeWhile is_digit (drop (length sg) s);
          ip = (if ds \<noteq> [] \<and> hd ds = CHR ''0'' then ''0'' else ds)
      in if ds = [] then None
         else (case lex_frac (drop (length (sg @ ip)) s) of
                 None \<Rightarrow> None
               | Some fr \<Rightarrow>
                   (case lex_exp (drop (length (sg @ ip @ fr)) s) of
                      None \<Rightarrow> None
                    | Some ex \<Rightarrow> Some (sg @ ip @ fr @ ex))))"

lemma lex_num_not_Nil: "lex_num s = Some l \<Longrightarrow> l \<noteq> []"
  by (auto simp: lex_num_def Let_def split: if_splits option.splits)

definition punct :: "char \<Rightarrow> tok option" where
  "punct c = map_of [(CHR ''{'', LBrace), (CHR ''}'', RBrace), (CHR ''['', LBrack),
     (CHR '']'', RBrack), (CHR '':'', Colon), (CHR '','', Comma)] c"

definition json_space :: "char \<Rightarrow> bool" where
  "json_space c \<longleftrightarrow> c = CHR '' '' \<or> c = CHR 0x09 \<or> c = CHR 0x0A \<or> c = CHR 0x0D"

definition lex_word :: "string \<Rightarrow> (tok \<times> nat) option" where
  "lex_word s = (if HasPrefix s ''true'' then Some (TTrue, 4)
                 else if HasPrefix s ''false'' then Some (TFalse, 5)
                 else if HasPrefix s ''null'' then Some (TNull, 4)
                 else None)"

function (sequential) lex :: "string \<Rightarrow> tok list option" where
  "lex [] = Some []"
| "lex (c # s) =
     (if json_space c then lex s
      else case punct c of
        Some t \<Rightarrow> map_option (Cons t) (lex s)
      | None \<Rightarrow>
          if c = CHR 0x22 then
            (case lex_str s of
               None \<Rightarrow> None
             | Some (v, rest) \<Rightarrow> map_option (Cons (TStr v)) (lex rest))
          else (case lex_word (c # s) of
              Some (t, n) \<Rightarrow> map_option (Cons t) (lex (drop n (c # s)))
            | None \<Rightarrow>
                (case lex_num (c # s) of
                   None \<Rightarrow> None
                 | Some l \<Rightarrow> map_option (Cons (TNum l)) (lex (drop (length l) (c # s))))))"
  by pat_completeness auto
termination
  by (relation "measure length")
     (auto dest: lex_str_shorter lex_num_not_Nil simp: lex_word_def split: if_splits)

declare lex.simps(2) [simp del]

section \<open>The parser\<close>

text \<open>
  Recursive descent over tokens.  The first argument bounds the recursion; with more fuel
  than twice the number of tokens it never runs out (\<open>parse_enough_fuel\<close>).
\<close>

fun pval :: "nat \<Rightarrow> tok list \<Rightarrow> (json \<times> tok list) option"
  and pelems :: "nat \<Rightarrow> tok list \<Rightarrow> (json list \<times> tok list) option"
  and pmembers :: "nat \<Rightarrow> tok list \<Rightarrow> ((string \<times> json) list \<times> tok list) option" where
  "pval 0 ts = None"
| "pval (Suc n) ts =
     (case ts of
        TTrue # r \<Rightarrow> Some (JBool True, r)
      | TFalse # r \<Rightarrow> Some (JBool False, r)
      | TNull # r \<Rightarrow> Some (JNull, r)
      | TNum l # r \<Rightarrow> Some (JNum l, r)
      | TStr s # r \<Rightarrow> Some (JStr s, r)
      | LBrack # r \<Rightarrow>
          if r \<noteq> [] \<and> hd r = RBrack then Some (JArr [], tl r)
          else (case pelems n r of None \<Rightarrow> None | Some (vs, r') \<Rightarrow> Some (JArr vs, r'))
      | LBrace # r \<Rightarrow>
          if r \<noteq> [] \<and> hd r = RBrace then Some (JObj [], tl r)
          else (case pmembers n r of None \<Rightarrow> None | Some (ms, r') \<Rightarrow> Some (JObj ms, r'))
      | _ \<Rightarrow> None)"
| "pelems 0 ts = None"
| "pelems (Suc n) ts =
     (case pval n ts of
        Some (v, RBrack # r) \<Rightarrow> Some ([v], r)
      | Some (v, Comma # r) \<Rightarrow>
          (case pelems n r of None \<Rightarrow> None | Some (vs, r') \<Rightarrow> Some (v # vs, r'))
      | _ \<Rightarrow> None)"
| "pmembers 0 ts = None"
| "pmembers (Suc n) ts =
     (case ts of
        TStr k # Colon # r \<Rightarrow>
          (case pval n r of
             Some (v, RBrace # r) \<Rightarrow> Some ([(k, v)], r)
           | Some (v, Comma # r) \<Rightarrow>
               (case pmembers n r of None \<Rightarrow> None | Some (ms, r') \<Rightarrow> Some ((k, v) # ms, r'))
           | _ \<Rightarrow> None)
      | _ \<Rightarrow> None)"

fun json_depth :: "json \<Rightarrow> nat" where
  "json_depth (JArr vs) = Suc (fold max (map json_depth vs) 0)"
| "json_depth (JObj ms) = Suc (fold max (map (\<lambda>m. json_depth (snd m)) ms) 0)"
| "json_depth _ = 0"

definition maxNestingDepth :: nat where
  "maxNestingDepth = 10000"

definition json_parse :: "string \<Rightarrow> json option" where
  "json_parse s =
     (case lex s of
        None \<Rightarrow> None
      | Some ts \<Rightarrow>
          (case pval (Suc (2 * length ts)) ts of
             Some (v, []) \<Rightarrow> if json_depth v \<le> maxNestingDepth then Some v else None
           | _ \<Rightarrow> None))"

declare pval.simps(2) [simp del] pelems.simps(2) [simp del] pmembers.simps(2) [simp del]

lemmas parse_unfold = pval.simps(2) pelems.simps(2) pmembers.simps(2)

lemma parse_shorter_all:
  "(\<forall>ts v r. pval n ts = Some (v, r) \<longrightarrow> length r < length ts) \<and>
   (\<forall>ts vs r. pelems n ts = Some (vs, r) \<longrightarrow> length r < length ts) \<and>
   (\<forall>ts ms r. pmembers n ts = Some (ms, r) \<longrightarrow> length r < length ts)"
proof (induction n)
  case 0
  then show ?case by simp
next
  case (Suc n)
  have v: "length r < length ts" if "pval n ts = Some (v, r)" for ts v r
    using Suc.IH that by blast
  have e: "length r < length ts" if "pelems n ts = Some (vs, r)" for ts vs r
    using Suc.IH that by blast
  have m: "length r < length ts" if "pmembers n ts = Some (ms, r)" for ts ms r
    using Suc.IH that by blast
  show ?case
  proof (intro conjI allI impI)
    fix ts v r assume "pval (Suc n) ts = Some (v, r)"
    then show "length r < length ts"
      by (auto simp: parse_unfold split: list.splits tok.splits option.splits if_splits
          dest: e m)
  next
    fix ts vs r assume "pelems (Suc n) ts = Some (vs, r)"
    then show "length r < length ts"
      by (auto simp: parse_unfold split: list.splits tok.splits option.splits if_splits
          dest!: v e)
  next
    fix ts ms r assume "pmembers (Suc n) ts = Some (ms, r)"
    then show "length r < length ts"
      by (auto simp: parse_unfold split: list.splits tok.splits option.splits if_splits
          dest!: v m)
  qed
qed

lemma pval_shorter: "pval n ts = Some (v, r) \<Longrightarrow> length r < length ts"
  using parse_shorter_all by blast

lemma parse_fuel_step_all:
  "(\<forall>ts. 2 * length ts < n \<longrightarrow> pval (Suc n) ts = pval n ts) \<and>
   (\<forall>ts. 2 * length ts + 1 < n \<longrightarrow> pelems (Suc n) ts = pelems n ts) \<and>
   (\<forall>ts. 2 * length ts + 1 < n \<longrightarrow> pmembers (Suc n) ts = pmembers n ts)"
proof (induction n)
  case 0
  then show ?case by simp
next
  case (Suc n)
  have v: "pval (Suc n) ts = pval n ts" if "2 * length ts < n" for ts
    using Suc.IH that by blast
  have e: "pelems (Suc n) ts = pelems n ts" if "2 * length ts + 1 < n" for ts
    using Suc.IH that by blast
  have m: "pmembers (Suc n) ts = pmembers n ts" if "2 * length ts + 1 < n" for ts
    using Suc.IH that by blast
  show ?case
  proof (intro conjI allI impI)
    fix ts :: "tok list" assume "2 * length ts < Suc n"
    then show "pval (Suc (Suc n)) ts = pval (Suc n) ts"
      unfolding pval.simps(2) [of "Suc n" ts] pval.simps(2) [of n ts]
      by (auto simp: e m split: list.split tok.split)
  next
    fix ts :: "tok list" assume l: "2 * length ts + 1 < Suc n"
    have "pelems (Suc n) r = pelems n r" if "pval n ts = Some (w, Comma # r)" for w r
      using l pval_shorter [OF that] by (intro e) simp
    then show "pelems (Suc (Suc n)) ts = pelems (Suc n) ts"
      unfolding pelems.simps(2) [of "Suc n" ts] pelems.simps(2) [of n ts]
      using l by (auto simp: v split: option.split list.split tok.split)
  next
    fix ts :: "tok list" assume l: "2 * length ts + 1 < Suc n"
    note unf = pmembers.simps(2) [of "Suc n" ts] pmembers.simps(2) [of n ts]
    show "pmembers (Suc (Suc n)) ts = pmembers (Suc n) ts"
    proof (cases "\<exists>k r. ts = TStr k # Colon # r")
      case True
      then obtain k r where ts: "ts = TStr k # Colon # r" by blast
      have 1: "pval (Suc n) r = pval n r"
        using l ts by (intro v) simp
      have 2: "pmembers (Suc n) r' = pmembers n r'" if "pval n r = Some (w, Comma # r')" for w r'
        using l ts pval_shorter [OF that] by (intro m) simp
      show ?thesis
        unfolding unf by (auto simp: ts 1 2 split: option.split list.split tok.split)
    next
      case False
      then show ?thesis
        unfolding unf by (auto split: list.split tok.split)
    qed
  qed
qed

lemma parse_enough_fuel:
  "2 * length ts < n \<Longrightarrow> pval n ts = pval (Suc (2 * length ts)) ts"
proof (induction n)
  case 0
  then show ?case by simp
next
  case (Suc n)
  then show ?case
    using parse_fuel_step_all [of n] by (cases "n = 2 * length ts") auto
qed

section \<open>The printer\<close>

fun json_toks :: "json \<Rightarrow> tok list"
  and elems_toks :: "json list \<Rightarrow> tok list"
  and members_toks :: "(string \<times> json) list \<Rightarrow> tok list" where
  "json_toks JNull = [TNull]"
| "json_toks (JBool b) = [if b then TTrue else TFalse]"
| "json_toks (JNum l) = [TNum l]"
| "json_toks (JStr s) = [TStr s]"
| "json_toks (JArr vs) = LBrack # elems_toks vs @ [RBrack]"
| "json_toks (JObj ms) = LBrace # members_toks ms @ [RBrace]"
| "elems_toks [] = []"
| "elems_toks (v # vs) = json_toks v @ (if vs = [] then [] else Comma # elems_toks vs)"
| "members_toks [] = []"
| "members_toks (m # ms) =
     TStr (fst m) # Colon # json_toks (snd m) @ (if ms = [] then [] else Comma # members_toks ms)"

fun tok_print :: "tok \<Rightarrow> string" where
  "tok_print LBrace = ''{''"
| "tok_print RBrace = ''}''"
| "tok_print LBrack = ''[''"
| "tok_print RBrack = '']''"
| "tok_print Colon = '':''"
| "tok_print Comma = '',''"
| "tok_print TTrue = ''true''"
| "tok_print TFalse = ''false''"
| "tok_print TNull = ''null''"
| "tok_print (TNum l) = l"
| "tok_print (TStr s) = CHR 0x22 # escape s @ [CHR 0x22]"

definition json_print :: "json \<Rightarrow> string" where
  "json_print v = concat (map tok_print (json_toks v))"

lemma json_toks_hd:
  "\<exists>t r. json_toks v = t # r \<and> t \<noteq> RBrack \<and> t \<noteq> RBrace"
  by (cases v) auto

lemma pval_atom:
  assumes "2 \<le> n"
  shows "pval n (TNull # r) = Some (JNull, r)" "pval n (TTrue # r) = Some (JBool True, r)"
    "pval n (TFalse # r) = Some (JBool False, r)" "pval n (TNum l # r) = Some (JNum l, r)"
    "pval n (TStr s # r) = Some (JStr s, r)"
  using assms by (cases n; simp add: parse_unfold)+

lemma pval_json_toks:
  "2 * length (json_toks v) \<le> n \<Longrightarrow> pval n (json_toks v @ r) = Some (v, r)"
  "vs \<noteq> [] \<Longrightarrow> 2 * length (elems_toks vs) + 1 \<le> n \<Longrightarrow>
     pelems n (elems_toks vs @ RBrack # r) = Some (vs, r)"
  "ms \<noteq> [] \<Longrightarrow> 2 * length (members_toks ms) + 1 \<le> n \<Longrightarrow>
     pmembers n (members_toks ms @ RBrace # r) = Some (ms, r)"
proof (induction v and vs and ms arbitrary: n r and n r and n r
    rule: json_toks_elems_toks_members_toks.induct)
  case (5 vs)
  then obtain m where n: "n = Suc m" by (cases n) auto
  show ?case
  proof (cases vs)
    case Nil
    then show ?thesis by (simp add: n parse_unfold)
  next
    case (Cons v ws)
    obtain t u where hd: "json_toks v = t # u" "t \<noteq> RBrack" using json_toks_hd by blast
    have "pelems m (elems_toks vs @ RBrack # r) = Some (vs, r)"
      using 5 Cons n by auto
    moreover have "elems_toks vs @ RBrack # r \<noteq> []" "hd (elems_toks vs @ RBrack # r) \<noteq> RBrack"
      using Cons hd by auto
    ultimately show ?thesis by (simp add: n parse_unfold)
  qed
next
  case (6 ms)
  then obtain m where n: "n = Suc m" by (cases n) auto
  show ?case
  proof (cases ms)
    case Nil
    then show ?thesis by (simp add: n parse_unfold)
  next
    case (Cons p ws)
    have "pmembers m (members_toks ms @ RBrace # r) = Some (ms, r)"
      using 6 Cons n by auto
    with Cons show ?thesis by (simp add: n parse_unfold)
  qed
next
  case (8 v vs)
  then obtain m where n: "n = Suc m" by (cases n) auto
  show ?case using 8 by (auto simp: n parse_unfold)
next
  case (10 p ms)
  then obtain m where n: "n = Suc m" by (cases n) auto
  show ?case using 10 by (auto simp: n parse_unfold)
qed (simp_all add: pval_atom)

text \<open>What a decoder gets back: strings lose their invalid bytes, nothing else changes.\<close>

fun san_tok :: "tok \<Rightarrow> tok" where
  "san_tok (TStr s) = TStr (to_valid s)"
| "san_tok t = t"

fun san :: "json \<Rightarrow> json" where
  "san (JStr s) = JStr (to_valid s)"
| "san (JArr vs) = JArr (map san vs)"
| "san (JObj ms) = JObj (map (\<lambda>m. (to_valid (fst m), san (snd m))) ms)"
| "san v = v"

lemma json_toks_san:
  "json_toks (san v) = map san_tok (json_toks v)"
  "elems_toks (map san vs) = map san_tok (elems_toks vs)"
  "members_toks (map (\<lambda>m. (to_valid (fst m), san (snd m))) ms) = map san_tok (members_toks ms)"
  by (induction v and vs and ms rule: json_toks_elems_toks_members_toks.induct) auto

lemma json_depth_san: "json_depth (san v) = json_depth v"
proof (induction v rule: san.induct)
  case (2 vs)
  then have "map (json_depth \<circ> san) vs = map json_depth vs" by simp
  then show ?case by (simp only: san.simps json_depth.simps list.map_comp)
next
  case (3 ms)
  then have "map ((\<lambda>m. json_depth (snd m)) \<circ> (\<lambda>m. (to_valid (fst m), san (snd m)))) ms
      = map (\<lambda>m. json_depth (snd m)) ms" by simp
  then show ?case by (simp only: san.simps json_depth.simps list.map_comp)
qed auto

text \<open>The numbers that the printer is asked to print here are natural-number literals.\<close>

definition nat_lit :: "string \<Rightarrow> bool" where
  "nat_lit l \<longleftrightarrow> l \<noteq> [] \<and> list_all is_digit l \<and> (hd l = CHR ''0'' \<longrightarrow> l = ''0'')"

fun json_nums :: "json \<Rightarrow> bool" where
  "json_nums (JNum l) = nat_lit l"
| "json_nums (JArr vs) = list_all json_nums vs"
| "json_nums (JObj ms) = list_all (\<lambda>m. json_nums (snd m)) ms"
| "json_nums _ = True"

fun json_ok :: "json \<Rightarrow> bool" where
  "json_ok (JNum l) = nat_lit l"
| "json_ok (JStr s) = valid_utf8 s"
| "json_ok (JArr vs) = list_all json_ok vs"
| "json_ok (JObj ms) = list_all (\<lambda>m. valid_utf8 (fst m) \<and> json_ok (snd m)) ms"
| "json_ok _ = True"

lemma json_ok_nums: "json_ok v \<Longrightarrow> json_nums v"
  by (induction v rule: json_ok.induct) (auto simp: list_all_iff)

lemma json_ok_san: "json_ok v \<Longrightarrow> san v = v"
  by (induction v rule: json_ok.induct) (auto simp: list_all_iff to_valid_id map_idI)

fun toks_ok :: "tok list \<Rightarrow> bool" where
  "toks_ok [] = True"
| "toks_ok (TNum l # ts) = (nat_lit l \<and> (case ts of TNum _ # _ \<Rightarrow> False | _ \<Rightarrow> True) \<and> toks_ok ts)"
| "toks_ok (t # ts) = toks_ok ts"

lemma toks_ok_append:
  "toks_ok ts \<Longrightarrow> toks_ok (t # r) \<Longrightarrow> (\<forall>l. t \<noteq> TNum l) \<Longrightarrow> toks_ok (ts @ t # r)"
proof (induction ts rule: toks_ok.induct)
  case (2 l ts)
  then show ?case by (cases ts) (auto split: tok.splits)
qed auto

lemma toks_ok_json_toks:
  "json_nums v \<Longrightarrow> toks_ok (json_toks v)"
  "list_all json_nums vs \<Longrightarrow> toks_ok (elems_toks vs)"
  "list_all (\<lambda>m. json_nums (snd m)) ms \<Longrightarrow> toks_ok (members_toks ms)"
  by (induction v and vs and ms rule: json_toks_elems_toks_members_toks.induct)
     (auto intro!: toks_ok_append)

lemma takeWhile_digits:
  "list_all is_digit l \<Longrightarrow> s = [] \<or> \<not> is_digit (hd s) \<Longrightarrow> takeWhile is_digit (l @ s) = l"
  by (induction l) (cases s, auto)

definition num_end :: "string \<Rightarrow> bool" where
  "num_end s \<longleftrightarrow> s = [] \<or> (\<not> is_digit (hd s) \<and> hd s \<noteq> CHR ''.'' \<and> hd s \<noteq> CHR ''e'' \<and> hd s \<noteq> CHR ''E'')"

lemma lex_num_nat_lit: "nat_lit l \<Longrightarrow> num_end s \<Longrightarrow> lex_num (l @ s) = Some l"
proof -
  assume l: "nat_lit l" and s: "num_end s"
  have tw: "takeWhile is_digit (l @ s) = l"
    using l s by (intro takeWhile_digits) (auto simp: nat_lit_def num_end_def)
  have "hd l \<noteq> CHR ''-''" "l \<noteq> []"
    using l by (cases l; auto simp: nat_lit_def is_digit_def byte_in_def)+
  moreover have "lex_frac s = Some []" "lex_exp s = Some []"
    using s by (auto simp: lex_frac_def lex_exp_def num_end_def)
  moreover have "hd l = CHR ''0'' \<Longrightarrow> l = ''0''"
    using l by (simp add: nat_lit_def)
  ultimately show ?thesis using tw by (auto simp: lex_num_def Let_def)
qed

lemma tok_print_hd:
  "\<forall>l. t \<noteq> TNum l \<Longrightarrow> num_end (tok_print t @ s)"
  by (cases t) (auto simp: num_end_def is_digit_def byte_in_def)

lemma lex_digit:
  assumes "is_digit c" "lex_num (c # s) = Some l"
  shows "lex (c # s) = map_option (Cons (TNum l)) (lex (drop (length l) (c # s)))"
proof -
  have "\<not> json_space c" "punct c = None" "c \<noteq> CHR 0x22"
    using assms(1) by (auto simp: is_digit_def byte_in_def json_space_def punct_def)
  moreover have "lex_word (c # s) = None"
    using assms(1) by (auto simp: lex_word_def is_digit_def byte_in_def)
  ultimately show ?thesis using assms(2) by (simp add: lex.simps(2) [of c s])
qed

lemma lex_tok_print:
  "toks_ok ts \<Longrightarrow> lex (concat (map tok_print ts)) = Some (map san_tok ts)"
proof (induction ts rule: toks_ok.induct)
  case 1
  then show ?case by simp
next
  case (2 l ts)
  have end_: "num_end (concat (map tok_print ts))"
    using "2.prems" by (cases ts) (auto simp: num_end_def is_digit_def byte_in_def split: tok.splits)
  obtain c u where l: "l = c # u" "is_digit c"
    using "2.prems" by (cases l) (auto simp: nat_lit_def)
  have "lex_num (l @ concat (map tok_print ts)) = Some l"
    using "2.prems" end_ by (intro lex_num_nat_lit) auto
  with 2 l show ?case by (simp add: lex_digit)
qed (simp_all add: lex.simps(2) json_space_def punct_def lex_word_def lex_str_escape)

theorem json_parse_print_san:
  "json_nums v \<Longrightarrow> json_depth v \<le> maxNestingDepth \<Longrightarrow> json_parse (json_print v) = Some (san v)"
  using pval_json_toks(1) [of "san v" "Suc (2 * length (json_toks v))" "[]"]
  by (simp add: json_parse_def json_print_def lex_tok_print toks_ok_json_toks json_toks_san json_depth_san)

theorem json_parse_print:
  "json_ok v \<Longrightarrow> json_depth v \<le> maxNestingDepth \<Longrightarrow> json_parse (json_print v) = Some v"
  using json_parse_print_san json_ok_nums json_ok_san by metis

text \<open>The size of what is printed: no byte takes more than six.\<close>

lemma length_escape: "length (escape s) \<le> 6 * length s"
proof (induction s rule: escape.induct)
  case (2 c s)
  define n where "n = utf8_len (c # s)"
  have le: "n \<le> length (c # s)" using utf8_len_le [of "c # s"] by (simp only: n_def)
  have esc: "length (esc_ascii c) \<le> 6" by (simp add: esc_ascii_def)
  have e: "escape (c # s) =
      (if n = 0 then [CHR 0x5C] @ ''ufffd'' @ escape s
       else if n = 1 then esc_ascii c @ escape s
       else if take n (c # s) = [CHR 0xE2, CHR 0x80, CHR 0xA8] then [CHR 0x5C] @ ''u2028'' @ escape (drop n (c # s))
       else if take n (c # s) = [CHR 0xE2, CHR 0x80, CHR 0xA9] then [CHR 0x5C] @ ''u2029'' @ escape (drop n (c # s))
       else take n (c # s) @ escape (drop n (c # s)))"
    by (simp only: escape.simps(2) Let_def n_def)
  note IH = "2.IH" [OF n_def refl]
  show ?case using IH esc le unfolding e by (auto simp del: drop_Cons' take_Cons')
qed (simp add: escape.simps)

fun tok_bound :: "tok \<Rightarrow> nat" where
  "tok_bound (TStr s) = 6 * length s + 2"
| "tok_bound (TNum l) = length l"
| "tok_bound t = 5"

lemma length_json_print: "length (json_print v) \<le> sum_list (map tok_bound (json_toks v))"
proof -
  have "length (tok_print t) \<le> tok_bound t" for t
    using length_escape by (cases t) auto
  then have "sum_list (map (length \<circ> tok_print) ts) \<le> sum_list (map tok_bound ts)" for ts
    by (induction ts) (auto intro: add_mono)
  then show ?thesis by (simp add: json_print_def length_concat)
qed

section \<open>Decoding into structs\<close>

text \<open>
  Field names are compared exactly first and then after case folding; the long s and the
  Kelvin sign fold to ASCII letters.  A member that no field matches is ignored, a later
  duplicate overwrites an earlier one, \<^verbatim>\<open>null\<close> leaves the field as it is, and a
  value of the wrong type makes the whole call fail.
\<close>

fun fold_key :: "string \<Rightarrow> string" where
  "fold_key [] = []"
| "fold_key (c # s) =
     (if c = CHR 0xC5 \<and> HasPrefix s [CHR 0xBF] then CHR ''S'' # fold_key (drop 1 s)
      else if c = CHR 0xE2 \<and> HasPrefix s [CHR 0x84, CHR 0xAA] then CHR ''K'' # fold_key (drop 2 s)
      else upper_char c # fold_key s)"

type_synonym 'a field = "string \<times> (json \<Rightarrow> 'a \<Rightarrow> 'a option)"

definition find_field :: "'a field list \<Rightarrow> string \<Rightarrow> (json \<Rightarrow> 'a \<Rightarrow> 'a option) option" where
  "find_field fs k =
     (case map_of fs k of
        Some f \<Rightarrow> Some f
      | None \<Rightarrow> map_of (map (\<lambda>(n, f). (fold_key n, f)) fs) (fold_key k))"

fun assign_members :: "'a field list \<Rightarrow> (string \<times> json) list \<Rightarrow> 'a \<Rightarrow> 'a option" where
  "assign_members fs [] r = Some r"
| "assign_members fs ((k, v) # ms) r =
     (case find_field fs k of
        None \<Rightarrow> assign_members fs ms r
      | Some f \<Rightarrow> (case f v r of None \<Rightarrow> None | Some r' \<Rightarrow> assign_members fs ms r'))"

definition str_field :: "(string \<Rightarrow> 'a \<Rightarrow> 'a) \<Rightarrow> json \<Rightarrow> 'a \<Rightarrow> 'a option" where
  "str_field upd j r = (case j of JStr s \<Rightarrow> Some (upd s r) | JNull \<Rightarrow> Some r | _ \<Rightarrow> None)"

fun json_strs :: "json list \<Rightarrow> string list option" where
  "json_strs [] = Some []"
| "json_strs (JStr s # vs) = map_option (Cons s) (json_strs vs)"
| "json_strs (JNull # vs) = map_option (Cons []) (json_strs vs)"
| "json_strs (_ # vs) = None"

definition strs_field :: "(string list \<Rightarrow> 'a \<Rightarrow> 'a) \<Rightarrow> json \<Rightarrow> 'a \<Rightarrow> 'a option" where
  "strs_field upd j r =
     (case j of
        JArr vs \<Rightarrow> map_option (\<lambda>ss. upd ss r) (json_strs vs)
      | JNull \<Rightarrow> Some (upd [] r)
      | _ \<Rightarrow> None)"

definition int_field :: "(int \<Rightarrow> 'a \<Rightarrow> 'a) \<Rightarrow> json \<Rightarrow> 'a \<Rightarrow> 'a option" where
  "int_field upd j r =
     (case j of
        JNum l \<Rightarrow> map_option (\<lambda>i. upd i r) (Atoi l)
      | JNull \<Rightarrow> Some r
      | _ \<Rightarrow> None)"

definition u16_field :: "(16 word \<Rightarrow> 'a \<Rightarrow> 'a) \<Rightarrow> json \<Rightarrow> 'a \<Rightarrow> 'a option" where
  "u16_field upd j r =
     (case j of
        JNum l \<Rightarrow> (case ParseUint64 l of
                     Some n \<Rightarrow> if n < 65536 then Some (upd (of_nat n) r) else None
                   | None \<Rightarrow> None)
      | JNull \<Rightarrow> Some r
      | _ \<Rightarrow> None)"

definition unmarshal_struct :: "'a field list \<Rightarrow> 'a \<Rightarrow> string \<Rightarrow> gerror + 'a" where
  "unmarshal_struct fs zero s =
     (case json_parse s of
        Some (JObj ms) \<Rightarrow>
          (case assign_members fs ms zero of None \<Rightarrow> Inl JSONError | Some r \<Rightarrow> Inr r)
      | Some JNull \<Rightarrow> Inr zero
      | _ \<Rightarrow> Inl JSONError)"

lemma json_strs_map_JStr [simp]: "json_strs (map JStr ss) = Some ss"
  by (induction ss) auto

text \<open>How the fields of the message types are found and set, and that their names are valid.\<close>

named_theorems json_fields

declare str_field_def [json_fields] strs_field_def [json_fields]

lemma find_field_exact [simp]: "find_field ((k, f) # fs) k = Some f"
  by (simp add: find_field_def)

lemma find_field_second [json_fields]: "k' \<noteq> k \<Longrightarrow> find_field [(k, f), (k', g)] k' = Some g"
  by (simp add: find_field_def)

lemma depth_small: "json_depth v \<le> 5 \<Longrightarrow> json_depth v \<le> maxNestingDepth"
  by (simp add: maxNestingDepth_def)

lemma unmarshal_struct_print:
  "json_ok (JObj ms) \<Longrightarrow> json_depth (JObj ms) \<le> maxNestingDepth \<Longrightarrow>
    assign_members fs ms zero = Some r \<Longrightarrow>
    unmarshal_struct fs zero (json_print (JObj ms)) = Inr r"
  by (simp add: unmarshal_struct_def json_parse_print)

lemma unmarshal_struct_print_san:
  "json_nums (JObj ms) \<Longrightarrow> json_depth (JObj ms) \<le> maxNestingDepth \<Longrightarrow>
    assign_members fs (map (\<lambda>m. (to_valid (fst m), san (snd m))) ms) zero = Some r \<Longrightarrow>
    unmarshal_struct fs zero (json_print (JObj ms)) = Inr r"
  using json_parse_print_san [of "JObj ms"] by (simp add: unmarshal_struct_def)

lemma fold_max_le: "(\<And>x. x \<in> set xs \<Longrightarrow> f x \<le> (b :: nat)) \<Longrightarrow> a \<le> b \<Longrightarrow> fold max (map f xs) a \<le> b"
  by (induction xs arbitrary: a) auto

lemma json_depth_strs: "json_depth (JArr (map JStr ss)) = 1"
proof -
  have "fold max (map json_depth (map JStr ss)) 0 \<le> (0 :: nat)"
    by (rule fold_max_le) auto
  then show ?thesis by simp
qed

text \<open>Every ASCII string is valid UTF-8.\<close>

lemma valid_utf8_ascii: "is_ascii s \<Longrightarrow> valid_utf8 s"
  by (induction s)
     (auto simp: valid_utf8.simps is_ascii_def Let_def utf8_len.simps(2) utf8_need_def byte_in_def)

section \<open>Printed numbers\<close>

lemma digit_char_is_digit: "d < 10 \<Longrightarrow> is_digit (digit_char d)"
  by (simp add: is_digit_def byte_in_def digit_char_def)

lemma hd_show_nat: "n \<noteq> 0 \<Longrightarrow> hd (show_nat n) \<noteq> CHR ''0''"
proof (induction n rule: show_nat.induct)
  case (1 n)
  show ?case
  proof (cases "n < 10")
    case True
    then have "(of_char (digit_char n) :: nat) \<noteq> of_char (CHR ''0'')" using 1(2) by (simp add: digit_char_def)
    then have "digit_char n \<noteq> CHR ''0''" by metis
    then show ?thesis using True by (subst show_nat.simps) simp
  next
    case False
    then have "n div 10 \<noteq> 0" by simp
    with 1(1) [OF False] have "hd (show_nat (n div 10)) \<noteq> CHR ''0''" by simp
    then show ?thesis using False by (subst show_nat.simps) simp
  qed
qed

lemma nat_lit_show_nat: "nat_lit (show_nat n)"
proof -
  have "list_all is_digit (show_nat n)"
    using set_show_nat digit_char_is_digit by (auto simp: list_all_iff)
  moreover have "show_nat 0 = ''0''" by (subst show_nat.simps) (simp add: digit_char_def char_of_def bit_0)
  ultimately show ?thesis using hd_show_nat [of n] by (cases "n = 0") (auto simp: nat_lit_def)
qed

lemma u16_field_show_nat: "u16_field upd (JNum (show_nat (unat (w :: 16 word)))) r = Some (upd w r)"
proof -
  have "unat w < 65536" using unsigned_less [of w] by simp
  moreover have "ParseUint64 (show_nat (unat w)) = Some (unat w)"
    using calculation by (intro ParseUint64_show_nat) simp
  ultimately show ?thesis by (simp add: u16_field_def)
qed

lemma Atoi_show_nat: "n < 2 ^ 63 \<Longrightarrow> Atoi (show_nat n) = Some (int n)"
proof -
  assume n: "n < 2 ^ 63"
  obtain c u where cu: "show_nat n = c # u" by (cases "show_nat n") auto
  have "is_digit c" using set_show_nat [of c n] digit_char_is_digit cu by auto
  then have "c \<noteq> CHR ''-''" "c \<noteq> CHR ''+''" by (auto simp: is_digit_def byte_in_def)
  then show ?thesis using n parse_digits_show_nat [of n] by (simp add: Atoi_def cu)
qed

section \<open>Quoted strings\<close>

text \<open>The verb \<^verbatim>\<open>%q\<close> on ASCII text; a byte outside ASCII is shown as an escape.\<close>

definition quote_char :: "char \<Rightarrow> string" where
  "quote_char c =
     (let n = (of_char c :: nat)
      in if c = CHR 0x22 \<or> c = CHR 0x5C then [CHR 0x5C, c]
         else if 32 \<le> n \<and> n < 127 then [c]
         else if c = CHR 0x07 then [CHR 0x5C, CHR ''a'']
         else if c = CHR 0x08 then [CHR 0x5C, CHR ''b'']
         else if c = CHR 0x0C then [CHR 0x5C, CHR ''f'']
         else if c = CHR 0x0A then [CHR 0x5C, CHR ''n'']
         else if c = CHR 0x0D then [CHR 0x5C, CHR ''r'']
         else if c = CHR 0x09 then [CHR 0x5C, CHR ''t'']
         else if c = CHR 0x0B then [CHR 0x5C, CHR ''v'']
         else [CHR 0x5C, CHR ''x'', hex_char (n div 16), hex_char (n mod 16)])"

definition quote :: "string \<Rightarrow> string" where
  "quote s = CHR 0x22 # concat (map quote_char s) @ [CHR 0x22]"

end
