(* ===== verification/Wire_Format.thy ===== *)
theory Wire_Format
  imports Main
begin

text \<open>
  Formats whose items can be read one after the other: framed messages, OpenPGP packets and
  integers, and the variables of a journal entry all keep this contract.
\<close>

text \<open>Items until the end of the input; the fuel bounds their number.\<close>

fun read_all :: "('c list \<Rightarrow> ('a \<times> 'c list) option) \<Rightarrow> nat \<Rightarrow> 'c list \<Rightarrow> 'a list option" where
  "read_all get 0 s = (if s = [] then Some [] else None)"
| "read_all get (Suc fuel) s =
     (if s = [] then Some []
      else case get s of
             None \<Rightarrow> None
           | Some (x, rest) \<Rightarrow> map_option (Cons x) (read_all get fuel rest))"

locale wire_format =
  fixes put :: "'a \<Rightarrow> 'c list" and get :: "'c list \<Rightarrow> ('a \<times> 'c list) option" and ok :: "'a \<Rightarrow> bool"
  assumes get_put: "ok x \<Longrightarrow> get (put x @ rest) = Some (x, rest)"
    and put_not_Nil: "ok x \<Longrightarrow> put x \<noteq> []"
begin

lemma put_inject: "ok x \<Longrightarrow> ok y \<Longrightarrow> put x @ r = put y @ s \<Longrightarrow> x = y \<and> r = s"
  by (metis get_put option.inject prod.inject)

lemma read_all_put: "list_all ok xs \<Longrightarrow> length xs \<le> fuel \<Longrightarrow> read_all get fuel (concat (map put xs)) = Some xs"
proof (induction xs arbitrary: fuel)
  case Nil
  then show ?case by (cases fuel) simp_all
next
  case (Cons x xs)
  then obtain f where f: "fuel = Suc f" by (cases fuel) auto
  have x: "ok x" "list_all ok xs" "length xs \<le> f" using Cons.prems f by simp_all
  show ?case using put_not_Nil [OF x(1)] get_put [OF x(1), of "concat (map put xs)"] Cons.IH [OF x(2,3)]
    by (simp add: f)
qed

text \<open>No two sequences of items look the same on the wire, so no item can pose as several.\<close>

lemma stream_inject:
  assumes "list_all ok xs" "list_all ok ys" "concat (map put xs) = concat (map put ys)"
  shows "xs = ys"
proof -
  let ?n = "max (length xs) (length ys)"
  have "read_all get ?n (concat (map put xs)) = Some xs" "read_all get ?n (concat (map put ys)) = Some ys"
    by (rule read_all_put; use assms in simp)+
  then show ?thesis unfolding assms(3) by simp
qed

end

end
