(* ===== verification/Net_Conn.thy ===== *)
theory Net_Conn
  imports Go_Json Wire_Format
begin

text \<open>
  A \<^verbatim>\<open>net.Conn\<close> as one end sees it during a run: the bytes that the peer sends and the
  error that follows them, and the bytes written so far together with how many more the
  transport takes before a write fails.  On top of it, the length-prefixed JSON messages
  that \<^verbatim>\<open>auth.go\<close> and \<^verbatim>\<open>webrtc.go\<close> both use.  The locale \<open>message_codec\<close> is the
  contract of a message type; its lemmas are the framing properties that every message
  type of the program gets by interpretation.
\<close>

record conn =
  rx :: bytes
  rx_end :: gerror
  tx :: bytes
  tx_room :: "nat option"
  tx_err :: gerror

abbreviation conn_of :: "bytes \<Rightarrow> conn" where
  "conn_of bs \<equiv> \<lparr>rx = bs, rx_end = EOF, tx = [], tx_room = None, tx_err = ErrShortWrite\<rparr>"

text \<open>\<^verbatim>\<open>conn.Write\<close>: all of the buffer, or what fits and the error of the transport.\<close>

definition conn_write :: "bytes \<Rightarrow> conn \<Rightarrow> gerror option \<times> conn" where
  "conn_write bs c =
     (case tx_room c of
        None \<Rightarrow> (None, c \<lparr>tx := tx c @ bs\<rparr>)
      | Some k \<Rightarrow>
          if length bs \<le> k then (None, c \<lparr>tx := tx c @ bs, tx_room := Some (k - length bs)\<rparr>)
          else (Some (tx_err c), c \<lparr>tx := tx c @ take k bs, tx_room := Some 0\<rparr>))"

text \<open>\<^verbatim>\<open>io.ReadFull\<close>: an end of file after some bytes is an unexpected one.\<close>

definition read_full :: "nat \<Rightarrow> conn \<Rightarrow> (gerror + bytes) \<times> conn" where
  "read_full n c =
     (if n \<le> length (rx c) then (Inr (take n (rx c)), c \<lparr>rx := drop n (rx c)\<rparr>)
      else (Inl (if rx_end c = EOF \<and> rx c \<noteq> [] then ErrUnexpectedEOF else rx_end c), c \<lparr>rx := []\<rparr>))"

definition max_message :: nat where
  "max_message = 10 * 1024 * 1024"

section \<open>Length-prefixed messages\<close>

text \<open>The two writes of a message, the length and the body.\<close>

definition write_message :: "string \<Rightarrow> conn \<Rightarrow> gerror option \<times> conn" where
  "write_message b c =
     (case conn_write (put_u32 (of_nat (length b))) c of
        (Some e, c1) \<Rightarrow> (Some e, c1)
      | (None, c1) \<Rightarrow> conn_write (bytes_of_string b) c1)"

definition read_message :: "(nat \<Rightarrow> gerror) \<Rightarrow> conn \<Rightarrow> (gerror + string) \<times> conn" where
  "read_message too_large c =
     (case read_full 4 c of
        (Inl e, c1) \<Rightarrow> (Inl e, c1)
      | (Inr lenBuf, c1) \<Rightarrow>
          let l = unat (get_u32 lenBuf)
          in if max_message < l then (Inl (too_large l), c1)
             else (case read_full l c1 of
                     (Inl e, c2) \<Rightarrow> (Inl e, c2)
                   | (Inr b, c2) \<Rightarrow> (Inr (string_of_bytes b), c2)))"

definition frame :: "string \<Rightarrow> bytes" where
  "frame b = put_u32 (of_nat (length b)) @ bytes_of_string b"

lemma conn_write_room [simp]:
  "tx_room c = None \<Longrightarrow> conn_write bs c = (None, c \<lparr>tx := tx c @ bs\<rparr>)"
  by (simp add: conn_write_def)

lemma write_message_ok:
  "tx_room c = None \<Longrightarrow> write_message b c = (None, c \<lparr>tx := tx c @ frame b\<rparr>)"
  by (simp add: write_message_def frame_def)

text \<open>What a write did: without an error the whole frame went out, with one a proper prefix.\<close>

lemma conn_write_prefix:
  assumes "conn_write bs c = (r, c')"
  obtains k where "tx c' = tx c @ take k bs" "rx c' = rx c" "rx_end c' = rx_end c"
    "r = None \<longleftrightarrow> length bs \<le> k" "r = None \<or> r = Some (tx_err c)" "tx_err c' = tx_err c"
proof (cases "tx_room c")
  case None
  then show ?thesis using assms that [of "length bs"] by auto
next
  case (Some n)
  then show ?thesis using assms that [of n] by (auto simp: conn_write_def split: if_splits)
qed

lemma write_message_prefix:
  assumes "write_message b c = (r, c')"
  obtains k where "tx c' = tx c @ take k (frame b)" "r = None \<longleftrightarrow> length (frame b) \<le> k"
    "r = None \<or> r = Some (tx_err c)"
proof -
  obtain r1 c1 where w: "conn_write (put_u32 (of_nat (length b))) c = (r1, c1)" by fastforce
  obtain k where k: "tx c1 = tx c @ take k (put_u32 (of_nat (length b)))" "r1 = None \<longleftrightarrow> 4 \<le> k"
      "r1 = None \<or> r1 = Some (tx_err c)" "tx_err c1 = tx_err c"
    using conn_write_prefix [OF w] by auto
  show ?thesis
  proof (cases r1)
    case None
    then have w2: "conn_write (bytes_of_string b) c1 = (r, c')"
      using assms w by (simp add: write_message_def)
    obtain j where "tx c' = tx c1 @ take j (bytes_of_string b)" "r = None \<longleftrightarrow> length b \<le> j"
        "r = None \<or> r = Some (tx_err c1)"
      using conn_write_prefix [OF w2] by auto
    then show ?thesis using k None by (intro that [of "4 + j"]) (auto simp: frame_def)
  next
    case (Some e)
    then have "k < 4" "r = Some e" "c' = c1" using assms w k(2) by (auto simp: write_message_def)
    then show ?thesis using k Some by (intro that [of k]) (auto simp: frame_def)
  qed
qed

lemma write_message_rx:
  "write_message b c = (r, c') \<Longrightarrow> rx c' = rx c \<and> rx_end c' = rx_end c"
  by (auto simp: write_message_def conn_write_def split: prod.splits option.splits if_splits)

lemma read_full_append:
  "length bs = n \<Longrightarrow> rx c = bs @ rest \<Longrightarrow> read_full n c = (Inr bs, c \<lparr>rx := rest\<rparr>)"
  by (simp add: read_full_def)

lemma read_message_frame:
  assumes "length b \<le> max_message" and "rx c = frame b @ rest"
  shows "read_message too_large c = (Inr b, c \<lparr>rx := rest\<rparr>)"
proof -
  have "length b < 2 ^ 32" using assms(1) by (simp add: max_message_def)
  then have l: "unat (of_nat (length b) :: 32 word) = length b"
    by (simp add: unat_of_nat)
  have "read_full 4 c = (Inr (put_u32 (of_nat (length b))), c \<lparr>rx := bytes_of_string b @ rest\<rparr>)"
    by (rule read_full_append) (simp_all add: assms(2) frame_def)
  moreover have "read_full (length b) (c \<lparr>rx := bytes_of_string b @ rest\<rparr>)
      = (Inr (bytes_of_string b), c \<lparr>rx := rest\<rparr>)"
    by (subst read_full_append [where bs = "bytes_of_string b" and rest = rest]) simp_all
  moreover have "get_u32 (put_u32 (of_nat (length b))) = of_nat (length b)"
    using get_put_u32 [of "of_nat (length b)" "[]"] by simp
  ultimately show ?thesis
    using assms(1) by (simp add: read_message_def l)
qed

text \<open>A frame that is cut short is never taken for a message.\<close>

lemma read_message_cut:
  assumes "length b \<le> max_message" and "rx c = take k (frame b)" and "k < length (frame b)"
  obtains e c' where "read_message too_large c = (Inl e, c')"
proof (cases "4 \<le> k")
  case False
  then show ?thesis
    using assms(2,3) that by (simp add: read_message_def read_full_def)
next
  case True
  have "length b < 2 ^ 32" using assms(1) by (simp add: max_message_def)
  then have l: "unat (of_nat (length b) :: 32 word) = length b"
    by (simp add: unat_of_nat)
  have r: "rx c = put_u32 (of_nat (length b)) @ take (k - 4) (bytes_of_string b)"
    using True by (simp add: assms(2) frame_def)
  have g: "get_u32 (put_u32 (of_nat (length b))) = of_nat (length b)"
    using get_put_u32 [of "of_nat (length b)" "[]"] by simp
  have "read_full 4 c = (Inr (put_u32 (of_nat (length b))), c \<lparr>rx := take (k - 4) (bytes_of_string b)\<rparr>)"
    by (rule read_full_append) (simp_all add: r)
  moreover have "k - 4 < length b" using assms(3) True by (simp add: frame_def)
  ultimately show ?thesis
    using assms(1) that by (simp add: read_message_def g l) (simp add: read_full_def)
qed

lemma read_message_Inr:
  assumes "read_message too_large c = (Inr b, c')"
  shows "length b \<le> max_message" and "rx c = frame b @ rx c'" and "c' = c \<lparr>rx := rx c'\<rparr>"
proof -
  let ?l = "unat (get_u32 (take 4 (rx c)))"
  have h: "4 \<le> length (rx c)" "?l \<le> max_message" "?l \<le> length (drop 4 (rx c))"
      "b = string_of_bytes (take ?l (drop 4 (rx c)))" "c' = c \<lparr>rx := drop ?l (drop 4 (rx c))\<rparr>"
    using assms by (auto simp: read_message_def read_full_def Let_def split: if_splits)
  have len: "length b = ?l" using h(3,4) by simp
  then show "length b \<le> max_message" using h(2) by simp
  have p: "put_u32 (get_u32 (take 4 (rx c))) = take 4 (rx c)"
    using h(1) by (intro put_get_u32) simp
  have "frame b = take 4 (rx c) @ take ?l (drop 4 (rx c))"
    unfolding frame_def len by (simp add: p h(4))
  moreover have "rx c' = drop ?l (drop 4 (rx c))" by (simp add: h(5))
  ultimately show "rx c = frame b @ rx c'"
    by (simp only: append_assoc append_take_drop_id)
  show "c' = c \<lparr>rx := rx c'\<rparr>" by (simp add: h(5))
qed

section \<open>Message types\<close>

text \<open>\<^verbatim>\<open>json.Marshal\<close> and \<^verbatim>\<open>json.Unmarshal\<close> of one message type, on the messages whose
  strings are valid UTF-8.\<close>

locale message_codec =
  fixes marshal :: "'m \<Rightarrow> string" and unmarshal :: "string \<Rightarrow> gerror + 'm" and wf :: "'m \<Rightarrow> bool"
  assumes decode_encode: "wf m \<Longrightarrow> unmarshal (marshal m) = Inr m"
begin

lemma received:
  assumes "wf m" and "length (marshal m) \<le> max_message" and "rx c = frame (marshal m) @ rest"
  obtains b where "read_message too_large c = (Inr b, c \<lparr>rx := rest\<rparr>)" "unmarshal b = Inr m"
  using that [of "marshal m"] read_message_frame [OF assms(2,3)] decode_encode [OF assms(1)] by simp

end

text \<open>On the wire, the messages of a type follow one another in frames.\<close>

definition get_message :: "(string \<Rightarrow> gerror + 'm) \<Rightarrow> bytes \<Rightarrow> ('m \<times> bytes) option" where
  "get_message unmarshal bs =
     (case read_message (\<lambda>_. EOF) (conn_of bs) of
        (Inl e, c) \<Rightarrow> None
      | (Inr b, c) \<Rightarrow> (case unmarshal b of Inl e \<Rightarrow> None | Inr m \<Rightarrow> Some (m, rx c)))"

sublocale message_codec \<subseteq> framed: wire_format
  "\<lambda>m. frame (marshal m)" "get_message unmarshal" "\<lambda>m. wf m \<and> length (marshal m) \<le> max_message"
proof
  fix m rest
  assume m: "wf m \<and> length (marshal m) \<le> max_message"
  then obtain b where "read_message (\<lambda>_. EOF) (conn_of (frame (marshal m) @ rest)) =
      (Inr b, (conn_of (frame (marshal m) @ rest)) \<lparr>rx := rest\<rparr>)" "unmarshal b = Inr m"
    using received [of m "conn_of (frame (marshal m) @ rest)" rest] by auto
  then show "get_message unmarshal (frame (marshal m) @ rest) = Some (m, rest)" by (simp add: get_message_def)
  show "frame (marshal m) \<noteq> []" by (simp add: frame_def flip: length_greater_0_conv)
qed

end
