(* ===== verification/Base32.thy ===== *)
theory Base32
  imports Go_Strings
begin

text \<open>
  \<^verbatim>\<open>base32.StdEncoding\<close>: encoding with padding and Go's decoder, which works on quanta of
  eight characters, accepts padding only at the end and drops left-over bits.  Device IDs
  and TOTP secrets are written in this encoding.
\<close>

definition b32_alphabet :: string where
  "b32_alphabet = ''ABCDEFGHIJKLMNOPQRSTUVWXYZ234567''"

definition b32_char :: "byte \<Rightarrow> char" where
  "b32_char v = b32_alphabet ! unat (v AND 31)"

definition b32_val :: "char \<Rightarrow> byte option" where
  "b32_val c = (let n = (of_char c :: nat)
                in if 65 \<le> n \<and> n \<le> 90 then Some (of_nat (n - 65))
                   else if 50 \<le> n \<and> n \<le> 55 then Some (of_nat (n - 24))
                   else None)"

section \<open>Encoding\<close>

text \<open>The eight five-bit values of a quantum of five bytes.\<close>

definition b32_split :: "byte \<Rightarrow> byte \<Rightarrow> byte \<Rightarrow> byte \<Rightarrow> byte \<Rightarrow> byte list" where
  "b32_split a b c d e =
     [drop_bit 3 a,
      (push_bit 2 a OR drop_bit 6 b) AND 31,
      drop_bit 1 b AND 31,
      (push_bit 4 b OR drop_bit 4 c) AND 31,
      (push_bit 1 c OR drop_bit 7 d) AND 31,
      drop_bit 2 d AND 31,
      (push_bit 3 d OR drop_bit 5 e) AND 31,
      e AND 31]"

fun b32_encode :: "bytes \<Rightarrow> string" where
  "b32_encode [] = []"
| "b32_encode [a] = map b32_char (take 2 (b32_split a 0 0 0 0)) @ ''======''"
| "b32_encode [a, b] = map b32_char (take 4 (b32_split a b 0 0 0)) @ ''====''"
| "b32_encode [a, b, c] = map b32_char (take 5 (b32_split a b c 0 0)) @ ''===''"
| "b32_encode [a, b, c, d] = map b32_char (take 7 (b32_split a b c d 0)) @ ''=''"
| "b32_encode (a # b # c # d # e # bs) = map b32_char (b32_split a b c d e) @ b32_encode bs"

section \<open>Decoding\<close>

definition b32_pack :: "byte list \<Rightarrow> bytes" where
  "b32_pack vs =
     (let v = (\<lambda>i. if i < length vs then vs ! i else 0)
      in take (length vs * 5 div 8)
         [push_bit 3 (v 0) OR drop_bit 2 (v 1),
          push_bit 6 (v 1) OR push_bit 1 (v 2) OR drop_bit 4 (v 3),
          push_bit 4 (v 3) OR drop_bit 1 (v 4),
          push_bit 7 (v 4) OR push_bit 2 (v 5) OR drop_bit 3 (v 6),
          push_bit 5 (v 6) OR v 7])"

text \<open>
  One quantum: the values read so far, the input, and on success the values, whether the
  end was reached, and the remaining input.  A padding character is recognised only after
  two values and with fewer than eight characters left; the characters that would complete
  the quantum must then be padding too, and the number of values must be 2, 4, 5 or 7.
\<close>

fun b32_quantum :: "byte list \<Rightarrow> string \<Rightarrow> (byte list \<times> bool \<times> string) option" where
  "b32_quantum acc [] = (if length acc = 8 then Some (acc, False, []) else None)"
| "b32_quantum acc (c # s) =
     (if length acc = 8 then Some (acc, False, c # s)
      else if c = CHR ''='' \<and> 2 \<le> length acc \<and> length s < 8 then
        (if length s + length acc < 7 then None
         else if \<not> list_all (\<lambda>x. x = CHR ''='') (take (7 - length acc) s) then None
         else if length acc = 3 \<or> length acc = 6 then None
         else Some (acc, True, s))
      else case b32_val c of
             None \<Rightarrow> None
           | Some v \<Rightarrow> b32_quantum (acc @ [v]) s)"

lemma b32_quantum_shorter:
  "b32_quantum acc s = Some (vs, fin, r) \<Longrightarrow> length acc < 8 \<Longrightarrow> length r < length s"
proof (induction acc s rule: b32_quantum.induct)
  case (1 acc)
  then show ?case by (simp split: if_splits)
next
  case (2 acc c s)
  show ?case
  proof (cases "length acc = 7")
    case True
    with 2 show ?thesis
      by (cases s) (auto split: if_splits option.splits)
  next
    case False
    with 2 show ?thesis by (auto split: if_splits option.splits dest: less_SucI)
  qed
qed

function b32_decode_clean :: "string \<Rightarrow> bytes option" where
  "b32_decode_clean s =
     (if s = [] then Some []
      else case b32_quantum [] s of
             None \<Rightarrow> None
           | Some (vs, fin, r) \<Rightarrow>
               if fin then Some (b32_pack vs)
               else map_option ((@) (b32_pack vs)) (b32_decode_clean r))"
  by pat_completeness auto
termination
  by (relation "measure length") (auto dest: b32_quantum_shorter)

declare b32_decode_clean.simps [simp del]

text \<open>\<^verbatim>\<open>DecodeString\<close> first drops carriage returns and line feeds.\<close>

definition b32_decode :: "string \<Rightarrow> bytes option" where
  "b32_decode s = b32_decode_clean (filter (\<lambda>c. c \<noteq> CHR 0x0D \<and> c \<noteq> CHR 0x0A) s)"

section \<open>Round trip\<close>

lemma length_b32_split [simp]: "length (b32_split a b c d e) = 8"
  by (simp add: b32_split_def)

lemma and_31: "(x :: byte) AND 31 = take_bit 5 x"
  by (simp add: take_bit_eq_mask mask_eq_exp_minus_1)

lemma b32_pack_bytes:
  fixes a b c d e :: byte
  shows "push_bit 3 (drop_bit 3 a) OR drop_bit 2 (take_bit 5 (push_bit 2 a OR drop_bit 6 b)) = a"
    "push_bit 6 (take_bit 5 (push_bit 2 a OR drop_bit 6 b)) OR push_bit 1 (take_bit 5 (drop_bit 1 b))
       OR drop_bit 4 (take_bit 5 (push_bit 4 b OR drop_bit 4 c)) = b"
    "push_bit 4 (take_bit 5 (push_bit 4 b OR drop_bit 4 c))
       OR drop_bit 1 (take_bit 5 (push_bit 1 c OR drop_bit 7 d)) = c"
    "push_bit 7 (take_bit 5 (push_bit 1 c OR drop_bit 7 d)) OR push_bit 2 (take_bit 5 (drop_bit 2 d))
       OR drop_bit 3 (take_bit 5 (push_bit 3 d OR drop_bit 5 e)) = d"
    "push_bit 5 (take_bit 5 (push_bit 3 d OR drop_bit 5 e)) OR take_bit 5 e = e"
  by (rule byte_eqI; simp add: bit_simps byte_bit_high del: push_bit_Suc;
      simp add: numeral_eq_Suc)+

lemma b32_pack_eqs:
  "b32_pack [v0, v1] = [push_bit 3 v0 OR drop_bit 2 v1]"
  "b32_pack [v0, v1, v2, v3] =
     [push_bit 3 v0 OR drop_bit 2 v1, push_bit 6 v1 OR push_bit 1 v2 OR drop_bit 4 v3]"
  "b32_pack [v0, v1, v2, v3, v4] =
     [push_bit 3 v0 OR drop_bit 2 v1, push_bit 6 v1 OR push_bit 1 v2 OR drop_bit 4 v3,
      push_bit 4 v3 OR drop_bit 1 v4]"
  "b32_pack [v0, v1, v2, v3, v4, v5, v6] =
     [push_bit 3 v0 OR drop_bit 2 v1, push_bit 6 v1 OR push_bit 1 v2 OR drop_bit 4 v3,
      push_bit 4 v3 OR drop_bit 1 v4, push_bit 7 v4 OR push_bit 2 v5 OR drop_bit 3 v6]"
  "b32_pack [v0, v1, v2, v3, v4, v5, v6, v7] =
     [push_bit 3 v0 OR drop_bit 2 v1, push_bit 6 v1 OR push_bit 1 v2 OR drop_bit 4 v3,
      push_bit 4 v3 OR drop_bit 1 v4, push_bit 7 v4 OR push_bit 2 v5 OR drop_bit 3 v6,
      push_bit 5 v6 OR v7]"
  by (simp_all add: b32_pack_def)

lemma take_quantum:
  "take 2 [v0, v1, v2, v3, v4, v5, v6, v7] = [v0, v1]"
  "take 4 [v0, v1, v2, v3, v4, v5, v6, v7] = [v0, v1, v2, v3]"
  "take 5 [v0, v1, v2, v3, v4, v5, v6, v7] = [v0, v1, v2, v3, v4]"
  "take 7 [v0, v1, v2, v3, v4, v5, v6, v7] = [v0, v1, v2, v3, v4, v5, v6]"
  by simp_all

lemma b32_pack_split:
  "b32_pack (b32_split a b c d e) = [a, b, c, d, e]"
  "b32_pack (take 2 (b32_split a 0 0 0 0)) = [a]"
  "b32_pack (take 4 (b32_split a b 0 0 0)) = [a, b]"
  "b32_pack (take 5 (b32_split a b c 0 0)) = [a, b, c]"
  "b32_pack (take 7 (b32_split a b c d 0)) = [a, b, c, d]"
  unfolding b32_split_def and_31 take_quantum b32_pack_eqs b32_pack_bytes by (rule refl)+

lemma b32_alphabet_all:
  "list_all (\<lambda>n. b32_val (b32_alphabet ! n) = Some (of_nat n) \<and> b32_alphabet ! n \<noteq> CHR ''=''
       \<and> b32_alphabet ! n \<noteq> CHR 0x0A \<and> b32_alphabet ! n \<noteq> CHR 0x0D) [0..<32]"
  by (simp add: b32_alphabet_def b32_val_def upt_rec)

lemma b32_alphabet_nth:
  assumes "n < 32"
  shows "b32_val (b32_alphabet ! n) = Some (of_nat n)" "b32_alphabet ! n \<noteq> CHR ''=''"
    "b32_alphabet ! n \<noteq> CHR 0x0A" "b32_alphabet ! n \<noteq> CHR 0x0D"
  using b32_alphabet_all assms by (auto simp: list_all_iff)

lemma unat_and_31: "unat ((v :: byte) AND 31) < 32"
  using take_bit_nat_less_exp [of 5 "unat v"] by (simp add: and_31 unsigned_take_bit_eq)

lemma b32_char_props [simp]:
  "b32_val (b32_char v) = Some (v AND 31)" "b32_char v \<noteq> CHR ''=''"
  "b32_char v \<noteq> CHR 0x0A" "b32_char v \<noteq> CHR 0x0D"
  using b32_alphabet_nth [OF unat_and_31 [of v]] by (simp_all add: b32_char_def)

lemma b32_quantum_chars:
  "length acc + length vs \<le> 8 \<Longrightarrow>
    b32_quantum acc (map b32_char vs @ s) = b32_quantum (acc @ map (\<lambda>v. v AND 31) vs) s"
  by (induction vs arbitrary: acc) auto

lemma b32_split_small: "v \<in> set (b32_split a b c d e) \<Longrightarrow> v AND 31 = v"
  unfolding b32_split_def and_31
  by (auto intro!: byte_eqI simp: bit_simps byte_bit_high)

lemma map_and_31_split:
  "map (\<lambda>v. v AND 31) (b32_split a b c d e) = b32_split a b c d e"
  "map (\<lambda>v. v AND 31) (take n (b32_split a b c d e)) = take n (b32_split a b c d e)"
  by (auto intro!: map_idI dest!: in_set_takeD b32_split_small)

lemma b32_quantum_full:
  "b32_quantum [] (map b32_char (b32_split a b c d e) @ s) = Some (b32_split a b c d e, False, s)"
  by (subst b32_quantum_chars) (auto simp: map_and_31_split split: list.split, cases s, auto)

lemma b32_quantum_pad:
  assumes "n \<in> {2, 4, 5, 7}"
  shows "b32_quantum [] (map b32_char (take n (b32_split a b c d e)) @ replicate (8 - n) (CHR ''=''))
    = Some (take n (b32_split a b c d e), True, replicate (7 - n) (CHR ''=''))"
proof -
  have pad: "b32_quantum acc (CHR ''='' # replicate (7 - n) (CHR ''=''))
      = Some (acc, True, replicate (7 - n) (CHR ''=''))" if "length acc = n" for acc
    using assms that by (auto simp: list_all_iff)
  have "replicate (8 - n) (CHR ''='') = CHR ''='' # replicate (7 - n) (CHR ''='')"
    using assms by (auto simp: numeral_eq_Suc)
  moreover have "length (take n (b32_split a b c d e)) = n" "n \<le> 8"
    using assms by auto
  ultimately show ?thesis
    by (simp only: b32_quantum_chars list.size add_0 append_Nil map_and_31_split pad)
qed

lemma b32_decode_padded:
  assumes "n \<in> {2, 4, 5, 7}" "pad = replicate (8 - n) (CHR ''='')"
  shows "b32_decode_clean (map b32_char (take n (b32_split a b c d e)) @ pad)
    = Some (b32_pack (take n (b32_split a b c d e)))"
proof -
  have "pad \<noteq> []" using assms by auto
  then show ?thesis
    using b32_quantum_pad [OF assms(1), of a b c d e] assms(2)
    by (subst b32_decode_clean.simps) simp
qed

lemma pads:
  "replicate 6 x = [x, x, x, x, x, x]" "replicate 4 x = [x, x, x, x]" "replicate 3 x = [x, x, x]"
  by (simp_all add: numeral_eq_Suc)

lemma b32_decode_clean_encode: "b32_decode_clean (b32_encode bs) = Some bs"
proof (induction bs rule: b32_encode.induct)
  case 1
  then show ?case by (simp add: b32_decode_clean.simps)
next
  case (2 a)
  then show ?case by (simp add: b32_decode_padded b32_pack_split pads)
next
  case (3 a b)
  then show ?case by (simp add: b32_decode_padded b32_pack_split pads)
next
  case (4 a b c)
  then show ?case by (simp add: b32_decode_padded b32_pack_split pads)
next
  case (5 a b c d)
  then show ?case by (simp add: b32_decode_padded b32_pack_split pads)
next
  case (6 a b c d e bs)
  have "b32_encode (a # b # c # d # e # bs) \<noteq> []"
    by (simp add: b32_split_def)
  with 6 show ?case
    by (subst b32_decode_clean.simps) (simp add: b32_quantum_full b32_pack_split)
qed

lemma b32_encode_chars: "c \<in> set (b32_encode bs) \<Longrightarrow> c = CHR ''='' \<or> (\<exists>v. c = b32_char v)"
  by (induction bs rule: b32_encode.induct) auto

theorem b32_decode_encode: "b32_decode (b32_encode bs) = Some bs"
proof -
  have "filter (\<lambda>c. c \<noteq> CHR 0x0D \<and> c \<noteq> CHR 0x0A) (b32_encode bs) = b32_encode bs"
    by (rule filter_True) (auto dest!: b32_encode_chars)
  then show ?thesis by (simp add: b32_decode_def b32_decode_clean_encode)
qed

end
