(* ===== verification/Otp.thy ===== *)
theory Otp
  imports Base32
begin

text \<open>
  One-time passwords (\<^verbatim>\<open>pquerna/otp\<close>: \<^verbatim>\<open>hotp.go\<close>, \<^verbatim>\<open>totp.go\<close> and the \<^verbatim>\<open>Digits\<close> type), as
  the server's second factor uses them.  The HMAC of the standard library is the parameter
  \<open>hmac\<close>; the time is the Unix time in seconds, whose division by the period is exact
  for every time that a float of 53 bits represents.  The lemmas show that a code is
  accepted exactly in the periods that the skew allows and that it always has the
  configured number of digits.
\<close>

datatype Algorithm = AlgorithmSHA1 | AlgorithmSHA256 | AlgorithmSHA512 | AlgorithmMD5

datatype Encoder = EncoderDefault | EncoderSteam

type_synonym hmac_fun = "Algorithm \<Rightarrow> bytes \<Rightarrow> bytes \<Rightarrow> bytes"

record hotp_opts =
  h_Digits :: nat
  h_Algorithm :: Algorithm
  h_Encoder :: Encoder

record totp_opts =
  t_Period :: nat
  t_Skew :: nat
  t_Digits :: nat
  t_Algorithm :: Algorithm
  t_Encoder :: Encoder

definition ErrValidateSecretInvalidBase32 :: gerror where
  "ErrValidateSecretInvalidBase32 = Errorf ''Decoding of secret as base32 failed.''"

definition ErrValidateInputInvalidLength :: gerror where
  "ErrValidateInputInvalidLength = Errorf ''Input length unexpected''"

definition DigitsSix :: nat where
  "DigitsSix = 6"

text \<open>\<^verbatim>\<open>Digits.Format\<close>: the verb \<^verbatim>\<open>%0<d>d\<close>, zero-padded on the left.\<close>

definition Format :: "nat \<Rightarrow> nat \<Rightarrow> string" where
  "Format d n = replicate (d - length (show_nat n)) (CHR ''0'') @ show_nat n"

section \<open>Counter-based codes\<close>

definition pad_secret :: "string \<Rightarrow> string" where
  "pad_secret secret =
     (let n = length secret mod 8
      in if n \<noteq> 0 then secret @ replicate (8 - n) (CHR ''='') else secret)"

text \<open>Dynamic truncation (RFC 4226, 5.4); an index out of range is a panic.\<close>

definition truncate :: "bytes \<Rightarrow> gerror + int" where
  "truncate h =
     (if h = [] then Inl (Errorf ''panic: index out of range'')
      else let offset = unat (last h AND 0xF)
           in if length h < offset + 4 then Inl (Errorf ''panic: index out of range'')
              else Inr (push_bit 24 (uint (h ! offset) AND 0x7F) OR
                        push_bit 16 (uint (h ! (offset + 1)) AND 0xFF) OR
                        push_bit 8 (uint (h ! (offset + 2)) AND 0xFF) OR
                        (uint (h ! (offset + 3)) AND 0xFF)))"

fun steam_code :: "nat \<Rightarrow> int \<Rightarrow> string" where
  "steam_code 0 v = []"
| "steam_code (Suc l) v =
     (''23456789BCDFGHJKMNPQRTVWXY'' ! nat (v mod 26)) # steam_code l (v div 26)"

definition hotp_GenerateCodeCustom ::
  "hmac_fun \<Rightarrow> (string \<Rightarrow> string) \<Rightarrow> string \<Rightarrow> 64 word \<Rightarrow> hotp_opts \<Rightarrow> gerror + string" where
  "hotp_GenerateCodeCustom hmac uni secret counter opts0 =
     (let opts = (if h_Digits opts0 = 0 then opts0 \<lparr>h_Digits := DigitsSix\<rparr> else opts0);
          sec = ToUpper uni (pad_secret (TrimSpace secret))
      in case b32_decode sec of
           None \<Rightarrow> Inl ErrValidateSecretInvalidBase32
         | Some secretBytes \<Rightarrow>
             (case truncate (hmac (h_Algorithm opts) secretBytes (put_u64 counter)) of
                Inl e \<Rightarrow> Inl e
              | Inr v \<Rightarrow>
                  let l = h_Digits opts
                  in Inr (case h_Encoder opts of
                            EncoderDefault \<Rightarrow> Format l (nat (v mod 10 ^ l))
                          | EncoderSteam \<Rightarrow> steam_code l v)))"

definition hotp_ValidateCustom ::
  "hmac_fun \<Rightarrow> (string \<Rightarrow> string) \<Rightarrow> string \<Rightarrow> 64 word \<Rightarrow> string \<Rightarrow> hotp_opts \<Rightarrow> gerror + bool" where
  "hotp_ValidateCustom hmac uni passcode0 counter secret opts =
     (let passcode = TrimSpace passcode0
      in if length passcode \<noteq> h_Digits opts then Inl ErrValidateInputInvalidLength
         else case hotp_GenerateCodeCustom hmac uni secret counter opts of
                Inl e \<Rightarrow> Inl e
              | Inr otpstr \<Rightarrow> Inr (otpstr = passcode))"

section \<open>Time-based codes\<close>

definition totp_hotp_opts :: "totp_opts \<Rightarrow> hotp_opts" where
  "totp_hotp_opts opts =
     \<lparr>h_Digits = t_Digits opts, h_Algorithm = t_Algorithm opts, h_Encoder = t_Encoder opts\<rparr>"

definition default_period :: "totp_opts \<Rightarrow> totp_opts" where
  "default_period opts = (if t_Period opts = 0 then opts \<lparr>t_Period := 30\<rparr> else opts)"

definition totp_GenerateCodeCustom ::
  "hmac_fun \<Rightarrow> (string \<Rightarrow> string) \<Rightarrow> string \<Rightarrow> int \<Rightarrow> totp_opts \<Rightarrow> gerror + string" where
  "totp_GenerateCodeCustom hmac uni secret t opts0 =
     (let opts = default_period opts0;
          counter = of_int (t div int (t_Period opts))
      in hotp_GenerateCodeCustom hmac uni secret counter (totp_hotp_opts opts))"

definition totp_counters :: "int \<Rightarrow> nat \<Rightarrow> 64 word list" where
  "totp_counters counter skew =
     of_int counter # concat (map (\<lambda>i. [of_int (counter + int i), of_int (counter - int i)]) [1..<Suc skew])"

fun validate_counters ::
  "hmac_fun \<Rightarrow> (string \<Rightarrow> string) \<Rightarrow> string \<Rightarrow> string \<Rightarrow> hotp_opts \<Rightarrow> 64 word list \<Rightarrow> gerror + bool" where
  "validate_counters hmac uni passcode secret opts [] = Inr False"
| "validate_counters hmac uni passcode secret opts (c # cs) =
     (case hotp_ValidateCustom hmac uni passcode c secret opts of
        Inl e \<Rightarrow> Inl e
      | Inr rv \<Rightarrow> if rv then Inr True else validate_counters hmac uni passcode secret opts cs)"

definition totp_ValidateCustom ::
  "hmac_fun \<Rightarrow> (string \<Rightarrow> string) \<Rightarrow> string \<Rightarrow> string \<Rightarrow> int \<Rightarrow> totp_opts \<Rightarrow> gerror + bool" where
  "totp_ValidateCustom hmac uni passcode secret t opts0 =
     (let opts = default_period opts0;
          counter = t div int (t_Period opts)
      in validate_counters hmac uni passcode secret (totp_hotp_opts opts)
           (totp_counters counter (t_Skew opts)))"

definition default_totp_opts :: totp_opts where
  "default_totp_opts = \<lparr>t_Period = 30, t_Skew = 1, t_Digits = DigitsSix,
     t_Algorithm = AlgorithmSHA1, t_Encoder = EncoderDefault\<rparr>"

definition totp_Validate :: "hmac_fun \<Rightarrow> (string \<Rightarrow> string) \<Rightarrow> int \<Rightarrow> string \<Rightarrow> string \<Rightarrow> bool" where
  "totp_Validate hmac uni now passcode secret =
     (case totp_ValidateCustom hmac uni passcode secret now default_totp_opts of
        Inl e \<Rightarrow> False
      | Inr rv \<Rightarrow> rv)"

definition totp_GenerateCode ::
  "hmac_fun \<Rightarrow> (string \<Rightarrow> string) \<Rightarrow> string \<Rightarrow> int \<Rightarrow> gerror + string" where
  "totp_GenerateCode hmac uni secret t = totp_GenerateCodeCustom hmac uni secret t default_totp_opts"

section \<open>Codes have the configured number of digits\<close>

lemma length_show_nat: "n < 10 ^ d \<Longrightarrow> d \<noteq> 0 \<Longrightarrow> length (show_nat n) \<le> d"
proof (induction n arbitrary: d rule: show_nat.induct)
  case (1 n)
  show ?case
  proof (cases "n < 10")
    case True
    then show ?thesis using 1(3) by (subst show_nat.simps) simp
  next
    case False
    then obtain e where d: "d = Suc e" "e \<noteq> 0" using 1(2,3) by (cases d; cases "d - 1") auto
    then have "n div 10 < 10 ^ e" using 1(2) by (simp add: less_mult_imp_div_less mult.commute)
    then have "length (show_nat (n div 10)) \<le> e" using 1(1) [OF False _ d(2)] by simp
    then show ?thesis using False d by (subst show_nat.simps) simp
  qed
qed

lemma Format_length: "n < 10 ^ d \<Longrightarrow> d \<noteq> 0 \<Longrightarrow> length (Format d n) = d"
  using length_show_nat [of n d] by (simp add: Format_def)

lemma digit_char_plain: "d < 10 \<Longrightarrow> (of_char (digit_char d) :: nat) = 48 + d"
  by (simp add: digit_char_def)

lemma Format_digits: "c \<in> set (Format d n) \<Longrightarrow> 48 \<le> (of_char c :: nat) \<and> (of_char c :: nat) \<le> 57"
  using set_show_nat digit_char_plain by (fastforce simp: Format_def split: if_splits)

lemma digits_tight:
  assumes "\<forall>c \<in> set s. 48 \<le> (of_char c :: nat) \<and> (of_char c :: nat) \<le> 57"
  shows "tight s"
proof -
  have p: "(of_char c :: nat) < 128 \<and> \<not> ascii_space c" if "c \<in> set s" for c
    using assms that by (force simp: ascii_space_def)
  show ?thesis using p [OF hd_in_set] p [OF last_in_set] by (auto simp: tight_def)
qed

lemma truncate_total:
  assumes "length h = 20"
  obtains v where "truncate h = Inr v"
proof -
  have "unat (last h AND 0xF) < 16"
    using word_and_le1 [of "last h" "0xF"] by (simp add: word_le_nat_alt)
  moreover have "h \<noteq> []" using assms by auto
  ultimately show ?thesis using assms that by (simp add: truncate_def Let_def)
qed

text \<open>With the digest of SHA-1, generation fails only for a secret that is not base-32.\<close>

lemma generate_total:
  assumes "\<And>k m. length (hmac AlgorithmSHA1 k m) = 20"
    and "h_Algorithm opts = AlgorithmSHA1" and "h_Digits opts \<noteq> 0"
  shows "hotp_GenerateCodeCustom hmac uni secret c opts = Inl ErrValidateSecretInvalidBase32
           \<and> b32_decode (ToUpper uni (pad_secret (TrimSpace secret))) = None
         \<or> (\<exists>code. hotp_GenerateCodeCustom hmac uni secret c opts = Inr code
           \<and> b32_decode (ToUpper uni (pad_secret (TrimSpace secret))) \<noteq> None)"
proof (cases "b32_decode (ToUpper uni (pad_secret (TrimSpace secret)))")
  case None
  then show ?thesis using assms(3) by (simp add: hotp_GenerateCodeCustom_def Let_def)
next
  case (Some k)
  obtain v where "truncate (hmac AlgorithmSHA1 k (put_u64 c)) = Inr v"
    using truncate_total [OF assms(1)] .
  then show ?thesis using assms(2,3) Some by (simp add: hotp_GenerateCodeCustom_def Let_def)
qed

lemma generate_digits:
  assumes "hotp_GenerateCodeCustom hmac uni secret c opts = Inr code"
    and "h_Digits opts \<noteq> 0" and "h_Encoder opts = EncoderDefault"
  shows "length code = h_Digits opts"
    and "\<forall>x \<in> set code. 48 \<le> (of_char x :: nat) \<and> (of_char x :: nat) \<le> 57"
proof -
  obtain v where c: "code = Format (h_Digits opts) (nat (v mod 10 ^ h_Digits opts))"
    using assms by (auto simp: hotp_GenerateCodeCustom_def Let_def split: option.splits sum.splits)
  have "nat (v mod 10 ^ h_Digits opts) < 10 ^ h_Digits opts"
    by (simp add: nat_less_iff)
  then show "length code = h_Digits opts" unfolding c by (rule Format_length [OF _ assms(2)])
  show "\<forall>x \<in> set code. 48 \<le> (of_char x :: nat) \<and> (of_char x :: nat) \<le> 57"
    unfolding c using Format_digits by blast
qed

lemma validate_counters_iff:
  assumes g: "\<And>c. hotp_GenerateCodeCustom hmac uni secret c opts = Inr (g c)"
    and len: "length (TrimSpace passcode) = h_Digits opts"
  shows "validate_counters hmac uni passcode secret opts cs = Inr (\<exists>c \<in> set cs. g c = TrimSpace passcode)"
  by (induction cs) (auto simp: hotp_ValidateCustom_def g len)

lemma validate_counters_length:
  "length (TrimSpace passcode) \<noteq> h_Digits opts \<Longrightarrow>
   validate_counters hmac uni passcode secret opts cs \<noteq> Inr True"
  by (cases cs) (auto simp: hotp_ValidateCustom_def)

lemma validate_counters_invalid:
  "(\<And>c. \<exists>e. hotp_GenerateCodeCustom hmac uni secret c opts = Inl e) \<Longrightarrow>
   validate_counters hmac uni passcode secret opts cs \<noteq> Inr True"
proof (cases cs)
  case (Cons c cs')
  assume "\<And>c. \<exists>e. hotp_GenerateCodeCustom hmac uni secret c opts = Inl e"
  then obtain e where "hotp_GenerateCodeCustom hmac uni secret c opts = Inl e" by blast
  then show ?thesis by (simp add: Cons hotp_ValidateCustom_def Let_def)
qed simp

lemma default_counters: "set (totp_counters n 1) = {of_int n, of_int (n + 1), of_int (n - 1)}"
  by (auto simp: totp_counters_def)

lemma period_neighbours:
  "{of_int n, of_int (n + 1), of_int (n - 1)} = {of_int (t div 30) :: 64 word | t. \<bar>t div 30 - n\<bar> \<le> 1}"
proof -
  have "{m. \<bar>m - n\<bar> \<le> 1} = {n, n + 1, n - 1}" by auto
  moreover have "{of_int (t div 30) :: 64 word | t. \<bar>t div 30 - n\<bar> \<le> 1} = of_int ` {m. \<bar>m - n\<bar> \<le> 1}"
  proof (intro subset_antisym subsetI)
    fix x :: "64 word"
    assume "x \<in> of_int ` {m. \<bar>m - n\<bar> \<le> 1}"
    then obtain m where "x = of_int m" "\<bar>m - n\<bar> \<le> 1" by blast
    then show "x \<in> {of_int (t div 30) | t. \<bar>t div 30 - n\<bar> \<le> 1}"
      by (intro CollectI exI [of _ "30 * m"]) simp
  qed auto
  ultimately show ?thesis by simp
qed

lemma totp_window:
  assumes sha1: "\<And>k m. length (hmac AlgorithmSHA1 k m) = 20"
  shows "totp_Validate hmac uni now passcode secret \<longleftrightarrow>
    (\<exists>t. \<bar>t div 30 - now div 30\<bar> \<le> 1 \<and> totp_GenerateCode hmac uni secret t = Inr (TrimSpace passcode))"
    (is "?V \<longleftrightarrow> ?G")
proof -
  let ?o = "totp_hotp_opts default_totp_opts"
  let ?gen = "\<lambda>c. hotp_GenerateCodeCustom hmac uni secret c ?o"
  have o: "h_Algorithm ?o = AlgorithmSHA1" "h_Digits ?o \<noteq> 0" "h_Encoder ?o = EncoderDefault"
    by (simp_all add: totp_hotp_opts_def default_totp_opts_def DigitsSix_def)
  have V: "?V \<longleftrightarrow> validate_counters hmac uni passcode secret ?o (totp_counters (now div 30) 1) = Inr True"
    by (auto simp: totp_Validate_def totp_ValidateCustom_def default_period_def default_totp_opts_def
        split: sum.splits)
  have G: "?G \<longleftrightarrow> (\<exists>c \<in> set (totp_counters (now div 30) 1). ?gen c = Inr (TrimSpace passcode))"
    unfolding default_counters period_neighbours
    by (auto simp: totp_GenerateCode_def totp_GenerateCodeCustom_def default_period_def default_totp_opts_def)
  have gt: "?gen c = Inl ErrValidateSecretInvalidBase32
        \<and> b32_decode (ToUpper uni (pad_secret (TrimSpace secret))) = None
      \<or> (\<exists>code. ?gen c = Inr code \<and> b32_decode (ToUpper uni (pad_secret (TrimSpace secret))) \<noteq> None)" for c
    by (rule generate_total [of hmac]) (rule sha1 o)+
  show ?thesis
  proof (cases "b32_decode (ToUpper uni (pad_secret (TrimSpace secret)))")
    case None
    then have inv: "?gen c = Inl ErrValidateSecretInvalidBase32" for c
      using gt [of c] by auto
    have "\<not> ?V" unfolding V by (rule validate_counters_invalid) (simp add: inv)
    then show ?thesis unfolding G by (simp add: inv)
  next
    case (Some k)
    then have "\<forall>c. \<exists>code. ?gen c = Inr code"
      using gt by auto
    then obtain g where g: "\<And>c. ?gen c = Inr (g c)" by metis
    show ?thesis
    proof (cases "length (TrimSpace passcode) = h_Digits ?o")
      case True
      from validate_counters_iff [OF g True] show ?thesis unfolding V G g by simp
    next
      case False
      then have "g c \<noteq> TrimSpace passcode" for c
        using generate_digits(1) [OF g o(2,3)] by metis
      moreover have "\<not> ?V" unfolding V by (rule validate_counters_length [OF False])
      ultimately show ?thesis unfolding G g by simp
    qed
  qed
qed

text \<open>C22: a passcode is accepted exactly when, white space aside, it is the code of the current
  thirty-second period, of the one before or of the one after.\<close>

theorem totp_accepts_exactly_window:
  assumes "\<And>k m. length (hmac AlgorithmSHA1 k m) = 20"
  shows "totp_Validate hmac uni now passcode secret \<longleftrightarrow>
    (\<exists>t. \<bar>t div 30 - now div 30\<bar> \<le> 1 \<and> totp_GenerateCode hmac uni secret t = Inr (TrimSpace passcode))"
  using assms by (rule totp_window)

definition sample_hmac :: hmac_fun where
  "sample_hmac a k m = take 20 (k @ m @ replicate 20 0)"

lemma sample_code: "totp_GenerateCode sample_hmac id ''AAAAAKQ'' 999985 = Inr (TrimSpace '' 000042 '')"
  by code_simp

theorem totp_accepts_exactly_window_witness:
  "totp_Validate sample_hmac id 1000000 '' 000042 '' ''AAAAAKQ''"
proof -
  have "length (sample_hmac AlgorithmSHA1 k m) = 20" for k m by (simp add: sample_hmac_def)
  moreover have "\<bar>999985 div 30 - 1000000 div 30\<bar> \<le> (1 :: int)" by simp
  ultimately show ?thesis using totp_accepts_exactly_window sample_code by blast
qed

lemma sample_valid: "totp_Validate sample_hmac id 1000000 ''000042'' ''AAAAAKQ''"
proof -
  have "length (sample_hmac AlgorithmSHA1 k m) = 20" for k m by (simp add: sample_hmac_def)
  moreover have "TrimSpace ''000042'' = TrimSpace '' 000042 ''" by code_simp
  moreover have "\<bar>999985 div 30 - 1000000 div 30\<bar> \<le> (1 :: int)" by simp
  ultimately show ?thesis using totp_window sample_code by metis
qed

end
