(* ===== verification/Auth.thy ===== *)
theory Auth
  imports Net_Conn Otp
begin

text \<open>
  The second factor of \<^verbatim>\<open>auth.go\<close>: after the TLS handshake the server either waves the
  client through or asks for a TOTP code.  The messages are records with the JSON form
  that their struct tags give them, each interpreted as a \<open>message_codec\<close>.  The lemmas
  show that the server succeeds only after a valid code, that both ends agree on the
  outcome, and that a client never takes a refusal for a success.
\<close>

section \<open>Messages\<close>

record AuthChallenge =
  ac_Type :: string
  ac_Methods :: "string list"

record AuthResponse =
  ar_Type :: string
  ar_TOTP :: string

record AuthResult =
  res_Status :: string
  res_Message :: string

definition omitempty_str :: "string \<Rightarrow> string \<Rightarrow> (string \<times> json) list" where
  "omitempty_str k s = (if s = [] then [] else [(k, JStr s)])"

definition challenge_json :: "AuthChallenge \<Rightarrow> json" where
  "challenge_json v =
     JObj ((''type'', JStr (ac_Type v)) #
           (if ac_Methods v = [] then [] else [(''methods'', JArr (map JStr (ac_Methods v)))]))"

definition response_json :: "AuthResponse \<Rightarrow> json" where
  "response_json v = JObj ((''type'', JStr (ar_Type v)) # omitempty_str ''totp'' (ar_TOTP v))"

definition result_json :: "AuthResult \<Rightarrow> json" where
  "result_json v = JObj ((''status'', JStr (res_Status v)) # omitempty_str ''message'' (res_Message v))"

definition challenge_marshal :: "AuthChallenge \<Rightarrow> string" where
  "challenge_marshal v = json_print (challenge_json v)"

definition response_marshal :: "AuthResponse \<Rightarrow> string" where
  "response_marshal v = json_print (response_json v)"

definition result_marshal :: "AuthResult \<Rightarrow> string" where
  "result_marshal v = json_print (result_json v)"

definition challenge_unmarshal :: "string \<Rightarrow> gerror + AuthChallenge" where
  "challenge_unmarshal =
     unmarshal_struct [(''type'', str_field (\<lambda>s r. r \<lparr>ac_Type := s\<rparr>)),
                       (''methods'', strs_field (\<lambda>s r. r \<lparr>ac_Methods := s\<rparr>))]
       \<lparr>ac_Type = [], ac_Methods = []\<rparr>"

definition response_unmarshal :: "string \<Rightarrow> gerror + AuthResponse" where
  "response_unmarshal =
     unmarshal_struct [(''type'', str_field (\<lambda>s r. r \<lparr>ar_Type := s\<rparr>)),
                       (''totp'', str_field (\<lambda>s r. r \<lparr>ar_TOTP := s\<rparr>))]
       \<lparr>ar_Type = [], ar_TOTP = []\<rparr>"

definition result_unmarshal :: "string \<Rightarrow> gerror + AuthResult" where
  "result_unmarshal =
     unmarshal_struct [(''status'', str_field (\<lambda>s r. r \<lparr>res_Status := s\<rparr>)),
                       (''message'', str_field (\<lambda>s r. r \<lparr>res_Message := s\<rparr>))]
       \<lparr>res_Status = [], res_Message = []\<rparr>"

section \<open>Sending and receiving\<close>

text \<open>The \<^verbatim>\<open>interface{}\<close> argument selects the JSON functions of its type; marshalling these
  structs cannot fail.\<close>

definition sendAuthMessage :: "('v \<Rightarrow> string) \<Rightarrow> 'v \<Rightarrow> conn \<Rightarrow> gerror option \<times> conn" where
  "sendAuthMessage marshal v c = write_message (marshal v) c"

definition readAuthMessage :: "(string \<Rightarrow> gerror + 'v) \<Rightarrow> conn \<Rightarrow> (gerror + 'v) \<times> conn" where
  "readAuthMessage unmarshal c =
     (case read_message (\<lambda>l. Errorf (''auth message too large: '' @ show_nat l @ '' bytes'')) c of
        (Inl e, c1) \<Rightarrow> (Inl e, c1)
      | (Inr b, c1) \<Rightarrow> (unmarshal b, c1))"

section \<open>The two roles\<close>

definition performServerAuth ::
  "hmac_fun \<Rightarrow> (string \<Rightarrow> string) \<Rightarrow> int \<Rightarrow> string \<Rightarrow> conn \<Rightarrow> gerror option \<times> conn" where
  "performServerAuth hmac uni now totpSecret c =
     (if totpSecret = [] then
        sendAuthMessage challenge_marshal \<lparr>ac_Type = ''auth_ok'', ac_Methods = []\<rparr> c
      else
        (case sendAuthMessage challenge_marshal
                \<lparr>ac_Type = ''auth_required'', ac_Methods = [''totp'']\<rparr> c of
           (Some e, c1) \<Rightarrow> (Some e, c1)
         | (None, c1) \<Rightarrow>
             (case readAuthMessage response_unmarshal c1 of
                (Inl e, c2) \<Rightarrow> (Some e, c2)
              | (Inr resp, c2) \<Rightarrow>
                  if ar_Type resp \<noteq> ''auth'' then
                    (let msg = ''expected auth message, got '' @ ar_Type resp
                     in (Some (Errorf msg),
                         snd (sendAuthMessage result_marshal
                                \<lparr>res_Status = ''error'', res_Message = msg\<rparr> c2)))
                  else if \<not> totp_Validate hmac uni now (ar_TOTP resp) totpSecret then
                    (Some (Errorf ''invalid TOTP passcode received''),
                     snd (sendAuthMessage result_marshal
                            \<lparr>res_Status = ''error'', res_Message = ''invalid TOTP passcode''\<rparr> c2))
                  else sendAuthMessage result_marshal \<lparr>res_Status = ''ok'', res_Message = []\<rparr> c2)))"

text \<open>Standard input of the client: whether it is a terminal, and the line a read returns.\<close>

record stdin_state =
  is_terminal :: bool
  read_line :: "gerror + string"

definition show_strs :: "string list \<Rightarrow> string" where
  "show_strs ss = ''['' @ Join ss '' '' @ '']''"

definition client_code :: "stdin_state \<Rightarrow> string \<Rightarrow> gerror + string" where
  "client_code stdin totpPasscode =
     (let code = TrimSpace totpPasscode
      in if code \<noteq> [] then Inr code
         else if \<not> is_terminal stdin then
           Inl (Errorf (''server requires TOTP authentication, but --totp was not provided '' @
                        ''and stdin is not interactive''))
         else case read_line stdin of
                Inl e \<Rightarrow> Inl (wrap_err ''failed to read TOTP passcode from stdin'' e)
              | Inr line \<Rightarrow> Inr (TrimSpace line))"

definition performClientAuth :: "stdin_state \<Rightarrow> string \<Rightarrow> conn \<Rightarrow> gerror option \<times> conn" where
  "performClientAuth stdin totpPasscode c =
     (case readAuthMessage challenge_unmarshal c of
        (Inl e, c1) \<Rightarrow> (Some (wrap_err ''failed to read auth challenge from server'' e), c1)
      | (Inr challenge, c1) \<Rightarrow>
          if ac_Type challenge = ''auth_ok'' then (None, c1)
          else if ac_Type challenge \<noteq> ''auth_required'' then
            (Some (Errorf (''unexpected challenge type from server: '' @ ac_Type challenge)), c1)
          else if ''totp'' \<notin> set (ac_Methods challenge) then
            (Some (Errorf (''server required unknown authentication methods: '' @
                           show_strs (ac_Methods challenge))), c1)
          else
            (case client_code stdin totpPasscode of
               Inl e \<Rightarrow> (Some e, c1)
             | Inr code \<Rightarrow>
                 (case sendAuthMessage response_marshal \<lparr>ar_Type = ''auth'', ar_TOTP = code\<rparr> c1 of
                    (Some e, c2) \<Rightarrow> (Some (wrap_err ''failed to send auth response'' e), c2)
                  | (None, c2) \<Rightarrow>
                      (case readAuthMessage result_unmarshal c2 of
                         (Inl e, c3) \<Rightarrow> (Some (wrap_err ''failed to read auth result from server'' e), c3)
                       | (Inr res, c3) \<Rightarrow>
                           if res_Status res \<noteq> ''ok'' then
                             (Some (Errorf (''authentication failed: '' @ res_Message res)), c3)
                           else (None, c3)))))"

section \<open>The message types keep the codec contract\<close>

declare omitempty_str_def [json_fields]

lemma ascii_keys [json_fields]:
  "valid_utf8 ''type''" "valid_utf8 ''methods''" "valid_utf8 ''totp''" "valid_utf8 ''status''"
  "valid_utf8 ''message''"
  by (simp_all add: valid_utf8_ascii is_ascii_def)

definition challenge_wf :: "AuthChallenge \<Rightarrow> bool" where
  "challenge_wf v \<longleftrightarrow> valid_utf8 (ac_Type v) \<and> list_all valid_utf8 (ac_Methods v)"

definition response_wf :: "AuthResponse \<Rightarrow> bool" where
  "response_wf v \<longleftrightarrow> valid_utf8 (ar_Type v) \<and> valid_utf8 (ar_TOTP v)"

definition result_wf :: "AuthResult \<Rightarrow> bool" where
  "result_wf v \<longleftrightarrow> valid_utf8 (res_Status v) \<and> valid_utf8 (res_Message v)"

context message_codec
begin

lemma readAuthMessage_frame:
  assumes "wf m" and "length (marshal m) \<le> max_message" and "rx c = frame (marshal m) @ rest"
  shows "readAuthMessage unmarshal c = (Inr m, c \<lparr>rx := rest\<rparr>)"
  by (rule received [OF assms, of "\<lambda>l. Errorf (''auth message too large: '' @ show_nat l @ '' bytes'')"])
     (simp add: readAuthMessage_def)

end

lemma readAuthMessage_cut:
  assumes "length b \<le> max_message" and "rx c = take k (frame b)" and "k < length (frame b)"
  obtains e c' where "readAuthMessage unmarshal c = (Inl e, c')"
  by (rule read_message_cut [OF assms, of "\<lambda>l. Errorf (''auth message too large: '' @ show_nat l @ '' bytes'')"])
     (simp add: readAuthMessage_def that)

interpretation challenge: message_codec challenge_marshal challenge_unmarshal challenge_wf
proof unfold_locales
  fix m :: AuthChallenge
  assume "challenge_wf m"
  then show "challenge_unmarshal (challenge_marshal m) = Inr m"
    unfolding challenge_marshal_def challenge_unmarshal_def challenge_json_def
    by (intro unmarshal_struct_print depth_small)
       (auto simp: challenge_wf_def list_all_iff json_depth_strs json_fields simp del: json_depth.simps(1))
qed

interpretation response: message_codec response_marshal response_unmarshal response_wf
proof unfold_locales
  fix m :: AuthResponse
  assume "response_wf m"
  then show "response_unmarshal (response_marshal m) = Inr m"
    unfolding response_marshal_def response_unmarshal_def response_json_def
    by (intro unmarshal_struct_print depth_small)
       (auto simp: response_wf_def json_fields)
qed

interpretation result: message_codec result_marshal result_unmarshal result_wf
proof unfold_locales
  fix m :: AuthResult
  assume "result_wf m"
  then show "result_unmarshal (result_marshal m) = Inr m"
    unfolding result_marshal_def result_unmarshal_def result_json_def
    by (intro unmarshal_struct_print depth_small)
       (auto simp: result_wf_def json_fields)
qed

section \<open>The messages that are sent\<close>

abbreviation auth_required :: AuthChallenge where
  "auth_required \<equiv> \<lparr>ac_Type = ''auth_required'', ac_Methods = [''totp'']\<rparr>"

abbreviation auth_ok :: AuthChallenge where
  "auth_ok \<equiv> \<lparr>ac_Type = ''auth_ok'', ac_Methods = []\<rparr>"

abbreviation auth_answer :: "string \<Rightarrow> AuthResponse" where
  "auth_answer code \<equiv> \<lparr>ar_Type = ''auth'', ar_TOTP = code\<rparr>"

abbreviation result_ok :: AuthResult where
  "result_ok \<equiv> \<lparr>res_Status = ''ok'', res_Message = []\<rparr>"

abbreviation result_error :: "string \<Rightarrow> AuthResult" where
  "result_error msg \<equiv> \<lparr>res_Status = ''error'', res_Message = msg\<rparr>"

lemma short_enough: "l \<le> 1000 \<Longrightarrow> l \<le> max_message"
  unfolding max_message_def by linarith

lemma fixed_messages_short:
  "length (challenge_marshal auth_required) \<le> max_message"
  "length (challenge_marshal auth_ok) \<le> max_message"
  "length (result_marshal result_ok) \<le> max_message"
  "length (result_marshal (result_error ''invalid TOTP passcode'')) \<le> max_message"
proof -
  have 1: "length (challenge_marshal auth_required) \<le> 1000"
    unfolding challenge_marshal_def result_marshal_def challenge_json_def result_json_def omitempty_str_def
    by (rule order_trans [OF length_json_print], simp)
  have 2: "length (challenge_marshal auth_ok) \<le> 1000"
    unfolding challenge_marshal_def result_marshal_def challenge_json_def result_json_def omitempty_str_def
    by (rule order_trans [OF length_json_print], simp)
  have 3: "length (result_marshal result_ok) \<le> 1000"
    unfolding challenge_marshal_def result_marshal_def challenge_json_def result_json_def omitempty_str_def
    by (rule order_trans [OF length_json_print], simp)
  have 4: "length (result_marshal (result_error ''invalid TOTP passcode'')) \<le> 1000"
    unfolding challenge_marshal_def result_marshal_def challenge_json_def result_json_def omitempty_str_def
    by (rule order_trans [OF length_json_print], simp)
  show "length (challenge_marshal auth_required) \<le> max_message"
    "length (challenge_marshal auth_ok) \<le> max_message"
    "length (result_marshal result_ok) \<le> max_message"
    "length (result_marshal (result_error ''invalid TOTP passcode'')) \<le> max_message"
    by (fact short_enough [OF 1] short_enough [OF 2] short_enough [OF 3] short_enough [OF 4])+
qed

lemma fixed_messages_wf:
  "challenge_wf auth_required" "challenge_wf auth_ok" "result_wf result_ok"
  "result_wf (result_error ''invalid TOTP passcode'')"
  by (simp_all add: challenge_wf_def result_wf_def valid_utf8_ascii is_ascii_def)

lemmas fixed_frames =
  challenge.readAuthMessage_frame [OF fixed_messages_wf(1) fixed_messages_short(1)]
  challenge.readAuthMessage_frame [OF fixed_messages_wf(2) fixed_messages_short(2)]
  result.readAuthMessage_frame [OF fixed_messages_wf(3) fixed_messages_short(3)]
  result.readAuthMessage_frame [OF fixed_messages_wf(4) fixed_messages_short(4)]

lemma readAuthMessage_Inr:
  assumes "readAuthMessage unmarshal c = (Inr v, c')"
  obtains b where "rx c = frame b @ rx c'" "unmarshal b = Inr v" "c' = c \<lparr>rx := rx c'\<rparr>"
proof -
  let ?r = "read_message (\<lambda>l. Errorf (''auth message too large: '' @ show_nat l @ '' bytes'')) c"
  obtain b where b: "?r = (Inr b, c')" "unmarshal b = Inr v"
    using assms by (auto simp: readAuthMessage_def split: prod.splits sum.splits)
  show ?thesis by (rule that [OF read_message_Inr(2) [OF b(1)] b(2) read_message_Inr(3) [OF b(1)]])
qed

text \<open>What each end puts on the wire in an exchange that reaches the server's verdict.\<close>

definition client_bytes :: "string \<Rightarrow> bytes" where
  "client_bytes code = frame (response_marshal (auth_answer code))"

definition server_bytes :: "bool \<Rightarrow> bytes" where
  "server_bytes valid = frame (challenge_marshal auth_required) @
     frame (result_marshal (if valid then result_ok else result_error ''invalid TOTP passcode''))"

section \<open>Properties of the exchange\<close>

lemma server_auth_accepts:
  assumes "performServerAuth hmac uni now totpSecret c = (None, c')" and "totpSecret \<noteq> []"
  shows "\<exists>b resp. rx c = frame b @ rx c' \<and> response_unmarshal b = Inr resp \<and> ar_Type resp = ''auth''
           \<and> totp_Validate hmac uni now (ar_TOTP resp) totpSecret"
proof -
  obtain c1 resp c2 where s: "sendAuthMessage challenge_marshal auth_required c = (None, c1)"
      "readAuthMessage response_unmarshal c1 = (Inr resp, c2)" "ar_Type resp = ''auth''"
      "totp_Validate hmac uni now (ar_TOTP resp) totpSecret"
      "sendAuthMessage result_marshal result_ok c2 = (None, c')"
    using assms by (auto simp: performServerAuth_def Let_def split: prod.splits option.splits sum.splits if_splits)
  have "rx c1 = rx c" using write_message_rx s(1) by (auto simp: sendAuthMessage_def)
  moreover have "rx c' = rx c2" using write_message_rx s(5) by (auto simp: sendAuthMessage_def)
  ultimately show ?thesis using readAuthMessage_Inr [OF s(2)] s(3,4) by metis
qed

text \<open>C4: a server that demands a code reports success only if the first message it received
  is an authentication message whose code is valid at that moment.\<close>

theorem server_auth_sound:
  assumes "performServerAuth hmac uni now totpSecret c = (None, c')" and "totpSecret \<noteq> []"
  shows "\<exists>b resp. rx c = frame b @ rx c' \<and> response_unmarshal b = Inr resp \<and> ar_Type resp = ''auth''
           \<and> totp_Validate hmac uni now (ar_TOTP resp) totpSecret"
  using assms by (rule server_auth_accepts)

lemma auth_exchange:
  assumes code: "code = TrimSpace passcode" "code \<noteq> []" "valid_utf8 code"
      "length (response_marshal (auth_answer code)) \<le> max_message"
    and valid: "valid \<longleftrightarrow> totp_Validate hmac uni now code secret" and secret: "secret \<noteq> []"
  shows "performServerAuth hmac uni now secret (conn_of (client_bytes code @ up)) =
           (if valid then None else Some (Errorf ''invalid TOTP passcode received''),
            (conn_of up) \<lparr>tx := server_bytes valid\<rparr>)
       \<and> performClientAuth stdin passcode (conn_of (server_bytes valid @ down)) =
           (if valid then None else Some (Errorf ''authentication failed: invalid TOTP passcode''),
            (conn_of down) \<lparr>tx := client_bytes code\<rparr>)"
proof
  have wf: "response_wf (auth_answer code)"
    using code(3) by (simp add: response_wf_def valid_utf8_ascii is_ascii_def)
  have "readAuthMessage response_unmarshal ((conn_of (client_bytes code @ up)) \<lparr>tx := t\<rparr>)
      = (Inr (auth_answer code), (conn_of up) \<lparr>tx := t\<rparr>)" for t
    using response.readAuthMessage_frame [OF wf code(4), of _ up] by (simp add: client_bytes_def)
  then show "performServerAuth hmac uni now secret (conn_of (client_bytes code @ up)) =
      (if valid then None else Some (Errorf ''invalid TOTP passcode received''),
       (conn_of up) \<lparr>tx := server_bytes valid\<rparr>)"
    using secret valid by (simp add: performServerAuth_def sendAuthMessage_def write_message_ok server_bytes_def)
  have cc: "client_code stdin passcode = Inr code"
    using code(1,2) by (simp add: client_code_def)
  have 1: "readAuthMessage challenge_unmarshal (conn_of (server_bytes valid @ down)) =
      (Inr auth_required, conn_of (frame (result_marshal
         (if valid then result_ok else result_error ''invalid TOTP passcode'')) @ down))"
    by (subst fixed_frames(1)) (simp_all add: server_bytes_def)
  have 2: "readAuthMessage result_unmarshal ((conn_of (frame (result_marshal
         (if valid then result_ok else result_error ''invalid TOTP passcode'')) @ down)) \<lparr>tx := t\<rparr>) =
      (Inr (if valid then result_ok else result_error ''invalid TOTP passcode''), (conn_of down) \<lparr>tx := t\<rparr>)" for t
    by (cases valid; subst fixed_frames(3,4) [where rest = down]) simp_all
  show "performClientAuth stdin passcode (conn_of (server_bytes valid @ down)) =
      (if valid then None else Some (Errorf ''authentication failed: invalid TOTP passcode''),
       (conn_of down) \<lparr>tx := client_bytes code\<rparr>)"
    using 2 by (simp add: performClientAuth_def 1 cc sendAuthMessage_def write_message_ok client_bytes_def)
qed

lemma auth_not_required:
  "performServerAuth hmac uni now [] (conn_of up) = (None, (conn_of up) \<lparr>tx := frame (challenge_marshal auth_ok)\<rparr>)"
  "performClientAuth stdin passcode (conn_of (frame (challenge_marshal auth_ok) @ down)) = (None, conn_of down)"
  by (simp_all add: performServerAuth_def performClientAuth_def sendAuthMessage_def write_message_ok fixed_frames(2))

lemma send_prefix:
  assumes "sendAuthMessage marshal v c = (r, c')"
  obtains k where "tx c' = tx c @ take k (frame (marshal v))" "r = None \<longleftrightarrow> length (frame (marshal v)) \<le> k"
  using write_message_prefix [OF assms [unfolded sendAuthMessage_def]] .

lemma send_rx: "sendAuthMessage marshal v c = (r, c') \<Longrightarrow> rx c' = rx c"
  using write_message_rx by (simp add: sendAuthMessage_def)

text \<open>A client whose input is cut before the verdict, or whose verdict is an error, fails.\<close>

lemma client_fails_in_challenge:
  assumes "rx d = take k (frame b)" and "k < length (frame b)" and "length b \<le> max_message"
  shows "fst (performClientAuth stdin passcode d) \<noteq> None"
proof -
  obtain e d' where "readAuthMessage challenge_unmarshal d = (Inl e, d')"
    by (rule readAuthMessage_cut [OF assms(3,1,2)])
  then show ?thesis by (simp add: performClientAuth_def)
qed

lemma client_fails_after_challenge:
  assumes d: "rx d = frame (challenge_marshal auth_required) @ take k (frame (result_marshal v))"
    and v: "result_wf v" "length (result_marshal v) \<le> max_message"
    and bad: "k < length (frame (result_marshal v)) \<or> res_Status v \<noteq> ''ok''"
  shows "fst (performClientAuth stdin passcode d) \<noteq> None"
proof -
  let ?d1 = "d \<lparr>rx := take k (frame (result_marshal v))\<rparr>"
  have 1: "readAuthMessage challenge_unmarshal d = (Inr auth_required, ?d1)"
    by (rule fixed_frames(1) [OF d])
  have verdict: "(\<exists>e d3. readAuthMessage result_unmarshal d2 = (Inl e, d3)) \<or>
      (\<exists>d3. readAuthMessage result_unmarshal d2 = (Inr v, d3) \<and> res_Status v \<noteq> ''ok'')"
    if d2: "rx d2 = take k (frame (result_marshal v))" for d2
  proof (cases "k < length (frame (result_marshal v))")
    case True
    obtain e d3 where "readAuthMessage result_unmarshal d2 = (Inl e, d3)"
      by (rule readAuthMessage_cut [OF v(2) d2 True])
    then show ?thesis by blast
  next
    case False
    then have "rx d2 = frame (result_marshal v) @ []" using d2 by simp
    from result.readAuthMessage_frame [OF v this] show ?thesis using bad False by blast
  qed
  show ?thesis
  proof (cases "client_code stdin passcode")
    case (Inl e)
    then show ?thesis by (simp add: performClientAuth_def 1)
  next
    case (Inr code)
    obtain r d2 where s: "sendAuthMessage response_marshal (auth_answer code) ?d1 = (r, d2)" by fastforce
    have "rx d2 = take k (frame (result_marshal v))" using send_rx [OF s] by simp
    from verdict [OF this] show ?thesis
      using s by (cases r) (auto simp: performClientAuth_def 1 Inr)
  qed
qed

text \<open>What a server that demands a code has sent when it reports an error to its caller.\<close>

lemma refusing_server_sent:
  assumes "performServerAuth hmac uni now secret c = (Some e, c')" and "tx c = []" and "secret \<noteq> []"
    and rx: "rx c = take j (client_bytes code)" and code: "valid_utf8 code"
      "length (response_marshal (auth_answer code)) \<le> max_message"
  obtains (challenge) k where "tx c' = take k (frame (challenge_marshal auth_required))"
  | (result) k v where "tx c' = frame (challenge_marshal auth_required) @ take k (frame (result_marshal v))"
      "v = result_ok \<and> k < length (frame (result_marshal v)) \<or> v = result_error ''invalid TOTP passcode''"
proof -
  obtain r1 c1 where s1: "sendAuthMessage challenge_marshal auth_required c = (r1, c1)" by fastforce
  obtain k where k: "tx c1 = take k (frame (challenge_marshal auth_required))"
      "r1 = None \<longleftrightarrow> length (frame (challenge_marshal auth_required)) \<le> k"
    using send_prefix [OF s1] assms(2) by auto
  have rx1: "rx c1 = rx c" by (rule send_rx [OF s1])
  show ?thesis
  proof (cases r1)
    case (Some e1)
    then show ?thesis using assms(1,3) s1 k(1) challenge by (simp add: performServerAuth_def)
  next
    case None
    then have tx1: "tx c1 = frame (challenge_marshal auth_required)" using k by simp
    obtain m c2 where m: "readAuthMessage response_unmarshal c1 = (m, c2)" by fastforce
    show ?thesis
    proof (cases m)
      case (Inl e2)
      have "tx c2 = tx c1" using m
        by (auto simp: readAuthMessage_def read_message_def read_full_def Let_def split: if_splits)
      then show ?thesis using assms(1,3) s1 None m Inl tx1 challenge
          [of "length (frame (challenge_marshal auth_required))"] by (simp add: performServerAuth_def)
    next
      case (Inr resp)
      have wf: "response_wf (auth_answer code)"
        using code(1) by (simp add: response_wf_def valid_utf8_ascii is_ascii_def)
      have "\<not> j < length (client_bytes code)"
      proof
        assume "j < length (client_bytes code)"
        then obtain e' c'' where "readAuthMessage response_unmarshal c1 = (Inl e', c'')"
          using readAuthMessage_cut [OF code(2) rx [folded rx1, unfolded client_bytes_def]]
          by (metis client_bytes_def)
        then show False using m Inr by simp
      qed
      then have "rx c1 = frame (response_marshal (auth_answer code)) @ []"
        using rx rx1 by (simp add: client_bytes_def)
      from response.readAuthMessage_frame [OF wf code(2) this]
      have resp: "resp = auth_answer code" "tx c2 = tx c1" using m Inr by auto
      let ?v = "if totp_Validate hmac uni now code secret then result_ok
                else result_error ''invalid TOTP passcode''"
      obtain r3 c3 where s3: "sendAuthMessage result_marshal ?v c2 = (r3, c3)" by fastforce
      obtain i where i: "tx c3 = tx c2 @ take i (frame (result_marshal ?v))"
          "r3 = None \<longleftrightarrow> length (frame (result_marshal ?v)) \<le> i"
        using send_prefix [OF s3] by auto
      have "c' = c3" "totp_Validate hmac uni now code secret \<Longrightarrow> r3 = Some e"
        using assms(1,3) s1 None m Inr resp s3 by (auto simp: performServerAuth_def split: if_splits)
      then show ?thesis using i resp tx1 result [of i ?v] by (auto split: if_splits)
    qed
  qed
qed

text \<open>C9: a refusal is never taken for a success.  Whatever the transport cuts off in either
  direction, when the server of an honest client reports an error, a client that reads
  any part of what the server sent reports an error as well.\<close>

theorem refusal_never_looks_like_success:
  assumes "performServerAuth hmac uni now secret c = (Some e, c')" and "tx c = []" and "secret \<noteq> []"
    and "rx c = take j (client_bytes code)" and "valid_utf8 code"
    and "length (response_marshal (auth_answer code)) \<le> max_message"
    and "rx d = take i (tx c')"
  shows "fst (performClientAuth stdin passcode d) \<noteq> None"
proof -
  let ?ch = "frame (challenge_marshal auth_required)"
  have full: "fst (performClientAuth stdin passcode d) \<noteq> None" if "rx d = ?ch"
    using client_fails_after_challenge [of d 0 result_ok] that fixed_messages_wf(3) fixed_messages_short(3)
    by (simp add: frame_def)
  show ?thesis
  proof (rule refusing_server_sent [OF assms(1-6)], goal_cases)
    case (1 k)
    then show ?thesis
      using full client_fails_in_challenge [of d "min i k", OF _ _ fixed_messages_short(1)] assms(7)
      by (cases "min i k < length ?ch") auto
  next
    case (2 k v)
    have v: "result_wf v" "length (result_marshal v) \<le> max_message"
      using 2(2) fixed_messages_wf(3,4) fixed_messages_short(3,4) by auto
    show ?thesis
    proof (cases "i < length ?ch")
      case True
      then show ?thesis
        using client_fails_in_challenge [of d i, OF _ _ fixed_messages_short(1)] assms(7) 2(1) by simp
    next
      case False
      then have "rx d = ?ch @ take (min (i - length ?ch) k) (frame (result_marshal v))"
        using assms(7) 2(1) by simp
      then show ?thesis
        by (rule client_fails_after_challenge [OF _ v]) (use 2(2) in auto)
    qed
  qed
qed

text \<open>C8: with a working connection both ends agree.  The client sends its trimmed code, the
  server reports success exactly when the code is valid, and the client reports the same
  outcome, with the server's reason when it is refused.  Neither end reads any byte beyond
  the exchange: the data that follows in either direction is left in place.\<close>

theorem auth_outcome_agrees:
  assumes code: "code = TrimSpace passcode" "code \<noteq> []" "valid_utf8 code"
      "length (response_marshal (auth_answer code)) \<le> max_message"
    and valid: "valid \<longleftrightarrow> totp_Validate hmac uni now code secret" and secret: "secret \<noteq> []"
  shows "performServerAuth hmac uni now secret (conn_of (client_bytes code @ up)) =
           (if valid then None else Some (Errorf ''invalid TOTP passcode received''),
            (conn_of up) \<lparr>tx := server_bytes valid\<rparr>)
       \<and> performClientAuth stdin passcode (conn_of (server_bytes valid @ down)) =
           (if valid then None else Some (Errorf ''authentication failed: invalid TOTP passcode''),
            (conn_of down) \<lparr>tx := client_bytes code\<rparr>)"
  using assms by (rule auth_exchange)

lemma sample_message: "TrimSpace ''000042'' = ''000042''" "valid_utf8 ''000042''"
  "length (response_marshal (auth_answer ''000042'')) \<le> max_message"
proof -
  show "TrimSpace ''000042'' = ''000042''" by code_simp
  show "valid_utf8 ''000042''" by (simp add: valid_utf8_ascii is_ascii_def)
  have "length (response_marshal (auth_answer ''000042'')) \<le> 1000"
    unfolding response_marshal_def response_json_def omitempty_str_def
    by (rule order_trans [OF length_json_print], simp)
  then show "length (response_marshal (auth_answer ''000042'')) \<le> max_message" by (rule short_enough)
qed

lemma sample_exchange:
  "performServerAuth sample_hmac id 1000000 ''AAAAAKQ'' (conn_of (client_bytes ''000042'')) =
     (None, (conn_of []) \<lparr>tx := server_bytes True\<rparr>)"
  using auth_exchange [of "''000042''" "''000042''" True sample_hmac id 1000000 "''AAAAAKQ''" "[]"]
    sample_message sample_valid by simp

theorem server_auth_sound_witness:
  "\<exists>b resp. rx (conn_of (client_bytes ''000042'')) = frame b @ rx ((conn_of []) \<lparr>tx := server_bytes True\<rparr>)
     \<and> response_unmarshal b = Inr resp \<and> ar_Type resp = ''auth''
     \<and> totp_Validate sample_hmac id 1000000 (ar_TOTP resp) ''AAAAAKQ''"
  by (rule server_auth_sound [OF sample_exchange]) simp

theorem auth_outcome_agrees_witness:
  "performClientAuth \<lparr>is_terminal = False, read_line = Inl EOF\<rparr> ''000042'' (conn_of (server_bytes True)) =
     (None, (conn_of []) \<lparr>tx := client_bytes ''000042''\<rparr>)"
  using auth_outcome_agrees [of "''000042''" "''000042''" True sample_hmac id 1000000 "''AAAAAKQ''"
      "[]" "\<lparr>is_terminal = False, read_line = Inl EOF\<rparr>" "[]"]
    sample_message sample_valid by simp

lemma sample_cut:
  "performServerAuth sample_hmac id 1000000 ''AAAAAKQ'' (conn_of (take 3 (client_bytes ''000042''))) =
     (Some ErrUnexpectedEOF, (conn_of []) \<lparr>tx := frame (challenge_marshal auth_required)\<rparr>)"
proof -
  have "put_u32 w \<noteq> []" for w by (simp add: put_u32_def)
  then show ?thesis
    by (simp add: performServerAuth_def sendAuthMessage_def write_message_ok readAuthMessage_def
        read_message_def read_full_def client_bytes_def frame_def)
qed

theorem refusal_never_looks_like_success_witness:
  "fst (performClientAuth \<lparr>is_terminal = False, read_line = Inl EOF\<rparr> ''000042''
     (conn_of (take 1000 (frame (challenge_marshal auth_required))))) \<noteq> None"
  by (rule refusal_never_looks_like_success [OF sample_cut _ _ _ sample_message(2,3), where j = 3 and i = 1000])
     simp_all

end
