(* ===== verification/Device_Id.thy ===== *)
theory Device_Id
  imports Base32
begin

text \<open>
  Syncthing device IDs (\<^verbatim>\<open>lib/protocol/deviceid.go\<close> and \<^verbatim>\<open>luhn.go\<close>), the identities
  that both ends of a connection are checked against.  An ID is the SHA-256 of a
  certificate; people handle its text form, four groups of thirteen base-32 characters,
  each with a check character, printed in chunks of seven.  The lemmas show that the text
  form round-trips, that the parser always yields 32 bytes, and that a single mistyped
  character never passes the check characters.
\<close>

section \<open>Check characters\<close>

definition codepoint32 :: "char \<Rightarrow> int" where
  "codepoint32 b =
     (let n = (of_char b :: nat)
      in if 65 \<le> n \<and> n \<le> 90 then int (n - 65)
         else if 50 \<le> n \<and> n \<le> 55 then int (n + 26 - 50)
         else - 1)"

text \<open>The loop of \<^verbatim>\<open>luhn32\<close>: the factor alternates between 1 and 2.\<close>

fun luhn_sum :: "int \<Rightarrow> int \<Rightarrow> string \<Rightarrow> int option" where
  "luhn_sum factor acc [] = Some acc"
| "luhn_sum factor acc (c # s) =
     (let codepoint = codepoint32 c
      in if codepoint = - 1 then None
         else let addend = factor * codepoint
              in luhn_sum (if factor = 2 then 1 else 2) (acc + (addend div 32 + addend mod 32)) s)"

definition luhn32 :: "string \<Rightarrow> gerror + char" where
  "luhn32 s =
     (case luhn_sum 1 0 s of
        None \<Rightarrow> Inl (Errorf ''digit not valid in alphabet'')
      | Some acc \<Rightarrow>
          let remainder = acc mod 32; checkCodepoint = (32 - remainder) mod 32
          in Inr (b32_alphabet ! nat checkCodepoint))"

text \<open>\<^verbatim>\<open>luhnify\<close> appends a check character to each of the four groups; \<^verbatim>\<open>unluhnify\<close>
  verifies and drops them.\<close>

fun luhn_groups :: "nat \<Rightarrow> string \<Rightarrow> gerror + string" where
  "luhn_groups 0 s = Inr []"
| "luhn_groups (Suc n) s =
     (case luhn32 (take 13 s) of
        Inl e \<Rightarrow> Inl e
      | Inr l \<Rightarrow> (case luhn_groups n (drop 13 s) of
                    Inl e \<Rightarrow> Inl e
                  | Inr r \<Rightarrow> Inr (take 13 s @ l # r)))"

definition luhnify :: "string \<Rightarrow> gerror + string" where
  "luhnify s = (if length s \<noteq> 52 then Inl (Errorf ''panic: unsupported string length'')
                else luhn_groups 4 s)"

fun unluhn_groups :: "nat \<Rightarrow> string \<Rightarrow> gerror + string" where
  "unluhn_groups 0 s = Inr []"
| "unluhn_groups (Suc n) s =
     (case luhn32 (take 13 s) of
        Inl e \<Rightarrow> Inl e
      | Inr l \<Rightarrow>
          if s ! 13 \<noteq> l then Inl (Errorf ''check digit incorrect'')
          else (case unluhn_groups n (drop 14 s) of
                  Inl e \<Rightarrow> Inl e
                | Inr r \<Rightarrow> Inr (take 13 s @ r)))"

definition unluhnify :: "string \<Rightarrow> gerror + string" where
  "unluhnify s = (if length s \<noteq> 56 then Inl (Errorf ''unsupported string length'')
                  else unluhn_groups 4 s)"

section \<open>The text form\<close>

type_synonym device_id = bytes

definition DeviceIDLength :: nat where
  "DeviceIDLength = 32"

definition EmptyDeviceID :: device_id where
  "EmptyDeviceID = replicate DeviceIDLength 0"

text \<open>The hash function of the standard library is a parameter.\<close>

definition NewDeviceID :: "(bytes \<Rightarrow> bytes) \<Rightarrow> bytes \<Rightarrow> device_id" where
  "NewDeviceID sha256 rawCert = sha256 rawCert"

definition chunkify :: "string \<Rightarrow> string" where
  "chunkify s = Join (map (\<lambda>i. take 7 (drop (i * 7) s)) [0..<length s div 7]) ''-''"

definition unchunkify :: "string \<Rightarrow> string" where
  "unchunkify s = filter (\<lambda>c. c \<noteq> CHR '' '') (filter (\<lambda>c. c \<noteq> CHR ''-'') s)"

definition untypeoify :: "string \<Rightarrow> string" where
  "untypeoify s =
     map (\<lambda>c. if c = CHR ''8'' then CHR ''B'' else c)
       (map (\<lambda>c. if c = CHR ''1'' then CHR ''I'' else c)
         (map (\<lambda>c. if c = CHR ''0'' then CHR ''O'' else c) s))"

text \<open>\<^verbatim>\<open>String\<close> panics when \<^verbatim>\<open>luhnify\<close> fails; \<open>luhnify_encode\<close> below shows
  that it never does.\<close>

definition DeviceID_String :: "device_id \<Rightarrow> string" where
  "DeviceID_String n =
     (if n = EmptyDeviceID then []
      else case luhnify (Trim (b32_encode n) ''='') of
             Inl e \<Rightarrow> []
           | Inr i \<Rightarrow> chunkify i)"

definition UnmarshalText :: "(string \<Rightarrow> string) \<Rightarrow> string \<Rightarrow> gerror + device_id" where
  "UnmarshalText uni bs =
     (let i = unchunkify (untypeoify (ToUpper uni (Trim bs ''='')));
          decode = (\<lambda>s. case b32_decode (s @ ''===='') of
             None \<Rightarrow> Inl (Errorf ''illegal base32 data'')
           | Some dec \<Rightarrow> Inr (take DeviceIDLength (dec @ drop (length dec) EmptyDeviceID)))
      in if length i = 0 then Inr EmptyDeviceID
         else if length i = 56 then
           (case unluhnify i of Inl e \<Rightarrow> Inl e | Inr s \<Rightarrow> decode s)
         else if length i = 52 then decode i
         else Inl (Errorf ''device ID invalid: incorrect length''))"

definition DeviceIDFromString :: "(string \<Rightarrow> string) \<Rightarrow> string \<Rightarrow> gerror + device_id" where
  "DeviceIDFromString uni s = UnmarshalText uni s"

section \<open>Base-32 characters\<close>

definition is_b32 :: "char \<Rightarrow> bool" where
  "is_b32 c \<longleftrightarrow> c \<in> set b32_alphabet"

lemma b32_alphabet_chars:
  "list_all (\<lambda>n. let c = b32_alphabet ! n in
     codepoint32 c = int n \<and> upper_char c = c \<and> (of_char c :: nat) < 128
     \<and> c \<notin> set ''=- 018'') [0..<32]"
  by (simp add: b32_alphabet_def codepoint32_def upper_char_def upt_rec)

lemma is_b32_nth: "is_b32 c \<longleftrightarrow> (\<exists>n < 32. c = b32_alphabet ! n)"
proof -
  have "length b32_alphabet = 32" by (simp add: b32_alphabet_def)
  then show ?thesis by (metis is_b32_def in_set_conv_nth)
qed

lemma is_b32_props:
  assumes "is_b32 c"
  shows "upper_char c = c" "(of_char c :: nat) < 128" "c \<notin> set ''=- 018''"
    "0 \<le> codepoint32 c" "codepoint32 c < 32"
  using assms b32_alphabet_chars by (auto simp: is_b32_nth list_all_iff Let_def)

lemma is_b32_neq:
  assumes "is_b32 c"
  shows "c \<noteq> CHR ''=''" "c \<noteq> CHR ''-''" "c \<noteq> CHR '' ''"
    "c \<noteq> CHR ''0''" "c \<noteq> CHR ''1''" "c \<noteq> CHR ''8''"
  using is_b32_props(3) [OF assms] by auto

lemma codepoint32_nth: "n < 32 \<Longrightarrow> codepoint32 (b32_alphabet ! n) = int n"
  using b32_alphabet_chars by (auto simp: list_all_iff Let_def)

lemma is_b32_iff: "is_b32 c \<longleftrightarrow> codepoint32 c \<noteq> - 1"
proof
  assume "is_b32 c"
  then show "codepoint32 c \<noteq> - 1" using is_b32_props by force
next
  assume a: "codepoint32 c \<noteq> - 1"
  then have r: "(65 \<le> (of_char c :: nat) \<and> of_char c \<le> (90 :: nat))
      \<or> (50 \<le> (of_char c :: nat) \<and> of_char c \<le> (55 :: nat))"
    by (auto simp: codepoint32_def Let_def split: if_splits)
  have "list_all (\<lambda>n. char_of n \<in> set b32_alphabet) ([65..<91] @ [50..<56])"
    by code_simp
  then have all: "\<forall>n \<in> set ([65..<91] @ [50..<56]). char_of n \<in> set b32_alphabet"
    unfolding list_all_iff .
  have "of_char c \<in> set ([65..<91] @ [50..<56])" using r unfolding set_append set_upt by auto
  with all have "char_of (of_char c :: nat) \<in> set b32_alphabet" by (rule bspec)
  then show "is_b32 c" by (simp add: is_b32_def)
qed

lemma codepoint32_inj: "is_b32 c \<Longrightarrow> is_b32 d \<Longrightarrow> codepoint32 c = codepoint32 d \<Longrightarrow> c = d"
  by (auto simp: is_b32_nth codepoint32_nth)

lemma is_b32_b32_char [simp]: "is_b32 (b32_char v)"
  using unat_and_31 [of v] by (auto simp: is_b32_nth b32_char_def)

lemma luhn_sum_Some: "list_all is_b32 s \<Longrightarrow> \<exists>r. luhn_sum f a s = Some r"
  by (induction s arbitrary: f a) (auto simp: is_b32_iff Let_def)

lemma luhn32_b32:
  assumes "list_all is_b32 s"
  obtains l where "luhn32 s = Inr l" "is_b32 l"
proof -
  from luhn_sum_Some [OF assms] obtain r where r: "luhn_sum 1 0 s = Some r" by blast
  have "nat ((32 - r mod 32) mod 32) < 32" by (simp add: nat_less_iff)
  then show ?thesis
    using r by (intro that [of "b32_alphabet ! nat ((32 - r mod 32) mod 32)"])
      (auto simp: luhn32_def Let_def is_b32_nth)
qed

section \<open>Round trip of the check characters\<close>

lemma luhn_groups_ok:
  "list_all is_b32 s \<Longrightarrow> length s = 13 * n \<Longrightarrow>
   \<exists>t. luhn_groups n s = Inr t \<and> length t = 14 * n \<and> list_all is_b32 t \<and> unluhn_groups n t = Inr s"
proof (induction n arbitrary: s)
  case 0
  then show ?case by simp
next
  case (Suc n)
  have s: "list_all is_b32 (take 13 s @ drop 13 s)" using Suc.prems by simp
  then have h: "list_all is_b32 (take 13 s)" and tl: "list_all is_b32 (drop 13 s)"
    by (simp_all only: list_all_append)
  obtain l where l: "luhn32 (take 13 s) = Inr l" "is_b32 l" using luhn32_b32 [OF h] .
  obtain r where r: "luhn_groups n (drop 13 s) = Inr r" "length r = 14 * n" "list_all is_b32 r"
      "unluhn_groups n r = Inr (drop 13 s)"
    using Suc.IH [OF tl] Suc.prems by auto
  have len: "length (take 13 s) = 13" using Suc.prems by simp
  let ?t = "take 13 s @ l # r"
  have t: "take 13 ?t = take 13 s" "?t ! 13 = l" "drop 14 ?t = r"
    using len by (simp_all add: nth_append)
  have "luhn_groups (Suc n) s = Inr ?t" by (simp only: luhn_groups.simps l r sum.case)
  moreover have "length ?t = 14 * Suc n" using len r by simp
  moreover have "list_all is_b32 ?t" using h l r by simp
  moreover have "unluhn_groups (Suc n) ?t = Inr (take 13 s @ drop 13 s)"
    by (simp only: unluhn_groups.simps t l r sum.case not_True_eq_False simp_thms if_False)
  ultimately show ?case by (intro exI [of _ ?t]) (simp only: append_take_drop_id simp_thms)
qed

lemma b32_encode_tail2:
  "length bs = 5 * k + 2 \<Longrightarrow> \<exists>V. length V = 8 * k + 4 \<and> b32_encode bs = map b32_char V @ ''===='' "
proof (induction k arbitrary: bs)
  case 0
  then obtain a b where bs: "bs = [a, b]" by (auto simp: length_Suc_conv numeral_2_eq_2)
  show ?case unfolding bs b32_encode.simps
    by (intro exI [of _ "take 4 (b32_split a b 0 0 0)"]) simp
next
  case (Suc k)
  then have "length bs = Suc (Suc (Suc (Suc (Suc (5 * k + 2)))))" by simp
  then obtain a b c d e xs where bs: "bs = a # b # c # d # e # xs" "length xs = 5 * k + 2"
    by (auto simp: length_Suc_conv)
  from Suc.IH [OF bs(2)] obtain V where
    "length V = 8 * k + 4" "b32_encode xs = map b32_char V @ ''===='' " by blast
  then show ?case
    by (intro exI [of _ "b32_split a b c d e @ V"]) (simp add: bs)
qed

lemma Trim_id: "set s \<inter> set cs = {} \<Longrightarrow> Trim s cs = s"
proof -
  assume "set s \<inter> set cs = {}"
  then have "dropWhile (\<lambda>c. c \<in> set cs) s = s" "dropWhile (\<lambda>c. c \<in> set cs) (rev s) = rev s"
    by (auto simp: dropWhile_eq_self_iff hd_in_set disjoint_iff) (metis hd_in_set set_rev rev_is_Nil_conv)+
  then show ?thesis by (simp add: Trim_def)
qed

lemma Trim_padding:
  assumes "CHR ''='' \<notin> set s" and "s \<noteq> []"
  shows "Trim (s @ replicate n (CHR ''='')) ''='' = s"
proof -
  have front: "dropWhile (\<lambda>c. c \<in> set ''='') (s @ replicate n (CHR ''='')) = s @ replicate n (CHR ''='')"
    using assms by (auto simp: dropWhile_eq_self_iff hd_append) (metis hd_in_set)
  have rear: "dropWhile (\<lambda>c. c \<in> set ''='') (rev (s @ replicate n (CHR ''=''))) = rev s"
  proof -
    have "dropWhile (\<lambda>c. c \<in> set ''='') (rev s) = rev s"
      using assms by (auto simp: dropWhile_eq_self_iff) (metis hd_in_set set_rev rev_is_Nil_conv)
    moreover have "dropWhile (\<lambda>c. c \<in> set ''='') (replicate n (CHR ''='') @ ys)
        = dropWhile (\<lambda>c. c \<in> set ''='') ys" for ys
      by (induction n) simp_all
    ultimately show ?thesis by simp
  qed
  show ?thesis unfolding Trim_def front rear by simp
qed

text \<open>The group characters of an ID, and that the check characters can always be computed.\<close>

lemma luhnify_encode:
  assumes "length n = DeviceIDLength"
  obtains t where "luhnify (Trim (b32_encode n) ''='') = Inr t" "length t = 56" "list_all is_b32 t"
    "unluhnify t = Inr (Trim (b32_encode n) ''='')" "Trim (b32_encode n) ''='' @ ''===='' = b32_encode n"
proof -
  obtain V where V: "length V = 52" "b32_encode n = map b32_char V @ ''===='' "
    using b32_encode_tail2 [of n 6] assms by (auto simp: DeviceIDLength_def)
  have no: "CHR ''='' \<notin> set (map b32_char V)"
    using is_b32_neq(1) [OF is_b32_b32_char] by (auto dest: sym)
  have ne: "map b32_char V \<noteq> []" using V by auto
  have tr: "Trim (b32_encode n) ''='' = map b32_char V"
    using Trim_padding [OF no ne, of 4] by (simp add: V numeral_eq_Suc)
  have all: "list_all is_b32 (map b32_char V)" by (simp add: list_all_iff)
  obtain t where "luhn_groups 4 (map b32_char V) = Inr t" "length t = 56" "list_all is_b32 t"
      "unluhn_groups 4 t = Inr (map b32_char V)"
    using luhn_groups_ok [OF all, of 4] V(1) by auto
  then show ?thesis
    by (intro that [of t]) (simp_all only: tr luhnify_def unluhnify_def length_map V(1)
        V(2) [symmetric] simp_thms if_False)
qed

section \<open>Chunks\<close>

lemma concat_chunks: "concat (map (\<lambda>i. take k (drop (i * k) s)) [0..<n]) = take (n * k) s"
proof (induction n)
  case (Suc n)
  have "take (Suc n * k) s = take (n * k) s @ take k (drop (n * k) s)"
    using take_add [of "n * k" k s] by (simp add: add.commute)
  then show ?case using Suc by simp
qed simp

lemma filter_Join:
  "c \<notin> set (concat xs) \<Longrightarrow> filter (\<lambda>x. x \<noteq> c) (Join xs [c]) = concat xs"
  by (induction xs "[c]" rule: Join.induct) (auto simp: filter_id_conv)

lemma set_Join: "set (Join xs sep) \<subseteq> set (concat xs) \<union> set sep"
  by (induction xs sep rule: Join.induct) auto

lemma chunkify_ok:
  assumes "length s = 56" and "list_all is_b32 s"
  shows "filter (\<lambda>c. c \<noteq> CHR ''-'') (chunkify s) = s"
    and "\<forall>c \<in> set (chunkify s). is_b32 c \<or> c = CHR ''-''"
proof -
  let ?cs = "map (\<lambda>i. take 7 (drop (i * 7) s)) [0..<length s div 7]"
  have cc: "concat ?cs = s" using assms(1) by (simp only: concat_chunks) simp
  have "CHR ''-'' \<notin> set s" using assms(2) is_b32_neq(2) by (auto simp: list_all_iff)
  then have "CHR ''-'' \<notin> set (concat ?cs)" by (simp only: cc not_False_eq_True)
  from filter_Join [OF this] show "filter (\<lambda>c. c \<noteq> CHR ''-'') (chunkify s) = s"
    by (simp only: chunkify_def cc)
  have "set (chunkify s) \<subseteq> set s \<union> set ''-''"
    using set_Join [of ?cs "''-''"] by (simp only: chunkify_def cc)
  then show "\<forall>c \<in> set (chunkify s). is_b32 c \<or> c = CHR ''-''"
    using assms(2) by (auto simp: list_all_iff)
qed

text \<open>Normalising text that is already in canonical characters only drops the dashes.\<close>

lemma normalise_canonical:
  assumes "\<forall>c \<in> set t. is_b32 c \<or> c = CHR ''-''"
  shows "unchunkify (untypeoify (ToUpper uni (Trim t ''=''))) = filter (\<lambda>c. c \<noteq> CHR ''-'') t"
proof -
  have b: "is_b32 c" if "c \<in> set t" "c \<noteq> CHR ''-''" for c
    using assms that by blast
  have up: "upper_char c = c" if "c \<in> set t" for c
    using b [OF that] is_b32_props(1) by (cases "c = CHR ''-''") (auto simp: upper_char_def)
  have asc: "(of_char c :: nat) < 128" if "c \<in> set t" for c
    using b [OF that] is_b32_props(2) by (cases "c = CHR ''-''") auto
  have ne: "c \<noteq> CHR ''=''" "c \<noteq> CHR '' ''" "c \<noteq> CHR ''0''" "c \<noteq> CHR ''1''" "c \<noteq> CHR ''8''"
    if "c \<in> set t" for c
    using b [OF that] is_b32_neq [of c] by (cases "c = CHR ''-''", simp, blast)+
  have "Trim t ''='' = t" by (rule Trim_id) (use ne(1) in auto)
  moreover have "ToUpper uni t = t"
    unfolding ToUpper_def is_ascii_def list_all_iff using asc up by (simp add: map_idI)
  moreover have "untypeoify t = t"
    unfolding untypeoify_def map_map by (rule map_idI) (simp add: ne)
  moreover have "unchunkify t = filter (\<lambda>c. c \<noteq> CHR ''-'') t"
    unfolding unchunkify_def filter_filter by (rule filter_cong) (simp_all add: ne)
  ultimately show ?thesis by simp
qed

section \<open>Correctness of the text form\<close>

lemma DeviceIDFromString_String:
  assumes "length n = DeviceIDLength"
  shows "DeviceIDFromString uni (DeviceID_String n) = Inr n"
proof (cases "n = EmptyDeviceID")
  case True
  then show ?thesis
    by (simp add: DeviceIDFromString_def UnmarshalText_def DeviceID_String_def Trim_def ToUpper_def
        is_ascii_def untypeoify_def unchunkify_def)
next
  case False
  obtain t where t: "luhnify (Trim (b32_encode n) ''='') = Inr t" "length t = 56" "list_all is_b32 t"
      "unluhnify t = Inr (Trim (b32_encode n) ''='')" "Trim (b32_encode n) ''='' @ ''===='' = b32_encode n"
    using luhnify_encode [OF assms] .
  have "DeviceID_String n = chunkify t" using False t(1) by (simp add: DeviceID_String_def)
  then have "unchunkify (untypeoify (ToUpper uni (Trim (DeviceID_String n) ''=''))) = t"
    using normalise_canonical chunkify_ok [OF t(2,3)] by simp
  moreover have "t \<noteq> []" using t(2) by auto
  ultimately show ?thesis
    using t assms
    by (simp add: DeviceIDFromString_def UnmarshalText_def b32_decode_encode)
qed

text \<open>C20: the text form of every device ID parses back to that ID, whatever the Unicode tables.\<close>

theorem device_id_roundtrip:
  assumes "length n = DeviceIDLength"
  shows "DeviceIDFromString uni (DeviceID_String n) = Inr n"
  using assms by (rule DeviceIDFromString_String)

theorem device_id_roundtrip_witness:
  "DeviceIDFromString id (DeviceID_String (replicate 32 7)) = Inr (replicate 32 7)"
  by (rule device_id_roundtrip) (simp add: DeviceIDLength_def)

text \<open>whatever text it accepts, the parser yields an ID of 32 bytes.\<close>

theorem device_id_length:
  assumes "DeviceIDFromString uni s = Inr n"
  shows "length n = DeviceIDLength"
proof -
  let ?fit = "\<lambda>dec. take DeviceIDLength (dec @ drop (length dec) EmptyDeviceID)"
  have "length EmptyDeviceID = DeviceIDLength" "length (?fit dec) = DeviceIDLength" for dec
    by (simp_all add: EmptyDeviceID_def)
  moreover have "n = EmptyDeviceID \<or> (\<exists>dec. n = ?fit dec)"
    using assms unfolding DeviceIDFromString_def UnmarshalText_def Let_def
    by (simp split: if_splits sum.splits option.splits) blast+
  ultimately show ?thesis by blast
qed

theorem device_id_length_witness:
  "length EmptyDeviceID = DeviceIDLength"
  by (rule device_id_length [of id "''  - ''"]) code_simp

section \<open>Detection of typing errors\<close>

definition luhn_digit :: "int \<Rightarrow> int \<Rightarrow> int" where
  "luhn_digit f c = f * c div 32 + f * c mod 32"

lemma luhn_digit_values:
  assumes "0 \<le> x" "x < 32"
  shows "luhn_digit 1 x = x" "luhn_digit 2 x = (if x < 16 then 2 * x else 2 * x - 31)"
proof -
  have "list_all (\<lambda>x. luhn_digit 1 x = x \<and> luhn_digit 2 x = (if x < 16 then 2 * x else 2 * x - 31)) [0..31]"
    by code_simp
  then have "\<forall>x \<in> {0..31}. luhn_digit 1 x = x
      \<and> luhn_digit 2 x = (if x < 16 then 2 * x else 2 * x - 31)"
    unfolding list_all_iff set_upto .
  moreover have "x \<in> {0..31}" using assms by simp
  ultimately show "luhn_digit 1 x = x" "luhn_digit 2 x = (if x < 16 then 2 * x else 2 * x - 31)"
    by blast+
qed

lemma luhn_digit_inj:
  assumes f: "f = 1 \<or> f = 2" and c: "0 \<le> c" "c < 32" and d: "0 \<le> d" "d < 32"
    and eq: "luhn_digit f c mod 32 = luhn_digit f d mod 32"
  shows "c = d"
proof -
  have "luhn_digit f x mod 32 = luhn_digit f x" if "0 \<le> x" "x < 32" for x
    using f luhn_digit_values [OF that] that by (auto intro: mod_pos_pos_trivial)
  with eq c d have "luhn_digit f c = luhn_digit f d" by simp
  with f show ?thesis
    using luhn_digit_values [OF c] luhn_digit_values [OF d] by (auto split: if_splits) presburger+
qed

lemma luhn_sum_Cons:
  "luhn_sum f a (c # s) =
     (if is_b32 c then luhn_sum (if f = 2 then 1 else 2) (a + luhn_digit f (codepoint32 c)) s else None)"
  by (simp add: is_b32_iff Let_def luhn_digit_def)

lemma luhn_sum_shift: "luhn_sum f a s = Some r \<Longrightarrow> luhn_sum f b s = Some (r + (b - a))"
proof (induction s arbitrary: f a b)
  case (Cons c s)
  then show ?case
    using Cons.IH [of _ "a + luhn_digit f (codepoint32 c)" "b + luhn_digit f (codepoint32 c)"]
    by (simp add: luhn_sum_Cons del: luhn_sum.simps split: if_splits)
qed simp

lemma luhn_sum_change:
  "luhn_sum f a s = Some r \<Longrightarrow> luhn_sum f a (s[i := c]) = Some r' \<Longrightarrow> f = 1 \<or> f = 2 \<Longrightarrow>
   i < length s \<Longrightarrow> c \<noteq> s ! i \<Longrightarrow> r mod 32 \<noteq> r' mod 32"
proof (induction s arbitrary: f a i)
  case (Cons x s)
  let ?g = "if f = 2 then 1 else 2 :: int" and ?D = "\<lambda>c. luhn_digit f (codepoint32 c)"
  have bx: "is_b32 x" and 1: "luhn_sum ?g (a + ?D x) s = Some r"
    using Cons.prems(1) by (simp_all only: luhn_sum_Cons split: if_splits) simp_all
  show ?case
  proof (cases i)
    case 0
    have bc: "is_b32 c" and 2: "luhn_sum ?g (a + ?D c) s = Some r'"
      using Cons.prems(2) 0
      by (simp_all only: luhn_sum_Cons list_update.simps nat.case split: if_splits) simp_all
    have eq: "r' = r + (?D c - ?D x)"
      using luhn_sum_shift [OF 1, of "a + ?D c"] 2 by simp
    have "?D c mod 32 \<noteq> ?D x mod 32"
    proof
      assume "?D c mod 32 = ?D x mod 32"
      then have "codepoint32 c = codepoint32 x"
        using luhn_digit_inj [OF Cons.prems(3)] is_b32_props(4,5) bx bc by blast
      then show False using codepoint32_inj [OF bc bx] Cons.prems(5) 0 by simp
    qed
    then show ?thesis unfolding eq mod_eq_dvd_iff by (simp add: dvd_diff_commute)
  next
    case (Suc j)
    have 2: "luhn_sum ?g (a + ?D x) (s[j := c]) = Some r'"
      using Cons.prems(2) bx by (simp add: Suc luhn_sum_Cons del: luhn_sum.simps)
    show ?thesis
      by (rule Cons.IH [OF 1 2]) (use Cons.prems(4,5) Suc in simp_all)
  qed
qed simp

lemma b32_alphabet_inj: "m < 32 \<Longrightarrow> n < 32 \<Longrightarrow> b32_alphabet ! m = b32_alphabet ! n \<Longrightarrow> m = n"
  by (metis codepoint32_nth of_nat_eq_iff)

lemma luhn32_change:
  assumes "luhn32 s = Inr l" "luhn32 (s[i := c]) = Inr l" "i < length s"
  shows "c = s ! i"
proof (rule ccontr)
  assume ne: "c \<noteq> s ! i"
  obtain r r' where r: "luhn_sum 1 0 s = Some r" "luhn_sum 1 0 (s[i := c]) = Some r'"
      "b32_alphabet ! nat ((32 - r mod 32) mod 32) = b32_alphabet ! nat ((32 - r' mod 32) mod 32)"
    using assms(1,2) by (auto simp: luhn32_def Let_def split: option.splits)
  have "nat ((32 - r mod 32) mod 32) = nat ((32 - r' mod 32) mod 32)"
    by (rule b32_alphabet_inj [OF _ _ r(3)]) (simp_all add: nat_less_iff)
  then have "(32 - r mod 32) mod 32 = (32 - r' mod 32) mod 32"
    by (subst (asm) eq_nat_nat_iff) simp_all
  then have "(32 - r) mod 32 = (32 - r') mod 32" by (simp only: mod_diff_right_eq)
  then have "r mod 32 = r' mod 32" unfolding mod_eq_dvd_iff by (simp add: dvd_diff_commute)
  with luhn_sum_change [OF r(1,2) _ assms(3) ne] show False by simp
qed

lemma unluhn_groups_change:
  "unluhn_groups n s = Inr a \<Longrightarrow> unluhn_groups n (s[i := c]) = Inr b \<Longrightarrow>
   length s = 14 * n \<Longrightarrow> i < length s \<Longrightarrow> c = s ! i"
proof (induction n arbitrary: s i a b)
  case (Suc n)
  from Suc.prems(1) obtain l a' where l: "luhn32 (take 13 s) = Inr l" "s ! 13 = l"
      "unluhn_groups n (drop 14 s) = Inr a'"
    by (auto split: sum.splits if_splits)
  from Suc.prems(2) obtain l' b' where l': "luhn32 (take 13 (s[i := c])) = Inr l'" "s[i := c] ! 13 = l'"
      "unluhn_groups n (drop 14 (s[i := c])) = Inr b'"
    by (auto split: sum.splits if_splits)
  have len: "13 < length s" using Suc.prems(3) by simp
  consider "i < 13" | "i = 13" | "14 \<le> i" by linarith
  then show ?case
  proof cases
    case 1
    then have "luhn32 ((take 13 s)[i := c]) = Inr l" using l l' len
      by (simp add: take_update_swap)
    from luhn32_change [OF l(1) this] 1 len show ?thesis by simp
  next
    case 2
    then show ?thesis using l l' len by simp
  next
    case 3
    have "drop 14 (s[i := c]) = (drop 14 s)[i - 14 := c]"
      using 3 by (simp add: drop_update_swap)
    from Suc.IH [OF l(3) l'(3) [unfolded this]] show ?thesis
      using 3 Suc.prems(3,4) by simp
  qed
qed simp

lemma filter_update:
  "i < length t \<Longrightarrow> P (t ! i) \<Longrightarrow> P c \<Longrightarrow>
   filter P (t[i := c]) = (filter P t)[length (filter P (take i t)) := c]
   \<and> length (filter P (take i t)) < length (filter P t)
   \<and> filter P t ! length (filter P (take i t)) = t ! i"
proof (induction t arbitrary: i)
  case (Cons x t)
  then show ?case by (cases i) auto
qed simp

text \<open>C21: replacing one character of an ID's text form by another base-32 character is always
  noticed: the parser reports an error, it never yields a different ID.\<close>

theorem device_id_typo_detected:
  assumes "length n = DeviceIDLength" and "i < length (DeviceID_String n)"
    and "DeviceID_String n ! i \<noteq> CHR ''-''" and "is_b32 c" and "c \<noteq> DeviceID_String n ! i"
  shows "\<exists>e. DeviceIDFromString uni ((DeviceID_String n)[i := c]) = Inl e"
proof -
  have ne: "n \<noteq> EmptyDeviceID" using assms(2) by (auto simp: DeviceID_String_def)
  obtain t where t: "luhnify (Trim (b32_encode n) ''='') = Inr t" "length t = 56" "list_all is_b32 t"
      "unluhnify t = Inr (Trim (b32_encode n) ''='')"
    using luhnify_encode [OF assms(1)] by metis
  have s: "DeviceID_String n = chunkify t" using ne t(1) by (simp add: DeviceID_String_def)
  let ?j = "length (filter (\<lambda>c. c \<noteq> CHR ''-'') (take i (chunkify t)))"
  have f: "filter (\<lambda>c. c \<noteq> CHR ''-'') ((chunkify t)[i := c]) = t[?j := c]"
      "?j < length t" "t ! ?j = chunkify t ! i"
    using filter_update [of i "chunkify t" "\<lambda>c. c \<noteq> CHR ''-''" c] assms(2,3) is_b32_neq(2) [OF assms(4)]
    by (simp_all add: s chunkify_ok(1) [OF t(2,3)])
  have "\<forall>x \<in> set ((chunkify t)[i := c]). is_b32 x \<or> x = CHR ''-''"
    using chunkify_ok(2) [OF t(2,3)] assms(4) set_update_subset_insert [of "chunkify t" i c] by blast
  from normalise_canonical [OF this, of uni]
  have norm: "unchunkify (untypeoify (ToUpper uni (Trim ((DeviceID_String n)[i := c]) ''=''))) = t[?j := c]"
    by (simp only: s f(1))
  have "\<nexists>b. unluhnify (t[?j := c]) = Inr b"
  proof
    assume "\<exists>b. unluhnify (t[?j := c]) = Inr b"
    then obtain b where "unluhn_groups 4 (t[?j := c]) = Inr b" using t(2) by (auto simp: unluhnify_def)
    moreover have "unluhn_groups 4 t = Inr (Trim (b32_encode n) ''='')"
      using t(2,4) by (simp add: unluhnify_def)
    ultimately have "c = t ! ?j" using unluhn_groups_change t(2) f(2) by simp
    then show False using assms(5) by (simp add: f(3) s)
  qed
  then obtain e where "unluhnify (t[?j := c]) = Inl e" by (metis sum.exhaust)
  moreover have "length (t[?j := c]) = 56" "t[?j := c] \<noteq> []" using t(2) by auto
  ultimately show ?thesis
    unfolding DeviceIDFromString_def UnmarshalText_def norm by (simp add: Let_def)
qed

theorem device_id_typo_detected_witness:
  "\<exists>e. DeviceIDFromString id ((DeviceID_String (replicate 32 7))[0 := CHR ''Z'']) = Inl e"
proof (rule device_id_typo_detected)
  show "length (replicate 32 (7 :: byte)) = DeviceIDLength" by (simp add: DeviceIDLength_def)
  show "0 < length (DeviceID_String (replicate 32 7))" by code_simp
  show "DeviceID_String (replicate 32 7) ! 0 \<noteq> CHR ''-''" by code_simp
  show "is_b32 (CHR ''Z'')" by code_simp
  show "CHR ''Z'' \<noteq> DeviceID_String (replicate 32 7) ! 0" by code_simp
qed

end
