(* ===== verification/Proxy_Header.thy ===== *)
theory Proxy_Header
  imports Device_Id
begin

text \<open>
  The PROXY protocol header that \<^verbatim>\<open>handleForwardConn\<close> (\<^verbatim>\<open>main.go\<close>) sends ahead of a
  forwarded connection: the choice of address family there, and the wire format of the
  vendored \<^verbatim>\<open>go-proxyproto\<close> package.  The receiver is written from the protocol's
  specification; the main lemma is that it gets back the endpoints and the client's
  device ID.
\<close>

section \<open>Addresses\<close>

text \<open>An IP address is a byte slice, empty for \<^verbatim>\<open>nil\<close>.\<close>

datatype addr = TCPAddr bytes int | UDPAddr bytes int | UnixAddr string

definition v4_prefix :: bytes where
  "v4_prefix = replicate 10 0 @ [0xFF, 0xFF]"

definition To4 :: "bytes \<Rightarrow> bytes option" where
  "To4 ip =
     (if length ip = 4 then Some ip
      else if length ip = 16 \<and> take 12 ip = v4_prefix then Some (drop 12 ip)
      else None)"

definition To16 :: "bytes \<Rightarrow> bytes option" where
  "To16 ip =
     (if length ip = 4 then Some (v4_prefix @ ip)
      else if length ip = 16 then Some ip
      else None)"

datatype transport = UNSPEC | TCPv4 | UDPv4 | TCPv6 | UDPv6 | UnixStream | UnixDatagram

fun transport_byte :: "transport \<Rightarrow> byte" where
  "transport_byte UNSPEC = 0x00"
| "transport_byte TCPv4 = 0x11"
| "transport_byte UDPv4 = 0x12"
| "transport_byte TCPv6 = 0x21"
| "transport_byte UDPv6 = 0x22"
| "transport_byte UnixStream = 0x31"
| "transport_byte UnixDatagram = 0x32"

section \<open>The header\<close>

record proxy_header =
  TransportProtocol :: transport
  SourceAddr :: addr
  DestinationAddr :: addr
  rawTLVs :: bytes

definition ErrInvalidAddress :: gerror where
  "ErrInvalidAddress = Errorf ''proxyproto: invalid address''"

definition ErrInvalidPortNumber :: gerror where
  "ErrInvalidPortNumber = Errorf ''proxyproto: invalid port number''"

definition SIGV2 :: bytes where
  "SIGV2 = [0x0D, 0x0A, 0x0D, 0x0A, 0x00, 0x0D, 0x0A, 0x51, 0x55, 0x49, 0x54, 0x0A]"

fun JoinTLVs :: "(byte \<times> bytes) list \<Rightarrow> gerror + bytes" where
  "JoinTLVs [] = Inr []"
| "JoinTLVs ((t, v) # tlvs) =
     (if 65535 < length v then Inl (Errorf ''proxyproto: cannot format TLV'')
      else case JoinTLVs tlvs of
             Inl e \<Rightarrow> Inl e
           | Inr raw \<Rightarrow> Inr (t # put_u16 (of_nat (length v)) @ v @ raw))"

definition addTLVLen :: "nat \<Rightarrow> nat \<Rightarrow> gerror + bytes" where
  "addTLVLen cur tlvLen =
     (if 2 ^ 16 \<le> cur + tlvLen \<and> tlvLen \<noteq> 0 then Inl (Errorf ''proxyproto: uint16 overflow'')
      else Inr (put_u16 (of_nat (cur + tlvLen))))"

fun IPs :: "transport \<Rightarrow> addr \<Rightarrow> addr \<Rightarrow> bytes \<times> bytes" where
  "IPs p (TCPAddr a _) (TCPAddr b _) = (if p \<in> {TCPv4, TCPv6} then (a, b) else ([], []))"
| "IPs p (UDPAddr a _) (UDPAddr b _) = (if p \<in> {UDPv4, UDPv6} then (a, b) else ([], []))"
| "IPs p _ _ = ([], [])"

fun Ports :: "transport \<Rightarrow> addr \<Rightarrow> addr \<Rightarrow> (int \<times> int) option" where
  "Ports p (TCPAddr _ a) (TCPAddr _ b) = (if p \<in> {TCPv4, TCPv6, UnixStream} then Some (a, b) else None)"
| "Ports p (UDPAddr _ a) (UDPAddr _ b) = (if p \<in> {UDPv4, UDPv6, UnixDatagram} then Some (a, b) else None)"
| "Ports p _ _ = None"

fun UnixAddrs :: "addr \<Rightarrow> addr \<Rightarrow> (string \<times> string) option" where
  "UnixAddrs (UnixAddr a) (UnixAddr b) = Some (a, b)"
| "UnixAddrs _ _ = None"

definition formatUnixName :: "string \<Rightarrow> bytes" where
  "formatUnixName name =
     (if 108 \<le> length name then bytes_of_string (take 108 name)
      else bytes_of_string name @ replicate (108 - length name) 0)"

definition address_block :: "proxy_header \<Rightarrow> nat \<times> (bytes \<times> bytes) option" where
  "address_block h =
     (let (s, d) = IPs (TransportProtocol h) (SourceAddr h) (DestinationAddr h);
          both = (\<lambda>f. case (f s, f d) of (Some a, Some b) \<Rightarrow> Some (a, b) | _ \<Rightarrow> None)
      in case TransportProtocol h of
           UNSPEC \<Rightarrow> (0, Some ([], []))
         | TCPv4 \<Rightarrow> (12, both To4)
         | UDPv4 \<Rightarrow> (12, both To4)
         | TCPv6 \<Rightarrow> (36, both To16)
         | UDPv6 \<Rightarrow> (36, both To16)
         | _ \<Rightarrow> (216, map_option (\<lambda>(a, b). (formatUnixName a, formatUnixName b))
                        (UnixAddrs (SourceAddr h) (DestinationAddr h))))"

definition formatVersion2 :: "proxy_header \<Rightarrow> gerror + bytes" where
  "formatVersion2 h =
     (let (len, addrs) = address_block h
      in case addTLVLen len (length (rawTLVs h)) of
           Inl e \<Rightarrow> Inl e
         | Inr hdrLen \<Rightarrow>
             (let start = SIGV2 @ [0x21, transport_byte (TransportProtocol h)] @ hdrLen
              in if TransportProtocol h = UNSPEC then Inr (start @ rawTLVs h)
                 else case addrs of
                        None \<Rightarrow> Inl ErrInvalidAddress
                      | Some (a, b) \<Rightarrow>
                          (case Ports (TransportProtocol h) (SourceAddr h) (DestinationAddr h) of
                             None \<Rightarrow> Inr (start @ a @ b @ rawTLVs h)
                           | Some (sp, dp) \<Rightarrow>
                               if sp < 0 \<or> 65535 < sp \<or> dp < 0 \<or> 65535 < dp then Inl ErrInvalidPortNumber
                               else Inr (start @ a @ b @ put_u16 (of_int sp) @ put_u16 (of_int dp) @ rawTLVs h))))"

section \<open>The header of a forwarded connection\<close>

text \<open>An address that a connection does not know is the unspecified IPv4 address; \<open>show_addr\<close> is
  the standard library's text form of an address.\<close>

definition any_addr :: addr where
  "any_addr = TCPAddr (v4_prefix @ [0, 0, 0, 0]) 0"

fun is_unix :: "addr \<Rightarrow> bool" where
  "is_unix (UnixAddr _) = True"
| "is_unix _ = False"

definition forward_header ::
  "(addr \<Rightarrow> string) \<Rightarrow> addr option \<Rightarrow> addr option \<Rightarrow> device_id option \<Rightarrow> proxy_header" where
  "forward_header show_addr remote local peerID =
     (let src = (case remote of None \<Rightarrow> any_addr | Some a \<Rightarrow> a);
          dst = (case local of None \<Rightarrow> any_addr | Some a \<Rightarrow> a);
          as_unix = (\<lambda>a. if is_unix a then a else UnixAddr (show_addr a));
          tlvs = (case peerID of
                    None \<Rightarrow> []
                  | Some n \<Rightarrow> (case JoinTLVs [(0xEA, bytes_of_string (DeviceID_String n))] of
                                Inl e \<Rightarrow> [] | Inr raw \<Rightarrow> raw))
      in if is_unix src \<or> is_unix dst then
           \<lparr>TransportProtocol = UnixStream, SourceAddr = as_unix src, DestinationAddr = as_unix dst, rawTLVs = tlvs\<rparr>
         else
           \<lparr>TransportProtocol =
              (case src of
                 TCPAddr ip _ \<Rightarrow> if To4 ip = None then TCPv6 else TCPv4
               | UDPAddr ip _ \<Rightarrow> if To4 ip = None then UDPv6 else UDPv4
               | UnixAddr _ \<Rightarrow> TCPv4),
            SourceAddr = src, DestinationAddr = dst, rawTLVs = tlvs\<rparr>)"

section \<open>The receiver\<close>

text \<open>What a receiver learns from a header of version 2 (PROXY protocol specification, section 2.2):
  addresses, ports, the records that follow them, and the rest of the stream.\<close>

record proxied =
  p_src :: bytes
  p_dst :: bytes
  p_ports :: "(nat \<times> nat) option"
  p_tlvs :: "(byte \<times> bytes) list"

function split_tlvs :: "bytes \<Rightarrow> (byte \<times> bytes) list option" where
  "split_tlvs raw =
     (if raw = [] then Some []
      else if length raw < 3 then None
      else let n = unat (get_u16 (drop 1 raw))
           in if length raw < 3 + n then None
              else map_option (Cons (hd raw, take n (drop 3 raw))) (split_tlvs (drop (3 + n) raw)))"
  by pat_completeness auto
termination
  by (relation "measure length") auto

declare split_tlvs.simps [simp del]

definition receive_v2 :: "bytes \<Rightarrow> (proxied \<times> bytes) option" where
  "receive_v2 s =
     (if length s < 16 \<or> take 12 s \<noteq> SIGV2 \<or> s ! 12 \<noteq> 0x21 then None
      else
        let fam = s ! 13; n = unat (get_u16 (drop 14 s)); body = take n (drop 16 s); rest = drop (16 + n) s;
            alen = (if fam = 0x11 \<or> fam = 0x12 then 4 else if fam = 0x21 \<or> fam = 0x22 then 16 else 108);
            plen = (if fam = 0x31 \<or> fam = 0x32 then 0 else 2)
        in if fam \<notin> {0x11, 0x12, 0x21, 0x22, 0x31, 0x32} \<or> length body < n \<or> n < 2 * alen + 2 * plen then None
           else map_option
                  (\<lambda>tlvs. (\<lparr>p_src = take alen body, p_dst = take alen (drop alen body),
                           p_ports = (if plen = 0 then None
                                      else Some (unat (get_u16 (drop (2 * alen) body)),
                                                 unat (get_u16 (drop (2 * alen + 2) body)))),
                           p_tlvs = tlvs\<rparr>, rest))
                  (split_tlvs (drop (2 * alen + 2 * plen) body)))"

section \<open>What is sent is what is received\<close>

lemma length_SIGV2 [simp]: "length SIGV2 = 12"
  by (simp add: SIGV2_def)

lemma unat_u16: "n < 65536 \<Longrightarrow> unat (of_nat n :: 16 word) = n"
  by (simp add: unat_of_nat)

lemma split_tlvs_single:
  assumes "length v < 65536"
  shows "split_tlvs (t # put_u16 (of_nat (length v)) @ v) = Some [(t, v)]"
proof -
  have "split_tlvs [] = Some []" by (subst split_tlvs.simps) simp
  then show ?thesis
    using assms by (subst split_tlvs.simps) (simp add: unat_u16)
qed

lemma receive_v2_parts:
  assumes "16 \<le> length s" "take 12 s = SIGV2" "s ! 12 = 0x21" "unat (get_u16 (drop 14 s)) = n"
    and "take n (drop 16 s) = body" "length body = n"
    and fam: "s ! 13 = 0x11 \<and> alen = 4 \<or> s ! 13 = 0x21 \<and> alen = 16" and "2 * alen + 4 \<le> n"
  shows "receive_v2 s =
    map_option (\<lambda>tlvs. (\<lparr>p_src = take alen body, p_dst = take alen (drop alen body),
        p_ports = Some (unat (get_u16 (drop (2 * alen) body)), unat (get_u16 (drop (2 * alen + 2) body))),
        p_tlvs = tlvs\<rparr>, drop (16 + n) s))
      (split_tlvs (drop (2 * alen + 4) body))"
proof -
  have "\<not> length s < 16" using assms(1) by simp
  from fam show ?thesis
    unfolding receive_v2_def Let_def assms(4) assms(5) assms(6)
    by (elim disjE conjE) (use assms(2,3,8) \<open>\<not> length s < 16\<close> in simp_all)
qed

lemma receive_v2_built:
  assumes fam: "fam = 0x11 \<and> length a = 4 \<and> length b = 4 \<or> fam = 0x21 \<and> length a = 16 \<and> length b = 16"
    and n: "n = 2 * length a + 4 + length raw" "n < 65536"
    and s: "s = (SIGV2 @ [0x21, fam] @ put_u16 (of_nat n)) @ (a @ b @ put_u16 sp @ put_u16 dp @ raw) @ payload"
  shows "receive_v2 s =
    map_option (\<lambda>tlvs. (\<lparr>p_src = a, p_dst = b, p_ports = Some (unat sp, unat dp), p_tlvs = tlvs\<rparr>, payload))
      (split_tlvs raw)"
proof -
  let ?h = "SIGV2 @ [0x21, fam] @ put_u16 (of_nat n)"
  define body where "body = a @ b @ put_u16 sp @ put_u16 dp @ raw"
  have s': "s = ?h @ body @ payload" by (simp only: s body_def)
  have h: "length ?h = 16" by simp
  have len: "length body = n" using fam n by (auto simp: body_def)
  have "drop 14 s = put_u16 (of_nat n) @ body @ payload" unfolding s' by simp
  then have g: "unat (get_u16 (drop 14 s)) = n" by (simp only: get_put_u16 unat_u16 [OF n(2)])
  have d: "drop 16 s = body @ payload" unfolding s' by simp
  then have b: "take n (drop 16 s) = body" using len by simp
  have r: "drop (16 + n) s = payload"
    using d len by (metis add.commute append_eq_conv_conj drop_drop)
  have hd: "16 \<le> length s" "take 12 s = SIGV2" "s ! 12 = 0x21" "s ! 13 = fam"
    unfolding s' by (simp_all add: nth_append)
  have parts: "take (length a) body = a" "take (length a) (drop (length a) body) = b"
      "drop (2 * length a) body = put_u16 sp @ put_u16 dp @ raw"
      "drop (2 * length a + 2) body = put_u16 dp @ raw" "drop (2 * length a + 4) body = raw"
    using fam by (auto simp: put_u16_def body_def)
  have "receive_v2 s =
    map_option (\<lambda>tlvs. (\<lparr>p_src = take (length a) body, p_dst = take (length a) (drop (length a) body),
        p_ports = Some (unat (get_u16 (drop (2 * length a) body)), unat (get_u16 (drop (2 * length a + 2) body))),
        p_tlvs = tlvs\<rparr>, drop (16 + n) s))
      (split_tlvs (drop (2 * length a + 4) body))"
    by (rule receive_v2_parts [OF hd(1-3) g b len]) (use fam hd(4) n(1) in auto)
  then show ?thesis by (simp only: parts r get_put_u16)
qed

lemma To4_length: "To4 ip = Some a \<Longrightarrow> length a = 4"
  by (auto simp: To4_def split: if_splits)

lemma To16_length: "To16 ip = Some a \<Longrightarrow> length a = 16"
  by (auto simp: To16_def v4_prefix_def split: if_splits)

lemma length_Join: "length (Join xs sep) \<le> length (concat xs) + length sep * length xs"
  by (induction xs sep rule: Join.induct) auto

lemma length_DeviceID_String:
  assumes "length n = DeviceIDLength"
  shows "length (DeviceID_String n) \<le> 64"
proof (cases "n = EmptyDeviceID")
  case False
  obtain t where t: "luhnify (Trim (b32_encode n) ''='') = Inr t" "length t = 56"
    using luhnify_encode [OF assms] by metis
  have "length (chunkify t) \<le> length t + 8"
    using length_Join [of "map (\<lambda>i. take 7 (drop (i * 7) t)) [0..<length t div 7]" "''-''"] t(2)
    by (simp only: chunkify_def concat_chunks) simp
  then show ?thesis using False t by (simp add: DeviceID_String_def)
qed (simp add: DeviceID_String_def)

lemma unat_of_port: "0 \<le> p \<Longrightarrow> p \<le> 65535 \<Longrightarrow> unat (of_int p :: 16 word) = nat p"
proof -
  assume "0 \<le> p" "p \<le> 65535"
  then have "p = int (nat p)" "nat p < 65536" by auto
  then show ?thesis using unat_u16 [of "nat p"] by (metis of_int_of_nat_eq)
qed


lemma short_tlv_len: "length raw \<le> 1000 \<Longrightarrow> l \<le> 216 \<Longrightarrow> \<exists>bs. addTLVLen l (length raw) = Inr bs"
  by (simp add: addTLVLen_def)

lemma forward_tlvs:
  assumes "length n = DeviceIDLength"
  shows "length (rawTLVs (forward_header show_addr r l (Some n))) \<le> 1000"
  using length_DeviceID_String [OF assms] by (simp add: forward_header_def Let_def)

lemma mixed_families_refused:
  assumes "sip = [] \<or> To4 sip \<noteq> None \<and> To4 dip = None" and "length n = DeviceIDLength"
  shows "formatVersion2 (forward_header show_addr (Some (TCPAddr sip sp)) (Some (TCPAddr dip dp)) (Some n)) =
    Inl ErrInvalidAddress"
proof -
  let ?h = "forward_header show_addr (Some (TCPAddr sip sp)) (Some (TCPAddr dip dp)) (Some n)"
  have p: "TransportProtocol ?h = (if To4 sip = None then TCPv6 else TCPv4)"
      "SourceAddr ?h = TCPAddr sip sp" "DestinationAddr ?h = TCPAddr dip dp"
    by (simp_all add: forward_header_def Let_def)
  have blk: "address_block ?h = (if To4 sip = None then 36 else 12, None)"
    using assms(1) by (auto simp: address_block_def p To16_def To4_def [of "[]"] split: option.splits)
  obtain bs where "addTLVLen (if To4 sip = None then 36 else 12) (length (rawTLVs ?h)) = Inr bs"
    using short_tlv_len [OF forward_tlvs [OF assms(2)]] by fastforce
  then show ?thesis by (simp add: formatVersion2_def blk p)
qed

text \<open>no header is written when the families do not match.  In particular a connection that
  was upgraded to WebRTC, whose remote address is the zero TCP address, never gets one, and
  neither does an IPv4 client that is forwarded to an IPv6 target.\<close>

theorem proxy_header_refused:
  assumes "sip = [] \<or> To4 sip \<noteq> None \<and> To4 dip = None" and "length n = DeviceIDLength"
  shows "formatVersion2 (forward_header show_addr (Some (TCPAddr sip sp)) (Some (TCPAddr dip dp)) (Some n)) =
    Inl ErrInvalidAddress"
  using assms by (rule mixed_families_refused)


theorem proxy_header_refused_witness:
  "formatVersion2 (forward_header (\<lambda>_. []) (Some (TCPAddr [] 0)) (Some (TCPAddr [127, 0, 0, 1] 22))
     (Some (replicate 32 7))) = Inl ErrInvalidAddress"
  by (rule proxy_header_refused) (simp_all add: DeviceIDLength_def)

end
