(* ===== verification/Webrtc.thy ===== *)
theory Webrtc
  imports Auth Proxy_Header
begin

text \<open>
  The WebRTC upgrade of a relayed connection (\<^verbatim>\<open>webrtc.go\<close>): the signalling messages with
  their JSON form, the two negotiation roles over the relay connection, and the methods
  of \<^verbatim>\<open>WebRTCConn\<close>.  The WebRTC library is a parameter: the outcomes of its calls, the
  candidates that its callback sends, and how the wait for the data channel ends.
\<close>

section \<open>Signalling messages\<close>

record ICECandidateInit =
  ci_Candidate :: string
  ci_SDPMid :: "string option"
  ci_SDPMLineIndex :: "16 word option"
  ci_UsernameFragment :: "string option"

record SignalMessage =
  sm_Type :: string
  sm_SDP :: string
  sm_Candidate :: "ICECandidateInit option"

definition opt_str_json :: "string option \<Rightarrow> json" where
  "opt_str_json s = (case s of None \<Rightarrow> JNull | Some t \<Rightarrow> JStr t)"

definition candidate_members :: "ICECandidateInit \<Rightarrow> (string \<times> json) list" where
  "candidate_members c =
     [(''candidate'', JStr (ci_Candidate c)),
      (''sdpMid'', opt_str_json (ci_SDPMid c)),
      (''sdpMLineIndex'', case ci_SDPMLineIndex c of None \<Rightarrow> JNull | Some i \<Rightarrow> JNum (show_nat (unat i))),
      (''usernameFragment'', opt_str_json (ci_UsernameFragment c))]"

definition signal_json :: "SignalMessage \<Rightarrow> json" where
  "signal_json m =
     JObj ((''type'', JStr (sm_Type m)) # omitempty_str ''sdp'' (sm_SDP m) @
           (case sm_Candidate m of None \<Rightarrow> [] | Some c \<Rightarrow> [(''candidate'', JObj (candidate_members c))]))"

definition signal_marshal :: "SignalMessage \<Rightarrow> string" where
  "signal_marshal m = json_print (signal_json m)"

text \<open>A pointer field: \<^verbatim>\<open>null\<close> makes it \<^verbatim>\<open>nil\<close>, a value of its type allocates it.\<close>

definition opt_str_field :: "(string option \<Rightarrow> 'a \<Rightarrow> 'a) \<Rightarrow> json \<Rightarrow> 'a \<Rightarrow> 'a option" where
  "opt_str_field upd j r =
     (case j of JStr s \<Rightarrow> Some (upd (Some s) r) | JNull \<Rightarrow> Some (upd None r) | _ \<Rightarrow> None)"

definition opt_u16_field :: "(16 word option \<Rightarrow> 'a \<Rightarrow> 'a) \<Rightarrow> json \<Rightarrow> 'a \<Rightarrow> 'a option" where
  "opt_u16_field upd j r =
     (case j of JNull \<Rightarrow> Some (upd None r) | _ \<Rightarrow> u16_field (\<lambda>w. upd (Some w)) j r)"

definition candidate_fields :: "ICECandidateInit field list" where
  "candidate_fields =
     [(''candidate'', str_field (\<lambda>s r. r \<lparr>ci_Candidate := s\<rparr>)),
      (''sdpMid'', opt_str_field (\<lambda>s r. r \<lparr>ci_SDPMid := s\<rparr>)),
      (''sdpMLineIndex'', opt_u16_field (\<lambda>i r. r \<lparr>ci_SDPMLineIndex := i\<rparr>)),
      (''usernameFragment'', opt_str_field (\<lambda>s r. r \<lparr>ci_UsernameFragment := s\<rparr>))]"

definition zero_candidate :: ICECandidateInit where
  "zero_candidate = \<lparr>ci_Candidate = [], ci_SDPMid = None, ci_SDPMLineIndex = None, ci_UsernameFragment = None\<rparr>"

definition candidate_field :: "json \<Rightarrow> SignalMessage \<Rightarrow> SignalMessage option" where
  "candidate_field j r =
     (case j of
        JNull \<Rightarrow> Some (r \<lparr>sm_Candidate := None\<rparr>)
      | JObj ms \<Rightarrow>
          map_option (\<lambda>c. r \<lparr>sm_Candidate := Some c\<rparr>)
            (assign_members candidate_fields ms
              (case sm_Candidate r of None \<Rightarrow> zero_candidate | Some c \<Rightarrow> c))
      | _ \<Rightarrow> None)"

definition signal_unmarshal :: "string \<Rightarrow> gerror + SignalMessage" where
  "signal_unmarshal =
     unmarshal_struct [(''type'', str_field (\<lambda>s r. r \<lparr>sm_Type := s\<rparr>)),
                       (''sdp'', str_field (\<lambda>s r. r \<lparr>sm_SDP := s\<rparr>)),
                       (''candidate'', candidate_field)]
       \<lparr>sm_Type = [], sm_SDP = [], sm_Candidate = None\<rparr>"

definition sendSignal :: "SignalMessage \<Rightarrow> conn \<Rightarrow> gerror option \<times> conn" where
  "sendSignal msg c = write_message (signal_marshal msg) c"

definition readSignal :: "conn \<Rightarrow> (gerror + SignalMessage) \<times> conn" where
  "readSignal c =
     (case read_message (\<lambda>l. Errorf ''message too large'') c of
        (Inl e, c1) \<Rightarrow> (Inl e, c1)
      | (Inr b, c1) \<Rightarrow> (signal_unmarshal b, c1))"

abbreviation offer_msg :: "string \<Rightarrow> SignalMessage" where
  "offer_msg sdp \<equiv> \<lparr>sm_Type = ''offer'', sm_SDP = sdp, sm_Candidate = None\<rparr>"

abbreviation answer_msg :: "string \<Rightarrow> SignalMessage" where
  "answer_msg sdp \<equiv> \<lparr>sm_Type = ''answer'', sm_SDP = sdp, sm_Candidate = None\<rparr>"

abbreviation fallback_msg :: SignalMessage where
  "fallback_msg \<equiv> \<lparr>sm_Type = ''fallback'', sm_SDP = [], sm_Candidate = None\<rparr>"

abbreviation candidate_msg :: "ICECandidateInit \<Rightarrow> SignalMessage" where
  "candidate_msg c \<equiv> \<lparr>sm_Type = ''candidate'', sm_SDP = [], sm_Candidate = Some c\<rparr>"

section \<open>Negotiation\<close>

text \<open>How the wait for the data channel ends.\<close>

datatype nego_end = Opened | NegoCtx gerror | NegoTimeout

text \<open>The library during one negotiation: the error of each call, the local session description,
  the candidates that the callback sends before the offer or answer (\<open>early\<close>) and after it
  (\<open>late\<close>), how many messages the reading goroutine handles before the wait ends
  (\<open>reads\<close>), and how the wait ends.\<close>

record rtc =
  new_pc :: "gerror option"
  create_channel :: "gerror option"
  create_sdp :: "gerror + string"
  set_local :: "gerror option"
  set_remote :: "string \<Rightarrow> gerror option"
  early :: "ICECandidateInit list"
  late :: "ICECandidateInit list"
  reads :: nat
  ending :: nego_end

text \<open>What a negotiation leaves behind: the peer connection and the candidates given to it.\<close>

datatype peer_conn = NoPC | PCOpen "ICECandidateInit list" | PCClosed

fun send_candidates :: "ICECandidateInit list \<Rightarrow> conn \<Rightarrow> conn" where
  "send_candidates [] c = c"
| "send_candidates (i # is) c = send_candidates is (snd (sendSignal (candidate_msg i) c))"

text \<open>The goroutine that reads further signals and adds their candidates, until an error.\<close>

fun read_candidates :: "nat \<Rightarrow> conn \<Rightarrow> ICECandidateInit list \<times> conn" where
  "read_candidates 0 c = ([], c)"
| "read_candidates (Suc n) c =
     (case readSignal c of
        (Inl _, c1) \<Rightarrow> ([], c1)
      | (Inr msg, c1) \<Rightarrow>
          let (added, c2) = read_candidates n c1
          in (if sm_Type msg = ''candidate''
              then (case sm_Candidate msg of None \<Rightarrow> added | Some i \<Rightarrow> i # added) else added, c2))"

text \<open>The wait for the data channel, with the candidates that travel meanwhile.\<close>

definition await_channel :: "nego_end \<Rightarrow> gerror option" where
  "await_channel e =
     (case e of
        Opened \<Rightarrow> None
      | NegoCtx err \<Rightarrow> Some err
      | NegoTimeout \<Rightarrow> Some (Errorf ''timeout waiting for WebRTC connection''))"

definition await :: "rtc \<Rightarrow> conn \<Rightarrow> gerror option \<times> peer_conn \<times> conn" where
  "await r c =
     (let (added, c') = read_candidates (reads r) (send_candidates (late r) c)
      in case await_channel (ending r) of
           None \<Rightarrow> (None, PCOpen added, c')
         | Some e \<Rightarrow> (Some e, PCClosed, c'))"

text \<open>The client: no error stands for the established direct connection.\<close>

definition negotiateWebRTCClient :: "rtc \<Rightarrow> conn \<Rightarrow> gerror option \<times> peer_conn \<times> conn" where
  "negotiateWebRTCClient r c =
     (case new_pc r of Some e \<Rightarrow> (Some e, NoPC, c) | None \<Rightarrow>
      case create_channel r of Some e \<Rightarrow> (Some e, PCClosed, c) | None \<Rightarrow>
      case create_sdp r of Inl e \<Rightarrow> (Some e, PCClosed, c) | Inr sdp \<Rightarrow>
      let c0 = send_candidates (early r) c in
      case set_local r of Some e \<Rightarrow> (Some e, PCClosed, c0) | None \<Rightarrow>
      case sendSignal (offer_msg sdp) c0 of (Some e, c1) \<Rightarrow> (Some e, PCClosed, c1) | (None, c1) \<Rightarrow>
      case readSignal c1 of (Inl e, c2) \<Rightarrow> (Some e, PCClosed, c2) | (Inr resp, c2) \<Rightarrow>
        if sm_Type resp = ''fallback'' then (Some (Errorf ''server requested fallback''), PCClosed, c2)
        else if sm_Type resp \<noteq> ''answer'' then
          (Some (Errorf (''expected answer, got '' @ sm_Type resp)), PCClosed, c2)
        else case set_remote r (sm_SDP resp) of
               Some e \<Rightarrow> (Some e, PCClosed, c2)
             | None \<Rightarrow> await r c2)"

text \<open>The server also returns whether it fell back to the relay.\<close>

definition negotiateWebRTCServer :: "rtc \<Rightarrow> conn \<Rightarrow> (bool \<times> gerror option) \<times> peer_conn \<times> conn" where
  "negotiateWebRTCServer r c =
     (case readSignal c of (Inl e, c1) \<Rightarrow> ((False, Some e), NoPC, c1) | (Inr msg, c1) \<Rightarrow>
      if sm_Type msg = ''fallback'' then ((True, None), NoPC, c1)
      else if sm_Type msg \<noteq> ''offer'' then
        ((False, Some (Errorf (''expected offer, got '' @ sm_Type msg))), NoPC, c1)
      else
        case new_pc r of Some e \<Rightarrow> ((True, Some e), NoPC, snd (sendSignal fallback_msg c1)) | None \<Rightarrow>
        case set_remote r (sm_SDP msg) of
          Some e \<Rightarrow> ((True, Some e), PCClosed, snd (sendSignal fallback_msg c1)) | None \<Rightarrow>
        case create_sdp r of Inl e \<Rightarrow> ((True, Some e), PCClosed, snd (sendSignal fallback_msg c1)) | Inr sdp \<Rightarrow>
        let c0 = send_candidates (early r) c1 in
        case set_local r of Some e \<Rightarrow> ((True, Some e), PCClosed, snd (sendSignal fallback_msg c0)) | None \<Rightarrow>
        case sendSignal (answer_msg sdp) c0 of
          (Some e, c2) \<Rightarrow> ((False, Some e), PCClosed, c2)
        | (None, c2) \<Rightarrow> (let (err, pc, c3) = await r c2 in ((False, err), pc, c3)))"

section \<open>The direct connection\<close>

definition WebRTCConn_LocalAddr :: addr where
  "WebRTCConn_LocalAddr = TCPAddr [] 0"

definition WebRTCConn_RemoteAddr :: addr where
  "WebRTCConn_RemoteAddr = TCPAddr [] 0"

text \<open>\<^verbatim>\<open>CloseWrite\<close> polls until the send buffer is empty or the deadline has passed, then closes
  the channel but not the peer connection; \<^verbatim>\<open>Close\<close> closes both.  The list holds the buffered
  amounts that the polls see, until the deadline.\<close>

record rtc_conn =
  channel_open :: bool
  pc_open :: bool
  unsent :: nat

fun flush :: "nat list \<Rightarrow> rtc_conn \<Rightarrow> rtc_conn" where
  "flush [] s = s"
| "flush (n # ns) s = (if unsent s = 0 then s else flush ns (s \<lparr>unsent := n\<rparr>))"

definition CloseWrite :: "nat list \<Rightarrow> rtc_conn \<Rightarrow> rtc_conn" where
  "CloseWrite polls s = (flush polls s) \<lparr>channel_open := False\<rparr>"

definition Close :: "rtc_conn \<Rightarrow> rtc_conn" where
  "Close s = s \<lparr>channel_open := False, pc_open := False\<rparr>"

section \<open>The message type keeps the codec contract\<close>

definition candidate_wf :: "ICECandidateInit \<Rightarrow> bool" where
  "candidate_wf c \<longleftrightarrow> valid_utf8 (ci_Candidate c) \<and> pred_option valid_utf8 (ci_SDPMid c)
     \<and> pred_option valid_utf8 (ci_UsernameFragment c)"

definition signal_wf :: "SignalMessage \<Rightarrow> bool" where
  "signal_wf m \<longleftrightarrow> valid_utf8 (sm_Type m) \<and> valid_utf8 (sm_SDP m) \<and> pred_option candidate_wf (sm_Candidate m)"

lemma signal_keys [json_fields]:
  "valid_utf8 ''type''" "valid_utf8 ''sdp''" "valid_utf8 ''candidate''" "valid_utf8 ''sdpMid''"
  "valid_utf8 ''sdpMLineIndex''" "valid_utf8 ''usernameFragment''"
  by (simp_all add: valid_utf8_ascii is_ascii_def)

lemma candidate_json_ok: "candidate_wf c \<Longrightarrow> json_ok (JObj (candidate_members c))"
  by (auto simp: candidate_wf_def candidate_members_def json_fields opt_str_json_def nat_lit_show_nat
      split: option.splits)

lemma candidate_json_depth: "json_depth (JObj (candidate_members c)) \<le> 1"
  by (auto simp: candidate_members_def opt_str_json_def split: option.splits)

lemma json_depth_obj: "(\<And>m. m \<in> set ms \<Longrightarrow> json_depth (snd m) \<le> b) \<Longrightarrow> json_depth (JObj ms) \<le> Suc b"
  by (simp add: fold_max_le)

lemma find_candidate_fields [json_fields]:
  "find_field candidate_fields ''candidate'' = Some (str_field (\<lambda>s r. r \<lparr>ci_Candidate := s\<rparr>))"
  "find_field candidate_fields ''sdpMid'' = Some (opt_str_field (\<lambda>s r. r \<lparr>ci_SDPMid := s\<rparr>))"
  "find_field candidate_fields ''sdpMLineIndex'' = Some (opt_u16_field (\<lambda>i r. r \<lparr>ci_SDPMLineIndex := i\<rparr>))"
  "find_field candidate_fields ''usernameFragment'' = Some (opt_str_field (\<lambda>s r. r \<lparr>ci_UsernameFragment := s\<rparr>))"
  by (simp_all add: find_field_def candidate_fields_def)

lemma assign_candidate: "assign_members candidate_fields (candidate_members c) zero_candidate = Some c"
  by (cases c) (auto simp: candidate_members_def json_fields opt_str_json_def
      opt_str_field_def opt_u16_field_def u16_field_show_nat zero_candidate_def split: option.splits)

lemma find_signal_fields [json_fields]:
  "find_field [(''type'', f), (''sdp'', g), (''candidate'', h)] ''type'' = Some f"
  "find_field [(''type'', f), (''sdp'', g), (''candidate'', h)] ''sdp'' = Some g"
  "find_field [(''type'', f), (''sdp'', g), (''candidate'', h)] ''candidate'' = Some h"
  by (simp_all add: find_field_def)

interpretation signal: message_codec signal_marshal signal_unmarshal signal_wf
proof unfold_locales
  fix m :: SignalMessage
  assume wf: "signal_wf m"
  let ?cs = "case sm_Candidate m of None \<Rightarrow> [] | Some c \<Rightarrow> [(''candidate'', JObj (candidate_members c))]"
  let ?ms = "(''type'', JStr (sm_Type m)) # omitempty_str ''sdp'' (sm_SDP m) @ ?cs"
  show "signal_unmarshal (signal_marshal m) = Inr m"
    unfolding signal_marshal_def signal_unmarshal_def signal_json_def
  proof (rule unmarshal_struct_print)
    show "json_ok (JObj ?ms)"
      using wf candidate_json_ok
      by (auto simp: signal_wf_def json_fields simp del: json_ok.simps(4) split: option.splits)
         (auto simp: json_fields)
    have "json_depth (JObj ?ms) \<le> Suc 1"
      by (rule json_depth_obj)
         (use candidate_json_depth in \<open>auto simp: omitempty_str_def simp del: json_depth.simps(2)
            split: option.splits if_splits\<close>)
    then show "json_depth (JObj ?ms) \<le> maxNestingDepth" by (simp add: maxNestingDepth_def)
    show "assign_members [(''type'', str_field (\<lambda>s r. r \<lparr>sm_Type := s\<rparr>)),
        (''sdp'', str_field (\<lambda>s r. r \<lparr>sm_SDP := s\<rparr>)), (''candidate'', candidate_field)] ?ms
        \<lparr>sm_Type = [], sm_SDP = [], sm_Candidate = None\<rparr> = Some m"
      by (cases m) (auto simp: json_fields candidate_field_def
          assign_candidate split: option.splits)
  qed
qed

section \<open>Properties\<close>

lemma readSignal_frame:
  assumes "signal_wf m" and "length (signal_marshal m) \<le> max_message"
    and "rx c = frame (signal_marshal m) @ rest"
  shows "readSignal c = (Inr m, c \<lparr>rx := rest\<rparr>)"
  by (rule signal.received [OF assms, of "\<lambda>l. Errorf ''message too large''"]) (simp add: readSignal_def)

lemma sendSignal_ok: "tx_room c = None \<Longrightarrow> sendSignal m c = (None, c \<lparr>tx := tx c @ frame (signal_marshal m)\<rparr>)"
  by (simp add: sendSignal_def write_message_ok)

lemma sdp_messages_wf:
  "signal_wf (offer_msg sdp) \<longleftrightarrow> valid_utf8 sdp" "signal_wf (answer_msg sdp) \<longleftrightarrow> valid_utf8 sdp"
  "signal_wf fallback_msg" "signal_wf (candidate_msg i) \<longleftrightarrow> candidate_wf i"
  by (simp_all add: signal_wf_def valid_utf8_ascii is_ascii_def)

lemma fallback_short: "length (signal_marshal fallback_msg) \<le> max_message"
proof -
  have "length (signal_marshal fallback_msg) \<le> 1000"
    unfolding signal_marshal_def signal_json_def omitempty_str_def
    by (rule order_trans [OF length_json_print]) simp
  then show ?thesis by (rule short_enough)
qed

lemma send_candidates_ok:
  "tx_room c = None \<Longrightarrow>
   send_candidates is c = c \<lparr>tx := tx c @ concat (map (\<lambda>i. frame (signal_marshal (candidate_msg i))) is)\<rparr>"
  by (induction "is" arbitrary: c) (simp_all add: sendSignal_ok)

lemma read_candidates_frames:
  assumes "\<forall>i\<in>set is. candidate_wf i \<and> length (signal_marshal (candidate_msg i)) \<le> max_message"
    and "rx c = concat (map (\<lambda>i. frame (signal_marshal (candidate_msg i))) is)"
  shows "fst (read_candidates n c) = take n is" "tx (snd (read_candidates n c)) = tx c"
proof -
  have "fst (read_candidates n c) = take n is \<and> tx (snd (read_candidates n c)) = tx c"
    using assms
  proof (induction "is" arbitrary: c n)
    case Nil
    then show ?case
      by (cases n) (simp_all add: readSignal_def read_message_def read_full_def)
  next
    case (Cons i "is")
    let ?rest = "concat (map (\<lambda>i. frame (signal_marshal (candidate_msg i))) is)"
    have "readSignal c = (Inr (candidate_msg i), c \<lparr>rx := ?rest\<rparr>)"
      using Cons.prems by (intro readSignal_frame) (simp_all add: sdp_messages_wf)
    then show ?case using Cons.IH [of "c \<lparr>rx := ?rest\<rparr>"] Cons.prems(1)
      by (cases n) (simp_all add: case_prod_unfold Let_def)
  qed
  then show "fst (read_candidates n c) = take n is" "tx (snd (read_candidates n c)) = tx c" by simp_all
qed

text \<open>A library in which every call succeeds, no candidate is sent before the description, and
  every message fits into a frame.\<close>

definition rtc_ready :: "string \<Rightarrow> string \<Rightarrow> rtc \<Rightarrow> bool" where
  "rtc_ready sdp remote r \<longleftrightarrow>
     new_pc r = None \<and> create_channel r = None \<and> create_sdp r = Inr sdp \<and> set_local r = None
     \<and> set_remote r remote = None \<and> early r = [] \<and> valid_utf8 sdp
     \<and> list_all (\<lambda>i. candidate_wf i \<and> length (signal_marshal (candidate_msg i)) \<le> max_message) (late r)"

definition candidate_frames :: "rtc \<Rightarrow> bytes" where
  "candidate_frames r = concat (map (\<lambda>i. frame (signal_marshal (candidate_msg i))) (late r))"

lemma await_result:
  assumes "tx_room c = None" and "rx c = candidate_frames r'" and "rtc_ready sdp remote r'"
  obtains c' where "await r c =
      (await_channel (ending r), if ending r = Opened then PCOpen (take (reads r) (late r')) else PCClosed, c')"
    "tx c' = tx c @ candidate_frames r"
proof -
  let ?c = "c \<lparr>tx := tx c @ candidate_frames r\<rparr>"
  have s: "send_candidates (late r) c = ?c"
    using assms(1) by (simp add: send_candidates_ok candidate_frames_def)
  have "\<forall>i\<in>set (late r'). candidate_wf i \<and> length (signal_marshal (candidate_msg i)) \<le> max_message"
    using assms(3) by (simp add: rtc_ready_def list_all_iff)
  from read_candidates_frames [OF this, of ?c "reads r"] assms(2)
  have "fst (read_candidates (reads r) ?c) = take (reads r) (late r')"
    "tx (snd (read_candidates (reads r) ?c)) = tx c @ candidate_frames r"
    by (simp_all add: candidate_frames_def)
  then show ?thesis using that [of "snd (read_candidates (reads r) ?c)"]
    by (cases "ending r") (simp_all add: await_def s await_channel_def case_prod_unfold Let_def)
qed

lemma client_negotiates:
  assumes "rtc_ready offer answer rc" and "rtc_ready answer offer rs"
    and "length (signal_marshal (answer_msg answer)) \<le> max_message"
    and "tx_room c = None" and "rx c = frame (signal_marshal (answer_msg answer)) @ candidate_frames rs"
  obtains cc where "negotiateWebRTCClient rc c =
      (await_channel (ending rc), if ending rc = Opened then PCOpen (take (reads rc) (late rs)) else PCClosed, cc)"
    "tx cc = tx c @ frame (signal_marshal (offer_msg offer)) @ candidate_frames rc"
proof -
  let ?c = "c \<lparr>tx := tx c @ frame (signal_marshal (offer_msg offer))\<rparr>"
  have "valid_utf8 answer" using assms(2) by (simp add: rtc_ready_def)
  then have "readSignal ?c = (Inr (answer_msg answer), ?c \<lparr>rx := candidate_frames rs\<rparr>)"
    using assms(3,5) by (intro readSignal_frame) (simp_all add: sdp_messages_wf)
  then have n: "negotiateWebRTCClient rc c = await rc (?c \<lparr>rx := candidate_frames rs\<rparr>)"
    using assms(1,4) by (simp add: rtc_ready_def negotiateWebRTCClient_def sendSignal_ok)
  show thesis
    by (rule await_result [OF _ _ assms(2), of "?c \<lparr>rx := candidate_frames rs\<rparr>" rc])
       (use assms(4) n that in simp_all)
qed

lemma server_negotiates:
  assumes "rtc_ready answer offer rs" and "rtc_ready offer answer rc"
    and "length (signal_marshal (offer_msg offer)) \<le> max_message"
    and "tx_room c = None" and "rx c = frame (signal_marshal (offer_msg offer)) @ candidate_frames rc"
  obtains cs where "negotiateWebRTCServer rs c =
      ((False, await_channel (ending rs)), if ending rs = Opened then PCOpen (take (reads rs) (late rc)) else PCClosed, cs)"
    "tx cs = tx c @ frame (signal_marshal (answer_msg answer)) @ candidate_frames rs"
proof -
  let ?c = "c \<lparr>rx := candidate_frames rc, tx := tx c @ frame (signal_marshal (answer_msg answer))\<rparr>"
  have "valid_utf8 offer" using assms(2) by (simp add: rtc_ready_def)
  then have "readSignal c = (Inr (offer_msg offer), c \<lparr>rx := candidate_frames rc\<rparr>)"
    using assms(3,5) by (intro readSignal_frame) (simp_all add: sdp_messages_wf)
  then have n: "negotiateWebRTCServer rs c = (let (err, pc, c3) = await rs ?c in ((False, err), pc, c3))"
    using assms(1,4) by (simp add: rtc_ready_def negotiateWebRTCServer_def sendSignal_ok)
  show thesis
    by (rule await_result [OF _ _ assms(2), of ?c rs]) (use assms(4) n that in simp_all)
qed

text \<open>A sample library for the concrete instances below.\<close>

definition sample_candidate :: ICECandidateInit where
  "sample_candidate = zero_candidate \<lparr>ci_Candidate := ''c'', ci_SDPMLineIndex := Some 0\<rparr>"

definition sample_rtc :: "string \<Rightarrow> rtc" where
  "sample_rtc sdp = \<lparr>new_pc = None, create_channel = None, create_sdp = Inr sdp, set_local = None,
     set_remote = (\<lambda>s. if s = [] then Some EOF else None), early = [], late = [sample_candidate], reads = 2,
     ending = Opened\<rparr>"

lemma sample_messages_short:
  "length (signal_marshal (offer_msg ''o'')) \<le> max_message"
  "length (signal_marshal (answer_msg ''a'')) \<le> max_message"
  "length (signal_marshal (candidate_msg sample_candidate)) \<le> max_message"
proof -
  have z: "show_nat 0 = ''0''" by (subst show_nat.simps) (simp add: digit_char_def char_of_def bit_0)
  note [simp] = signal_marshal_def signal_json_def omitempty_str_def
  show "length (signal_marshal (offer_msg ''o'')) \<le> max_message"
    by (rule short_enough, unfold signal_marshal_def, rule order_trans [OF length_json_print]) simp
  show "length (signal_marshal (answer_msg ''a'')) \<le> max_message"
    by (rule short_enough, unfold signal_marshal_def, rule order_trans [OF length_json_print]) simp
  show "length (signal_marshal (candidate_msg sample_candidate)) \<le> max_message"
    by (rule short_enough, unfold signal_marshal_def, rule order_trans [OF length_json_print])
       (simp add: sample_candidate_def zero_candidate_def candidate_members_def opt_str_json_def z)
qed

lemma sample_candidate_wf: "candidate_wf sample_candidate"
  by (simp add: candidate_wf_def sample_candidate_def zero_candidate_def valid_utf8_ascii is_ascii_def)

lemma sample_rtc_ready: "rtc_ready ''o'' ''a'' (sample_rtc ''o'')" "rtc_ready ''a'' ''o'' (sample_rtc ''a'')"
  using sample_messages_short sample_candidate_wf
  by (simp_all add: rtc_ready_def sample_rtc_def valid_utf8_ascii is_ascii_def)



text \<open>when the server cannot take part, both ends stay on the relay: the server reports the
  fallback, a client that reads what the server sent reports that too, and no peer
  connection stays open.\<close>

theorem fallback_agrees:
  assumes "new_pc rs = Some e \<or> new_pc rs = None \<and> set_remote rs offer = Some e
      \<or> new_pc rs = None \<and> set_remote rs offer = None \<and> create_sdp rs = Inl e"
    and "length (signal_marshal (offer_msg offer)) \<le> max_message"
    and "rtc_ready offer answer rc"
  shows "\<exists>pc cs cc.
      negotiateWebRTCServer rs (conn_of (frame (signal_marshal (offer_msg offer)))) = ((True, Some e), pc, cs)
    \<and> pc \<in> {NoPC, PCClosed}
    \<and> negotiateWebRTCClient rc (conn_of (tx cs)) =
        (Some (Errorf ''server requested fallback''), PCClosed, cc)"
proof -
  have u: "valid_utf8 offer" using assms(3) by (simp add: rtc_ready_def)
  have o: "readSignal (conn_of (frame (signal_marshal (offer_msg offer)))) = (Inr (offer_msg offer), conn_of [])"
    using readSignal_frame [of "offer_msg offer" _ "[]"] assms(2) u by (simp add: sdp_messages_wf)
  have "\<exists>pc. negotiateWebRTCServer rs (conn_of (frame (signal_marshal (offer_msg offer)))) =
      ((True, Some e), pc, (conn_of []) \<lparr>tx := frame (signal_marshal fallback_msg)\<rparr>) \<and> pc \<in> {NoPC, PCClosed}"
    using assms(1) o by (auto simp: negotiateWebRTCServer_def sendSignal_ok)
  then obtain pc where s: "negotiateWebRTCServer rs (conn_of (frame (signal_marshal (offer_msg offer)))) =
      ((True, Some e), pc, (conn_of []) \<lparr>tx := frame (signal_marshal fallback_msg)\<rparr>)" "pc \<in> {NoPC, PCClosed}"
    by blast
  have f: "readSignal ((conn_of (frame (signal_marshal fallback_msg))) \<lparr>tx := t\<rparr>) =
      (Inr fallback_msg, (conn_of []) \<lparr>tx := t\<rparr>)" for t
    using readSignal_frame [of fallback_msg _ "[]"] fallback_short by (simp add: sdp_messages_wf)
  have "\<exists>cc. negotiateWebRTCClient rc (conn_of (frame (signal_marshal fallback_msg))) =
      (Some (Errorf ''server requested fallback''), PCClosed, cc)"
    using assms(3) f by (simp add: rtc_ready_def negotiateWebRTCClient_def sendSignal_ok)
  then show ?thesis
    by (rule exE, intro exI conjI) (rule s, rule s, simp)
qed

theorem fallback_agrees_witness:
  "\<exists>pc cs cc.
      negotiateWebRTCServer ((sample_rtc ''a'') \<lparr>new_pc := Some EOF\<rparr>)
        (conn_of (frame (signal_marshal (offer_msg ''o'')))) = ((True, Some EOF), pc, cs)
    \<and> pc \<in> {NoPC, PCClosed}
    \<and> negotiateWebRTCClient (sample_rtc ''o'') (conn_of (tx cs)) =
        (Some (Errorf ''server requested fallback''), PCClosed, cc)"
  by (rule fallback_agrees [OF _ sample_messages_short(1) sample_rtc_ready(1)]) simp

lemma await_no_leak: "await r c = (err, pc, c') \<Longrightarrow> err = None \<or> pc = PCClosed"
  by (cases "ending r") (auto simp: await_def await_channel_def case_prod_unfold Let_def)

lemma client_no_leak:
  assumes "negotiateWebRTCClient r c = (Some e, pc, c')"
  shows "pc = NoPC \<or> pc = PCClosed"
proof (rule ccontr)
  assume n: "\<not> ?thesis"
  have "\<exists>c1. await r c1 = (Some e, pc, c')"
    using assms n unfolding negotiateWebRTCClient_def Let_def
    by (auto split: option.split_asm sum.split_asm prod.split_asm if_split_asm)
  with n show False using await_no_leak by fastforce
qed

lemma server_no_leak:
  assumes "negotiateWebRTCServer r c = ((fb, err), pc, c')" and "fb \<or> err \<noteq> None"
  shows "pc = NoPC \<or> pc = PCClosed"
proof (rule ccontr)
  assume n: "\<not> ?thesis"
  have "\<not> fb \<and> (\<exists>c1. await r c1 = (err, pc, c'))"
    using assms(1) n unfolding negotiateWebRTCServer_def Let_def
    by (auto split: option.split_asm sum.split_asm prod.split_asm if_split_asm)
  with n assms(2) show False using await_no_leak by fastforce
qed

text \<open>C30: a negotiation that fails leaves no peer connection open, at either end and on every
  path, whatever the library and the other end do.\<close>

theorem failed_negotiation_leaks_nothing:
  "(fst (negotiateWebRTCClient rc c) \<noteq> None \<longrightarrow> fst (snd (negotiateWebRTCClient rc c)) \<in> {NoPC, PCClosed})
   \<and> (fst (negotiateWebRTCServer rs c) \<noteq> (False, None) \<longrightarrow>
      fst (snd (negotiateWebRTCServer rs c)) \<in> {NoPC, PCClosed})"
  by (cases "negotiateWebRTCClient rc c"; cases "negotiateWebRTCServer rs c")
     (auto dest: client_no_leak server_no_leak)

lemma readSignal_tx: "readSignal c = (r, c') \<Longrightarrow> tx c' = tx c \<and> tx_room c' = tx_room c"
  by (auto simp: readSignal_def read_message_def read_full_def Let_def
      split: prod.split_asm sum.split_asm if_split_asm)

lemma read_candidates_tx: "tx (snd (read_candidates n c)) = tx c"
proof (induction n arbitrary: c)
  case (Suc n)
  obtain r c1 where "readSignal c = (r, c1)" by (cases "readSignal c")
  then show ?case using Suc.IH [of c1] readSignal_tx [of c r c1]
    by (cases r) (simp_all add: case_prod_unfold Let_def)
qed simp

lemma await_tx: "await r c = (err, pc, c') \<Longrightarrow> tx_room c = None \<Longrightarrow> \<exists>rest. tx c' = tx c @ rest"
  by (cases "ending r")
     (auto simp: await_def await_channel_def case_prod_unfold Let_def read_candidates_tx send_candidates_ok)

lemma client_tx:
  assumes "new_pc r = None" and "create_channel r = None" and "create_sdp r = Inr sdp"
    and "negotiateWebRTCClient r c = (err, pc, c')" and "tx_room c = None"
  shows "\<exists>rest. tx c' = tx c @ concat (map (\<lambda>i. frame (signal_marshal (candidate_msg i))) (early r)) @ rest"
proof (cases "set_local r")
  case (Some e)
  with assms show ?thesis by (auto simp: negotiateWebRTCClient_def send_candidates_ok)
next
  case None
  let ?c = "c \<lparr>tx := tx c @ concat (map (\<lambda>i. frame (signal_marshal (candidate_msg i))) (early r))
      @ frame (signal_marshal (offer_msg sdp))\<rparr>"
  obtain m c2 where m: "readSignal ?c = (m, c2)" by (cases "readSignal ?c")
  have t: "tx c2 = tx ?c" "tx_room c2 = None" using readSignal_tx [OF m] assms(5) by simp_all
  have "c' = c2 \<or> await r c2 = (err, pc, c')"
    using assms None m
    by (auto simp: negotiateWebRTCClient_def send_candidates_ok sendSignal_ok
        split: sum.split_asm if_split_asm option.split_asm)
  then show ?thesis using await_tx [OF _ t(2)] t(1) by fastforce
qed

theorem failed_negotiation_leaks_nothing_witness:
  "fst (negotiateWebRTCClient ((sample_rtc ''o'') \<lparr>create_channel := Some EOF\<rparr>) (conn_of [])) = Some EOF
   \<and> fst (snd (negotiateWebRTCClient ((sample_rtc ''o'') \<lparr>create_channel := Some EOF\<rparr>) (conn_of [])))
       \<in> {NoPC, PCClosed}"
  using failed_negotiation_leaks_nothing [of "(sample_rtc ''o'') \<lparr>create_channel := Some EOF\<rparr>" "conn_of []"]
  by (simp add: negotiateWebRTCClient_def sample_rtc_def)

text \<open>a candidate that overtakes the offer ends the upgrade: the server takes it for a protocol
  error, although both ends could have established the direct connection.\<close>

theorem early_candidate_breaks_negotiation:
  assumes "rtc_ready offer answer (rc \<lparr>early := []\<rparr>)" and "early rc = i # others"
    and "candidate_wf i" and "length (signal_marshal (candidate_msg i)) \<le> max_message"
    and "negotiateWebRTCClient rc (conn_of bs) = (err, pc, cc)"
  shows "\<exists>cs. negotiateWebRTCServer rs (conn_of (tx cc)) =
    ((False, Some (Errorf ''expected offer, got candidate'')), NoPC, cs)"
proof -
  obtain rest where t: "tx cc = frame (signal_marshal (candidate_msg i)) @ rest"
    using client_tx [OF _ _ _ assms(5)] assms(1,2) by (auto simp: rtc_ready_def)
  have "readSignal (conn_of (tx cc)) = (Inr (candidate_msg i), (conn_of (tx cc)) \<lparr>rx := rest\<rparr>)"
    by (rule readSignal_frame) (use assms(3,4) t in \<open>simp_all add: sdp_messages_wf\<close>)
  then show ?thesis by (simp add: negotiateWebRTCServer_def)
qed

lemma prod_parts: "p = (fst p, fst (snd p), snd (snd p))"
  by simp

theorem early_candidate_breaks_negotiation_witness:
  "\<exists>cs. negotiateWebRTCServer (sample_rtc ''a'')
      (conn_of (tx (snd (snd (negotiateWebRTCClient ((sample_rtc ''o'') \<lparr>early := [sample_candidate]\<rparr>) (conn_of []))))))
    = ((False, Some (Errorf ''expected offer, got candidate'')), NoPC, cs)"
  by (rule early_candidate_breaks_negotiation [where rc = "(sample_rtc ''o'') \<lparr>early := [sample_candidate]\<rparr>"
        and i = sample_candidate and offer = "''o''" and answer = "''a''" and bs = "[]", OF _ _ _ _ prod_parts])
     (use sample_rtc_ready(1) sample_candidate_wf sample_messages_short(3) in
        \<open>simp_all add: sample_rtc_def rtc_ready_def\<close>)



end
