(* ===== verification/Step_Systems.thy ===== *)
theory Step_Systems
  imports Main
begin

text \<open>
  Step relations, shared by the components that run several goroutines: the states that can be
  reached, runs with a number of steps, and the contracts of an invariant, of a rank that every
  step lowers, and of a loop that handles one event after the other.
\<close>

section \<open>Reachable states and runs\<close>

inductive reachable :: "('s \<Rightarrow> 's \<Rightarrow> bool) \<Rightarrow> 's \<Rightarrow> 's \<Rightarrow> bool" for step s0 where
  Start: "reachable step s0 s0"
| Step: "reachable step s0 s \<Longrightarrow> step s s' \<Longrightarrow> reachable step s0 s'"

inductive steps :: "('s \<Rightarrow> 's \<Rightarrow> bool) \<Rightarrow> nat \<Rightarrow> 's \<Rightarrow> 's \<Rightarrow> bool" for step where
  Done: "steps step 0 s s"
| More: "step s s' \<Longrightarrow> steps step k s' s'' \<Longrightarrow> steps step (Suc k) s s''"

inductive_simps steps_zero [simp]: "steps step 0 s s'"
inductive_simps steps_Suc: "steps step (Suc k) s s'"

lemma reachable_one: "step s s' \<Longrightarrow> reachable step s s'"
  by (rule reachable.Step [OF reachable.Start])

lemma reachable_trans: "reachable step s s' \<Longrightarrow> reachable step s0 s \<Longrightarrow> reachable step s0 s'"
  by (induction rule: reachable.induct) (auto intro: reachable.Step)

lemma steps_reachable: "steps step k s s' \<Longrightarrow> reachable step s s'"
proof (induction rule: steps.induct)
  case (More s s' k s'')
  then show ?case by (blast intro: reachable_trans [OF _ reachable_one])
qed (rule reachable.Start)

definition final :: "('s \<Rightarrow> 's \<Rightarrow> bool) \<Rightarrow> 's \<Rightarrow> bool" where
  "final step s \<longleftrightarrow> (\<forall>s'. \<not> step s s')"

section \<open>Invariants\<close>

locale step_invariant =
  fixes step :: "'s \<Rightarrow> 's \<Rightarrow> bool" and start :: 's and inv :: "'s \<Rightarrow> bool"
  assumes inv_start: "inv start"
    and inv_step: "step s s' \<Longrightarrow> inv s \<Longrightarrow> inv s'"
begin

lemma inv_from: "reachable step s s' \<Longrightarrow> inv s \<Longrightarrow> inv s'"
  by (induction rule: reachable.induct) (auto intro: inv_step)

lemma inv_reachable: "reachable step start s \<Longrightarrow> inv s"
  using inv_from inv_start by blast

end

text \<open>Every step lowers the rank of a state, so every run ends, wherever it starts.\<close>

locale ranked_system = step_invariant +
  fixes rank :: "'s \<Rightarrow> nat"
  assumes rank_step: "step s s' \<Longrightarrow> inv s \<Longrightarrow> rank s' < rank s"
begin

lemma run_bound: "steps step k s s' \<Longrightarrow> inv s \<Longrightarrow> k + rank s' \<le> rank s"
proof (induction rule: steps.induct)
  case (More s s' k s'')
  then show ?case using rank_step [OF More(1)] inv_step [OF More(1)] by fastforce
qed simp

lemma run_ends: "inv s \<Longrightarrow> \<exists>k s'. steps step k s s' \<and> final step s'"
proof (induction "rank s" arbitrary: s rule: less_induct)
  case less
  show ?case
  proof (cases "final step s")
    case True
    have "steps step 0 s s" by (rule steps.Done)
    with True show ?thesis by blast
  next
    case False
    then obtain t where t: "step s t" by (auto simp: final_def)
    obtain k s' where "steps step k t s'" "final step s'"
      using less.hyps [OF rank_step [OF t less.prems] inv_step [OF t less.prems]] by blast
    then show ?thesis using steps.More [of step, OF t] by (intro exI conjI)
  qed
qed

lemma end_reachable: "reachable step start s \<Longrightarrow> \<exists>s'. reachable step s s' \<and> final step s'"
  by (drule inv_reachable, drule run_ends) (blast dest: steps_reachable)

end

section \<open>Simulation\<close>

text \<open>An abstract system that promises less detail: every step of the system is one of its steps, or
  cannot be seen.  Only states that keep the invariant matter.\<close>

locale simulation = step_invariant +
  fixes view :: "'s \<Rightarrow> 'a" and spec :: "'a \<Rightarrow> 'a \<Rightarrow> bool"
  assumes abs_step: "step s s' \<Longrightarrow> inv s \<Longrightarrow> view s' = view s \<or> spec (view s) (view s')"
begin

lemma abs_reachable: "reachable step s s' \<Longrightarrow> inv s \<Longrightarrow> reachable spec (view s) (view s')"
proof (induction rule: reachable.induct)
  case Start
  show ?case by (rule reachable.Start)
next
  case (Step t t')
  then have "view t' = view t \<or> spec (view t) (view t')" using abs_step inv_from by blast
  then show ?case using Step by (auto intro: reachable.Step)
qed

end

text \<open>What both the race for a relay and the netcat mode promise: one choice, which is never taken
  back.\<close>

datatype 'a choice = Undecided | Chosen 'a | GaveUp

inductive settle :: "'a choice \<Rightarrow> 'a choice \<Rightarrow> bool" where
  Choose: "settle Undecided (Chosen x)"
| GiveUp: "settle Undecided GaveUp"

inductive_cases settle_ChosenE [elim!]: "settle (Chosen x) d"
inductive_cases settle_GaveUpE [elim!]: "settle GaveUp d"

lemma choice_stays: "reachable settle c d \<Longrightarrow> c \<noteq> Undecided \<Longrightarrow> d = c"
  by (induction rule: reachable.induct) (cases c; auto)+

section \<open>Event loops\<close>

text \<open>A loop that handles one event after the other; the invariant speaks about the events so far.\<close>

locale event_loop =
  fixes handle :: "'e \<Rightarrow> 's \<Rightarrow> 's" and begin_state :: 's and linv :: "'e list \<Rightarrow> 's \<Rightarrow> bool"
  assumes linv_start: "linv [] begin_state"
    and linv_event: "linv evs s \<Longrightarrow> linv (evs @ [ev]) (handle ev s)"

sublocale event_loop \<subseteq> history: step_invariant
  "\<lambda>t t'. \<exists>ev. t' = (fst t @ [ev], handle ev (snd t))" "([], begin_state)" "\<lambda>t. linv (fst t) (snd t)"
  by unfold_locales (simp add: linv_start, force intro: linv_event)

context event_loop
begin

lemma history_reachable:
  "reachable (\<lambda>t t'. \<exists>ev. t' = (fst t @ [ev], handle ev (snd t))) ([], begin_state) (evs, fold handle evs begin_state)"
proof (induction evs rule: rev_induct)
  case Nil
  then show ?case using reachable.Start by simp
next
  case (snoc ev evs)
  then show ?case by (rule reachable.Step) simp
qed

lemma linv_fold: "linv evs (fold handle evs begin_state)"
  using history.inv_reachable [OF history_reachable [of evs]] unfolding fst_conv snd_conv .

end

end
