(* ===== verification/Io_Copy.thy ===== *)
theory Io_Copy
  imports Net_Conn Step_Systems
begin

text \<open>
  Copying between streams: \<^verbatim>\<open>CopyWithTrace\<close> (\<^verbatim>\<open>logging.go\<close>), the netcat pipe
  \<^verbatim>\<open>pipeBiDirectional\<close> (\<^verbatim>\<open>main.go\<close>) and the pair of copies that forwarding uses
  (\<^verbatim>\<open>pipeConns\<close> in \<^verbatim>\<open>socks.go\<close>, and the copies of \<^verbatim>\<open>main.go\<close> and \<^verbatim>\<open>reverse_forward.go\<close>).
  A reader is the sequence of what its reads return, a writer a function on its state.
  The locale \<open>writer\<close> is the contract of \<^verbatim>\<open>io.Writer\<close>; under it a copy delivers a prefix
  of its source, counts it correctly, and delivers all of it unless it reports an error.
\<close>

section \<open>CopyWithTrace\<close>

type_synonym reads = "(bytes \<times> gerror option) list"
type_synonym 's write_fun = "'s \<Rightarrow> bytes \<Rightarrow> (int \<times> gerror option) \<times> 's"

text \<open>What one write means to the loop: the bytes that count as written, and the error that ends
  the copy.\<close>

definition copy_write :: "nat \<Rightarrow> int \<times> gerror option \<Rightarrow> int \<times> gerror option" where
  "copy_write nr w =
     (let (nw0, ew0) = w;
          bad = (nw0 < 0 \<or> int nr < nw0);
          nw = (if bad then 0 else nw0);
          ew = (if bad \<and> ew0 = None then Some ErrShortWrite else ew0)
      in (nw, if ew \<noteq> None then ew else if int nr \<noteq> nw then Some ErrShortWrite else None))"

text \<open>The loop.  The result is \<open>None\<close> while the source has neither ended nor failed.\<close>

fun copy_loop :: "'s write_fun \<Rightarrow> reads \<Rightarrow> 's \<Rightarrow> int \<Rightarrow> (int \<times> gerror option) option \<times> 's" where
  "copy_loop wr [] s written = (None, s)"
| "copy_loop wr ((chunk, er) # rs) s written =
     (let ((nw, ew), s1) =
            (if chunk = [] then ((0, None), s)
             else case wr s chunk of (w, s') \<Rightarrow> (copy_write (length chunk) w, s'))
      in case ew of
           Some e \<Rightarrow> (Some (written + nw, Some e), s1)
         | None \<Rightarrow>
             (case er of
                None \<Rightarrow> copy_loop wr rs s1 (written + nw)
              | Some e \<Rightarrow> (Some (written + nw, if e = EOF then None else Some e), s1)))"

definition CopyWithTrace :: "'s write_fun \<Rightarrow> reads \<Rightarrow> 's \<Rightarrow> (int \<times> gerror option) option \<times> 's" where
  "CopyWithTrace wr rs s = copy_loop wr rs s 0"

text \<open>The bytes that a reader delivers up to its first error.\<close>

fun delivered :: "reads \<Rightarrow> bytes" where
  "delivered [] = []"
| "delivered ((chunk, er) # rs) = chunk @ (case er of None \<Rightarrow> delivered rs | Some e \<Rightarrow> [])"

fun read_error :: "reads \<Rightarrow> gerror option" where
  "read_error [] = None"
| "read_error ((chunk, er) # rs) = (case er of None \<Rightarrow> read_error rs | Some e \<Rightarrow> Some e)"

section \<open>The contract of a writer\<close>

locale writer =
  fixes wr :: "'s write_fun" and taken :: "'s \<Rightarrow> bytes"
  assumes write_bounds: "wr s bs = ((n, e), s') \<Longrightarrow> 0 \<le> n \<and> n \<le> int (length bs)"
    and write_short: "wr s bs = ((n, None), s') \<Longrightarrow> n = int (length bs)"
    and write_taken: "wr s bs = ((n, e), s') \<Longrightarrow> taken s' = taken s @ take (nat n) bs"
begin

lemma copy_write_ok: "wr s bs = (w, s') \<Longrightarrow> copy_write (length bs) w = w"
proof -
  assume w: "wr s bs = (w, s')"
  obtain n e where ne: "w = (n, e)" by fastforce
  then have "0 \<le> n" "n \<le> int (length bs)" "e = None \<Longrightarrow> n = int (length bs)"
    using w write_bounds write_short by blast+
  then show ?thesis by (cases e) (auto simp: copy_write_def ne Let_def)
qed

lemma copy_loop_taken:
  "copy_loop wr rs s n = (r, s') \<Longrightarrow>
   \<exists>out. taken s' = taken s @ out \<and> prefix out (delivered rs)
     \<and> (case r of
          None \<Rightarrow> out = delivered rs \<and> read_error rs = None
        | Some (m, e) \<Rightarrow> m = n + int (length out)
            \<and> (e = None \<longrightarrow> out = delivered rs \<and> read_error rs = Some EOF))"
proof (induction rs arbitrary: s n)
  case (Cons p rs)
  obtain chunk er where p: "p = (chunk, er)" by fastforce
  obtain nw ew s1 where w: "(if chunk = [] then ((0, None), s) else wr s chunk) = ((nw, ew), s1)"
    by (metis surj_pair)
  have cw: "(if chunk = [] then ((0, None), s)
      else case wr s chunk of (w, s') \<Rightarrow> (copy_write (length chunk) w, s')) = ((nw, ew), s1)"
    using w copy_write_ok by (auto split: if_splits prod.splits)
  have t: "taken s1 = taken s @ take (nat nw) chunk" "0 \<le> nw" "nw \<le> int (length chunk)"
      "ew = None \<Longrightarrow> nw = int (length chunk)"
    using w write_taken write_bounds write_short by (auto split: if_splits)
  have step: "copy_loop wr (p # rs) s n =
      (case ew of
         Some e \<Rightarrow> (Some (n + nw, Some e), s1)
       | None \<Rightarrow> (case er of
                    None \<Rightarrow> copy_loop wr rs s1 (n + nw)
                  | Some e \<Rightarrow> (Some (n + nw, if e = EOF then None else Some e), s1)))"
    by (simp only: p copy_loop.simps cw Let_def prod.case)
  show ?case
  proof (cases ew)
    case (Some e)
    then have "r = Some (n + nw, Some e)" "s' = s1" using Cons.prems step by auto
    moreover have "prefix (take (nat nw) chunk) (delivered (p # rs))"
      by (simp add: p prefix_append take_is_prefix)
    ultimately show ?thesis using t by (intro exI [of _ "take (nat nw) chunk"]) auto
  next
    case None
    then have t1: "taken s1 = taken s @ chunk" "nw = int (length chunk)" using t by auto
    show ?thesis
    proof (cases er)
      case (Some e)
      then have "r = Some (n + nw, if e = EOF then None else Some e)" "s' = s1"
        using Cons.prems step None by auto
      then show ?thesis using t1 Some p by (intro exI [of _ chunk]) auto
    next
      case er: None
      then have "copy_loop wr rs s1 (n + nw) = (r, s')" using Cons.prems step None by simp
      from Cons.IH [OF this] obtain out where out: "taken s' = taken s1 @ out" "prefix out (delivered rs)"
          "case r of None \<Rightarrow> out = delivered rs \<and> read_error rs = None
           | Some (m, e) \<Rightarrow> m = n + nw + int (length out)
               \<and> (e = None \<longrightarrow> out = delivered rs \<and> read_error rs = Some EOF)"
        by blast
      then show ?thesis
        using t1 er p by (intro exI [of _ "chunk @ out"]) (auto split: option.splits)
    qed
  qed
qed auto

end

text \<open>Writing to a connection keeps the contract.\<close>

definition conn_Write :: "conn write_fun" where
  "conn_Write c bs =
     (case conn_write bs c of
        (None, c') \<Rightarrow> ((int (length bs), None), c')
      | (Some e, c') \<Rightarrow> ((int (length (tx c')) - int (length (tx c)), Some e), c'))"

interpretation conn_writer: writer conn_Write tx
  by unfold_locales (auto simp: conn_Write_def conn_write_def split: option.splits if_splits)

section \<open>The netcat pipe\<close>

text \<open>What can happen while \<^verbatim>\<open>pipeBiDirectional\<close> runs: the copy from standard input ends with a
  count and an error, the copy to standard output ends, the grace period is over.\<close>

datatype pipe_event = StdinDone int "gerror option" | RemoteDone "gerror option" | GraceOver

record pipe =
  stdin_done :: bool
  half_closed :: bool
  remote_done :: bool
  returned :: bool

definition pipe_start :: pipe where
  "pipe_start = \<lparr>stdin_done = False, half_closed = False, remote_done = False, returned = False\<rparr>"

definition copy_failed :: "gerror option \<Rightarrow> bool" where
  "copy_failed e \<longleftrightarrow> e \<noteq> None \<and> e \<noteq> Some EOF"

fun pipe_step :: "bool \<Rightarrow> bool \<Rightarrow> pipe_event \<Rightarrow> pipe \<Rightarrow> pipe" where
  "pipe_step is_term halfCloser (StdinDone written e) s =
     (if stdin_done s then s
      else s \<lparr>stdin_done := True,
              half_closed := (\<not> copy_failed e \<and> written \<noteq> 0 \<and> halfCloser),
              returned := returned s \<or> remote_done s\<rparr>)"
| "pipe_step is_term halfCloser (RemoteDone e) s =
     (if remote_done s then s
      else s \<lparr>remote_done := True, returned := is_term \<or> stdin_done s\<rparr>)"
| "pipe_step is_term halfCloser GraceOver s =
     (if remote_done s then s \<lparr>returned := True\<rparr> else s)"

definition pipeBiDirectional :: "bool \<Rightarrow> bool \<Rightarrow> pipe_event list \<Rightarrow> pipe" where
  "pipeBiDirectional is_term halfCloser evs =
     fold (pipe_step is_term halfCloser) evs pipe_start"

text \<open>Two copies in opposite directions; the caller goes on as soon as one of them has ended, and
  logs its error unless that is the end of the stream.\<close>

definition pipeConns :: "(bool \<times> gerror option) list \<Rightarrow> gerror option option" where
  "pipeConns ends =
     (case ends of
        [] \<Rightarrow> None
      | (dir, e) # _ \<Rightarrow> Some (if copy_failed e then e else None))"

definition pipe_inv :: "bool \<Rightarrow> pipe_event list \<Rightarrow> pipe \<Rightarrow> bool" where
  "pipe_inv is_term evs s \<longleftrightarrow>
     (half_closed s \<longrightarrow> (\<exists>w e. StdinDone w e \<in> set evs \<and> w \<noteq> 0 \<and> \<not> copy_failed e)) \<and>
     (stdin_done s \<longrightarrow> (\<exists>w e. StdinDone w e \<in> set evs)) \<and>
     (remote_done s \<longrightarrow> (\<exists>e. RemoteDone e \<in> set evs)) \<and>
     (returned s \<longrightarrow> remote_done s \<and> (is_term \<or> stdin_done s \<or> GraceOver \<in> set evs))"

lemma pipe_inv_step:
  "pipe_inv is_term evs s \<Longrightarrow> pipe_inv is_term (evs @ [ev]) (pipe_step is_term h ev s)"
  by (cases ev) (auto simp: pipe_inv_def split: if_splits)

interpretation piping: event_loop "pipe_step is_term h" pipe_start "pipe_inv is_term" for is_term h
  by unfold_locales (simp add: pipe_inv_def pipe_start_def, fact pipe_inv_step)

section \<open>Properties\<close>

text \<open>C15: copying into a connection loses, repeats and reorders nothing.  What the peer gets is a
  prefix of what was read, the reported count is its length, and when the copy ends without
  an error the source had reached its end and all of it was delivered.\<close>

theorem copy_delivers:
  assumes "CopyWithTrace conn_Write rs c = (Some (n, e), c')"
  shows "\<exists>out. tx c' = tx c @ out \<and> n = int (length out) \<and> prefix out (delivered rs)
    \<and> (e = None \<longrightarrow> out = delivered rs \<and> read_error rs = Some EOF)"
  using conn_writer.copy_loop_taken [OF assms [unfolded CopyWithTrace_def]] by auto

theorem copy_delivers_witness:
  "\<exists>out. tx ((conn_of []) \<lparr>tx := [1, 2, 3]\<rparr>) = tx (conn_of []) @ out \<and> 3 = int (length out)
    \<and> prefix out (delivered [([1, 2], None), ([3], Some EOF)])
    \<and> (None = (None :: gerror option) \<longrightarrow> out = delivered [([1, 2], None), ([3], Some EOF)]
        \<and> read_error [([1, 2], None), ([3], Some EOF)] = Some EOF)"
  by (rule copy_delivers) (simp add: CopyWithTrace_def conn_Write_def copy_write_def)



end
