(* ===== verification/Base64.thy ===== *)
theory Base64
  imports Go_Strings
begin

text \<open>
  \<^verbatim>\<open>base64.StdEncoding\<close>: groups of three bytes become four characters, with padding at the
  end.  HTTP basic authentication and the OpenPGP armour use it; the decoder is the
  reference against which the encoding is shown to lose nothing.
\<close>

definition b64_alphabet :: string where
  "b64_alphabet = ''ABCDEFGHIJKLMNOPQRSTUVWXYZabcdefghijklmnopqrstuvwxyz0123456789+/''"

definition b64_char :: "byte \<Rightarrow> char" where
  "b64_char v = b64_alphabet ! unat (v AND 63)"

fun b64_encode :: "bytes \<Rightarrow> string" where
  "b64_encode [] = []"
| "b64_encode [a] =
     [b64_char (drop_bit 2 a), b64_char (push_bit 4 a), CHR ''='', CHR ''='']"
| "b64_encode [a, b] =
     [b64_char (drop_bit 2 a), b64_char (push_bit 4 a OR drop_bit 4 b), b64_char (push_bit 2 b), CHR ''='']"
| "b64_encode (a # b # c # bs) =
     [b64_char (drop_bit 2 a), b64_char (push_bit 4 a OR drop_bit 4 b),
      b64_char (push_bit 2 b OR drop_bit 6 c), b64_char c] @ b64_encode bs"

definition b64_val :: "char \<Rightarrow> byte option" where
  "b64_val c =
     (let n = (of_char c :: nat)
      in if 65 \<le> n \<and> n \<le> 90 then Some (of_nat (n - 65))
         else if 97 \<le> n \<and> n \<le> 122 then Some (of_nat (n - 71))
         else if 48 \<le> n \<and> n \<le> 57 then Some (of_nat (n + 4))
         else if n = 43 then Some 62
         else if n = 47 then Some 63
         else None)"

fun b64_decode :: "string \<Rightarrow> bytes option" where
  "b64_decode [] = Some []"
| "b64_decode (w # x # y # z # s) =
     (case (b64_val w, b64_val x) of
        (Some p, Some q) \<Rightarrow>
          if y = CHR ''='' then
            (if z = CHR ''='' \<and> s = [] then Some [push_bit 2 p OR drop_bit 4 q] else None)
          else (case b64_val y of
                  None \<Rightarrow> None
                | Some r \<Rightarrow>
                    if z = CHR ''='' then
                      (if s = [] then Some [push_bit 2 p OR drop_bit 4 q, push_bit 4 q OR drop_bit 2 r]
                       else None)
                    else (case b64_val z of
                            None \<Rightarrow> None
                          | Some t \<Rightarrow>
                              map_option (\<lambda>bs. [push_bit 2 p OR drop_bit 4 q, push_bit 4 q OR drop_bit 2 r,
                                                push_bit 6 r OR t] @ bs) (b64_decode s)))
      | _ \<Rightarrow> None)"
| "b64_decode _ = None"

lemma b64_alphabet_all:
  "list_all (\<lambda>n. b64_val (b64_alphabet ! n) = Some (of_nat n) \<and> b64_alphabet ! n \<noteq> CHR ''='') [0..<64]"
  by (simp add: b64_alphabet_def b64_val_def upt_rec)

lemma and_63: "(x :: byte) AND 63 = take_bit 6 x"
  by (simp add: take_bit_eq_mask mask_eq_exp_minus_1)

lemma unat_and_63: "unat ((v :: byte) AND 63) < 64"
  using take_bit_nat_less_exp [of 6 "unat v"] by (simp add: and_63 unsigned_take_bit_eq)

lemma b64_char_props [simp]:
  "b64_val (b64_char v) = Some (take_bit 6 v)" "b64_char v \<noteq> CHR ''=''"
proof -
  have "\<forall>n \<in> set [0..<64]. b64_val (b64_alphabet ! n) = Some (of_nat n) \<and> b64_alphabet ! n \<noteq> CHR ''=''"
    using b64_alphabet_all unfolding list_all_iff .
  then have *: "b64_val (b64_alphabet ! n) = Some (of_nat n) \<and> b64_alphabet ! n \<noteq> CHR ''=''" if "n < 64" for n
    using that by simp
  show "b64_val (b64_char v) = Some (take_bit 6 v)" "b64_char v \<noteq> CHR ''=''"
    using * [OF unat_and_63 [of v]] by (simp_all add: b64_char_def and_63)
qed

lemma b64_bytes:
  fixes a b c :: byte
  shows "push_bit 2 (take_bit 6 (drop_bit 2 a)) OR drop_bit 4 (take_bit 6 (push_bit 4 a)) = a"
    and "push_bit 2 (take_bit 6 (drop_bit 2 a)) OR drop_bit 4 (take_bit 6 (push_bit 4 a OR drop_bit 4 b)) = a"
    and "push_bit 4 (take_bit 6 (push_bit 4 a OR drop_bit 4 b)) OR drop_bit 2 (take_bit 6 (push_bit 2 b)) = b"
    and "push_bit 4 (take_bit 6 (push_bit 4 a OR drop_bit 4 b)) OR
           drop_bit 2 (take_bit 6 (push_bit 2 b OR drop_bit 6 c)) = b"
    and "push_bit 6 (take_bit 6 (push_bit 2 b OR drop_bit 6 c)) OR take_bit 6 c = c"
  by (rule byte_eqI; simp add: bit_simps byte_bit_high del: push_bit_Suc; simp add: numeral_eq_Suc)+

theorem b64_decode_encode: "b64_decode (b64_encode bs) = Some bs"
  by (induction bs rule: b64_encode.induct) (simp_all add: b64_bytes del: push_bit_or drop_bit_or take_bit_or)

end
