(* ===== verification/Net_Util.thy ===== *)
theory Net_Util
  imports Net_Conn Base64
begin

text \<open>
  The network helpers: the address syntax of \<^verbatim>\<open>net_util.go\<close>, the proxy support of
  \<^verbatim>\<open>proxy.go\<close>, and from \<^verbatim>\<open>main.go\<close> the transport that turns HTTP errors of the Syncthing
  services into Go errors and the systemd notification.
\<close>

section \<open>Addresses\<close>

definition parseNetworkAndAddr :: "string \<Rightarrow> string \<times> string" where
  "parseNetworkAndAddr addr =
     (if HasPrefix addr ''unix://'' then (''unix'', TrimPrefix addr ''unix://'')
      else if HasPrefix addr ''unix:'' then (''unix'', TrimPrefix addr ''unix:'')
      else if HasPrefix addr ''tcp://'' then (''tcp'', TrimPrefix addr ''tcp://'')
      else if HasPrefix addr ''tcp:'' then (''tcp'', TrimPrefix addr ''tcp:'')
      else if HasPrefix addr ''/'' \<or> HasPrefix addr ''./'' \<or> HasPrefix addr ''../''
              \<or> HasSuffix addr ''.sock'' \<or> \<not> Contains addr '':'' then (''unix'', addr)
      else (''tcp'', addr))"

section \<open>The proxy environment\<close>

type_synonym env = "string \<Rightarrow> string option"

definition Getenv :: "env \<Rightarrow> string \<Rightarrow> string" where
  "Getenv e k = (case e k of None \<Rightarrow> [] | Some v \<Rightarrow> v)"

definition proxy_vars :: "string list" where
  "proxy_vars = [''SOCKS_PROXY'', ''socks_proxy'', ''HTTPS_PROXY'', ''https_proxy'', ''HTTP_PROXY'', ''http_proxy'']"

definition setupProxyEnvironment :: "env \<Rightarrow> env" where
  "setupProxyEnvironment e =
     (if Getenv e ''all_proxy'' = [] \<and> Getenv e ''ALL_PROXY'' = [] then
        (case find (\<lambda>v. Getenv e v \<noteq> []) proxy_vars of
           None \<Rightarrow> e
         | Some v \<Rightarrow>
             let p = Getenv e v
             in e (''all_proxy'' \<mapsto> (if Contains p ''://'' then p else ''http://'' @ p)))
      else e)"

section \<open>Tunnels through an HTTP proxy\<close>

record proxy_url =
  pu_Host :: string
  pu_User :: "(string \<times> string) option"

definition crlf :: string where
  "crlf = [CHR 0x0D, CHR 0x0A]"

text \<open>\<^verbatim>\<open>req.Write\<close> for the CONNECT request: request line, host, user agent, credentials.\<close>

definition connect_request :: "proxy_url \<Rightarrow> string \<Rightarrow> string" where
  "connect_request u addr =
     ''CONNECT '' @ addr @ '' HTTP/1.1'' @ crlf @ ''Host: '' @ addr @ crlf @
     ''User-Agent: Go-http-client/1.1'' @ crlf @
     (case pu_User u of
        None \<Rightarrow> []
      | Some (name, password) \<Rightarrow>
          ''Authorization: Basic '' @ b64_encode (bytes_of_string (name @ '':'' @ password)) @ crlf) @
     crlf"

text \<open>One line of the response: up to the newline or the end of the input, without its
  line ending.\<close>

definition next_line :: "string \<Rightarrow> (string \<times> string) option" where
  "next_line s =
     (if s = [] then None
      else let line = takeWhile (\<lambda>c. c \<noteq> CHR 0x0A) s
           in Some (drop_cr line, drop (Suc (length line)) s))"

definition http_version_ok :: "string \<Rightarrow> bool" where
  "http_version_ok p \<longleftrightarrow> length p = 8 \<and> HasPrefix p ''HTTP/'' \<and> digit_val (p ! 5) \<noteq> None
     \<and> p ! 6 = CHR ''.'' \<and> digit_val (p ! 7) \<noteq> None"

definition status_code :: "string \<Rightarrow> gerror + nat" where
  "status_code line =
     (let (proto, rest, ok) = Cut line '' '';
          status = dropWhile (\<lambda>c. c = CHR '' '') rest;
          code = fst (Cut status '' '')
      in if \<not> ok then Inl (Errorf (''malformed HTTP response''))
         else if length code \<noteq> 3 then Inl (Errorf ''malformed HTTP status code'')
         else case parse_digits 0 code of
                None \<Rightarrow> Inl (Errorf ''malformed HTTP status code'')
              | Some n \<Rightarrow> if http_version_ok proto then Inr n
                          else Inl (Errorf ''malformed HTTP version''))"

definition token_byte :: "char \<Rightarrow> bool" where
  "token_byte c \<longleftrightarrow> (let n = (of_char c :: nat) in
     (65 \<le> n \<and> n \<le> 90) \<or> (97 \<le> n \<and> n \<le> 122) \<or> (48 \<le> n \<and> n \<le> 57) \<or> c \<in> set ''!#$%&*+-.^_`|~ '' \<or> n = 39)"

definition header_line_ok :: "string \<Rightarrow> bool" where
  "header_line_ok line \<longleftrightarrow>
     (let (key, v, ok) = Cut line '':'' in ok \<and> list_all token_byte key)"

text \<open>The header block, up to the empty line; a continuation line starts with a blank and is
  refused as the first line.  The headers are checked for their form, not interpreted.\<close>

function read_headers :: "bool \<Rightarrow> string \<Rightarrow> gerror + string" where
  "read_headers first s =
     (case next_line s of
        None \<Rightarrow> Inl EOF
      | Some (line, rest) \<Rightarrow>
          if line = [] then Inr rest
          else if hd line = CHR '' '' \<or> hd line = CHR 0x09 then
            (if first then Inl (Errorf ''malformed MIME header initial line'')
             else read_headers False rest)
          else if header_line_ok line then read_headers False rest
          else Inl (Errorf ''malformed MIME header line''))"
  by pat_completeness auto
termination
  by (relation "measure (\<lambda>(f, s). length s)") (auto simp: next_line_def Let_def split: if_splits)

declare read_headers.simps [simp del]

text \<open>\<^verbatim>\<open>http.ReadResponse\<close>: the status and what the reader has not consumed.\<close>

definition ReadResponse :: "conn \<Rightarrow> gerror + nat \<times> bytes" where
  "ReadResponse c =
     (let at_end = (if rx_end c = EOF then ErrUnexpectedEOF else rx_end c);
          s = string_of_bytes (rx c)
      in case next_line s of
           None \<Rightarrow> Inl at_end
         | Some (line, rest) \<Rightarrow>
             (case status_code line of
                Inl e \<Rightarrow> Inl e
              | Inr code \<Rightarrow>
                  (case read_headers True rest of
                     Inl e \<Rightarrow> Inl (if e = EOF then at_end else e)
                   | Inr body \<Rightarrow> Inr (code, bytes_of_string body))))"

text \<open>\<^verbatim>\<open>httpProxyDialer.Dial\<close>: the result of the inner dial is the argument.  The returned
  connection reads what the buffered reader still holds, then the rest; an error closes
  the connection, which the second component records.\<close>

definition httpProxyDialer_Dial :: "proxy_url \<Rightarrow> (gerror + conn) \<Rightarrow> string \<Rightarrow> (gerror + conn) \<times> bool" where
  "httpProxyDialer_Dial u forward addr =
     (case forward of
        Inl e \<Rightarrow> (Inl e, False)
      | Inr c \<Rightarrow>
          (case conn_write (bytes_of_string (connect_request u addr)) c of
             (Some e, c1) \<Rightarrow> (Inl e, True)
           | (None, c1) \<Rightarrow>
               (case ReadResponse c1 of
                  Inl e \<Rightarrow> (Inl e, True)
                | Inr (code, rest) \<Rightarrow>
                    if code \<noteq> 200 then
                      (Inl (Errorf (''HTTP proxy failed with status: '' @ show_nat code)), True)
                    else (Inr (c1 \<lparr>rx := rest\<rparr>), False))))"

section \<open>Errors of the Syncthing services\<close>

record response =
  StatusCode :: nat
  Body :: string

definition RoundTrip :: "string \<Rightarrow> (gerror + response) \<Rightarrow> gerror + response" where
  "RoundTrip host inner =
     (case inner of
        Inl e \<Rightarrow> Inl e
      | Inr resp \<Rightarrow>
          if Contains host ''syncthing.net'' \<and> 400 \<le> StatusCode resp then
            Inl (Errorf (''relay rate-limit or captive portal intercepted the connection (HTTP '' @
                         show_nat (StatusCode resp) @ ''): '' @ take 256 (Body resp)))
          else Inr resp)"

section \<open>systemd\<close>

text \<open>The datagram that \<^verbatim>\<open>systemdNotify\<close> sends, when there is a socket and the dial succeeds.\<close>

definition systemdNotify :: "env \<Rightarrow> (string \<Rightarrow> bool) \<Rightarrow> string \<Rightarrow> (string \<times> string) list" where
  "systemdNotify e dial state =
     (let socketPath = Getenv e ''NOTIFY_SOCKET''
      in if socketPath = [] then []
         else if \<not> dial socketPath then []
         else [(socketPath, state)])"

section \<open>Properties\<close>

text \<open>an explicit scheme decides the network and is stripped; without one, an address is
  kept as it is, and only addresses that contain a colon and do not look like a path are
  dialled over TCP.\<close>

theorem parseNetworkAndAddr_schemes:
  "parseNetworkAndAddr (''unix://'' @ a) = (''unix'', a)
   \<and> parseNetworkAndAddr (''tcp://'' @ a) = (''tcp'', a)
   \<and> (\<not> HasPrefix a ''unix:'' \<and> \<not> HasPrefix a ''tcp:'' \<longrightarrow>
        parseNetworkAndAddr a =
          (if Contains a '':'' \<and> \<not> HasPrefix a ''/'' \<and> \<not> HasPrefix a ''./'' \<and> \<not> HasPrefix a ''../''
              \<and> \<not> HasSuffix a ''.sock'' then ''tcp'' else ''unix'', a))"
proof -
  have long: "\<not> HasPrefix a ''unix://''" if "\<not> HasPrefix a ''unix:''"
    using that by (auto simp: HasPrefix_iff prefix_def)
  have long': "\<not> HasPrefix a ''tcp://''" if "\<not> HasPrefix a ''tcp:''"
    using that by (auto simp: HasPrefix_iff prefix_def)
  show ?thesis
    using long long' by (auto simp: parseNetworkAndAddr_def TrimPrefix_def)
qed

text \<open>A header block as a proxy sends it.\<close>

definition header_block :: "string \<Rightarrow> string list \<Rightarrow> string" where
  "header_block status hs = status @ crlf @ concat (map (\<lambda>h. h @ crlf) hs) @ crlf"

definition plain_header :: "string \<Rightarrow> bool" where
  "plain_header h \<longleftrightarrow> h \<noteq> [] \<and> CHR 0x0A \<notin> set h \<and> hd h \<noteq> CHR '' '' \<and> hd h \<noteq> CHR 0x09 \<and> header_line_ok h"

lemma next_line_crlf: "CHR 0x0A \<notin> set l \<Longrightarrow> next_line (l @ crlf @ r) = Some (l, r)"
proof -
  assume "CHR 0x0A \<notin> set l"
  then have "takeWhile (\<lambda>c. c \<noteq> CHR 0x0A) (l @ crlf @ r) = l @ [CHR 0x0D]"
    by (subst takeWhile_append2) (auto simp: crlf_def)
  then show ?thesis by (simp add: next_line_def crlf_def drop_cr_def)
qed

lemma read_headers_block:
  "list_all plain_header hs \<Longrightarrow> read_headers first (concat (map (\<lambda>h. h @ crlf) hs) @ crlf @ r) = Inr r"
proof (induction hs arbitrary: first)
  case Nil
  then show ?case
    using next_line_crlf [of "[]" r] by (subst read_headers.simps) simp
next
  case (Cons h hs)
  then have h: "plain_header h" by simp
  then have "next_line (h @ crlf @ concat (map (\<lambda>h. h @ crlf) hs) @ crlf @ r)
      = Some (h, concat (map (\<lambda>h. h @ crlf) hs) @ crlf @ r)"
    by (intro next_line_crlf) (simp add: plain_header_def)
  then show ?case
    using Cons h by (subst read_headers.simps) (simp add: plain_header_def)
qed

text \<open>no tunnelled byte is lost.  When the proxy answers 200, the connection that the dialer
  returns delivers exactly the bytes that follow the response's header block, whether or not
  they arrived together with it, and has sent exactly the CONNECT request.\<close>

theorem proxy_dial_keeps_payload:
  assumes "rx c = bytes_of_string (header_block status hs) @ payload" and "tx_room c = None"
    and "status_code status = Inr 200" and "CHR 0x0A \<notin> set status" and "list_all plain_header hs"
  shows "httpProxyDialer_Dial u (Inr c) addr =
    (Inr (c \<lparr>rx := payload, tx := tx c @ bytes_of_string (connect_request u addr)\<rparr>), False)"
proof -
  have "string_of_bytes (rx c) =
      status @ crlf @ concat (map (\<lambda>h. h @ crlf) hs) @ crlf @ string_of_bytes payload"
    by (simp add: assms(1) header_block_def)
  then show ?thesis
    using assms(2,3) next_line_crlf [OF assms(4)] read_headers_block [OF assms(5)]
    by (simp add: httpProxyDialer_Dial_def ReadResponse_def)
qed

lemma sample_status: "status_code ''HTTP/1.1 200 OK'' = Inr 200"
  by (simp add: status_code_def Cut.simps HasPrefix_def http_version_ok_def digit_val_def)

theorem proxy_dial_keeps_payload_witness:
  "httpProxyDialer_Dial \<lparr>pu_Host = ''p:80'', pu_User = None\<rparr>
     (Inr (conn_of (bytes_of_string (header_block ''HTTP/1.1 200 OK'' [''Via: x'']) @ [22, 3, 1]))) ''h:1'' =
   (Inr ((conn_of [22, 3, 1]) \<lparr>tx := bytes_of_string (connect_request \<lparr>pu_Host = ''p:80'', pu_User = None\<rparr> ''h:1'')\<rparr>), False)"
proof -
  have "list_all plain_header [''Via: x'']" by code_simp
  then show ?thesis
    using proxy_dial_keeps_payload [of "conn_of (bytes_of_string (header_block ''HTTP/1.1 200 OK'' [''Via: x'']) @ [22, 3, 1])"
        "''HTTP/1.1 200 OK''" "[''Via: x'']" "[22, 3, 1]" "\<lparr>pu_Host = ''p:80'', pu_User = None\<rparr>" "''h:1''"]
      sample_status by simp
qed

text \<open>proxy settings are mapped once and never override an explicit choice: an existing
  \<^verbatim>\<open>all_proxy\<close> is kept, nothing but \<^verbatim>\<open>all_proxy\<close> changes, and running the set-up again
  changes nothing.\<close>

theorem setupProxyEnvironment_idempotent:
  "setupProxyEnvironment (setupProxyEnvironment e) = setupProxyEnvironment e
   \<and> (\<forall>k. k \<noteq> ''all_proxy'' \<longrightarrow> setupProxyEnvironment e k = e k)
   \<and> (Getenv e ''all_proxy'' \<noteq> [] \<longrightarrow> setupProxyEnvironment e = e)"
proof -
  have "p \<noteq> [] \<Longrightarrow> (if Contains p ''://'' then p else ''http://'' @ p) \<noteq> []" for p by auto
  then have "setupProxyEnvironment e = e \<or> Getenv (setupProxyEnvironment e) ''all_proxy'' \<noteq> []"
    by (auto simp: setupProxyEnvironment_def Let_def Getenv_def find_Some_iff split: option.splits)
  then have "setupProxyEnvironment (setupProxyEnvironment e) = setupProxyEnvironment e"
    by (elim disjE) (simp, subst setupProxyEnvironment_def, simp)
  then show ?thesis by (auto simp: setupProxyEnvironment_def Let_def split: option.splits)
qed

theorem setupProxyEnvironment_idempotent_witness:
  "setupProxyEnvironment [''http_proxy'' \<mapsto> ''p:3128''] ''http_proxy'' = Some ''p:3128''"
  using setupProxyEnvironment_idempotent [of "[''http_proxy'' \<mapsto> ''p:3128'']"] by simp

theorem parseNetworkAndAddr_schemes_witness:
  "parseNetworkAndAddr ''h:22'' = (''tcp'', ''h:22'')"
proof -
  have "\<not> HasPrefix ''h:22'' ''unix:''" "\<not> HasPrefix ''h:22'' ''tcp:''" "Contains ''h:22'' '':''"
    "\<not> HasPrefix ''h:22'' ''/''" "\<not> HasPrefix ''h:22'' ''./''" "\<not> HasPrefix ''h:22'' ''../''"
    "\<not> HasSuffix ''h:22'' ''.sock''"
    by code_simp+
  then show ?thesis using parseNetworkAndAddr_schemes [of "''h:22''"] by simp
qed

end
