(* ===== verification/Server_Handlers.thy ===== *)
theory Server_Handlers
  imports Webrtc Io_Copy Net_Util
begin

text \<open>
  What the server does with one accepted connection (\<^verbatim>\<open>handleServerConn\<close> and
  \<^verbatim>\<open>handleForwardConn\<close> of \<^verbatim>\<open>main.go\<close>): TLS handshake, list of authorized clients, second
  factor, WebRTC upgrade of a relayed connection, and the service.  A handler yields the
  sequence of its effects, so that what happens before what is part of the model.
\<close>

section \<open>Connections and effects\<close>

text \<open>The connections a handler deals with: the accepted one, the TLS connection over it, the
  direct WebRTC connection, and the connection to the forward target.\<close>

datatype link = Raw | Tls | P2P | Local

datatype service =
    SocksServer | ShellServer | CommandServer string | ReverseForwardServer string | PipeServer

text \<open>A service or the forwarding takes a connection over with what was not read from it yet.\<close>

datatype effect =
    Closed link
  | Serve service link conn
  | Dialed string string
  | Forward link conn conn

text \<open>The peer's side of the TLS connection: the handshake's error, the raw certificates that the
  peer presented, the stream and the peer's network address.\<close>

record tls_peer =
  handshake :: "gerror option"
  PeerCertificates :: "bytes list"
  stream :: conn
  remote_addr :: "addr option"

text \<open>The surroundings of a handler: the cryptographic functions, the clock, the WebRTC library
  and the data channel it yields, and the connection to the forward target.\<close>

record server_world =
  sw_sha256 :: "bytes \<Rightarrow> bytes"
  sw_hmac :: hmac_fun
  sw_uni :: "string \<Rightarrow> string"
  sw_now :: int
  sw_rtc :: rtc
  sw_channel :: conn
  sw_dial :: "string \<Rightarrow> string \<Rightarrow> gerror + (addr option \<times> conn)"
  sw_show_addr :: "addr \<Rightarrow> string"

record server_opts =
  isSocks :: bool
  isShell :: bool
  isCommand :: string
  so_reverseForward :: string
  forwardAddr :: string
  proxyProtocol :: bool
  authorizedClients :: "device_id list"
  totpSecret :: string

section \<open>The handlers\<close>

text \<open>An empty list of authorized clients admits everybody.\<close>

definition authorized :: "(bytes \<Rightarrow> bytes) \<Rightarrow> device_id list \<Rightarrow> bytes list \<Rightarrow> bool" where
  "authorized sha256 ids certs =
     (if ids = [] then True
      else certs \<noteq> [] \<and> list_ex (\<lambda>authID. authID = NewDeviceID sha256 (hd certs)) ids)"

definition handleConn :: "server_opts \<Rightarrow> link \<Rightarrow> conn \<Rightarrow> effect list" where
  "handleConn opts l c =
     (if isSocks opts then [Serve SocksServer l c]
      else if isShell opts then [Serve ShellServer l c]
      else if isCommand opts \<noteq> [] then [Serve (CommandServer (isCommand opts)) l c]
      else if so_reverseForward opts \<noteq> [] then [Serve (ReverseForwardServer (so_reverseForward opts)) l c]
      else [Serve PipeServer l c, Closed l])"

definition handleServerConn :: "server_world \<Rightarrow> server_opts \<Rightarrow> bool \<Rightarrow> tls_peer \<Rightarrow> effect list" where
  "handleServerConn w opts isRelay p =
     (case handshake p of
        Some e \<Rightarrow> [Closed Raw]
      | None \<Rightarrow>
          if \<not> authorized (sw_sha256 w) (authorizedClients opts) (PeerCertificates p) then
            [Closed Tls, Closed Raw]
          else
            (case performServerAuth (sw_hmac w) (sw_uni w) (sw_now w) (totpSecret opts) (stream p) of
               (Some e, c1) \<Rightarrow> [Closed Tls, Closed Raw]
             | (None, c1) \<Rightarrow>
                 if isRelay then
                   (case negotiateWebRTCServer (sw_rtc w) c1 of
                      ((fallback, err), pc, c2) \<Rightarrow>
                        if fallback \<or> err \<noteq> None then handleConn opts Tls c2 @ [Closed Raw]
                        else Closed Tls # handleConn opts P2P (sw_channel w) @ [Closed Raw])
                 else handleConn opts Tls c1 @ [Closed Raw]))"

text \<open>The connection that carries the data of a forwarded connection, and what it took to get it.\<close>

definition data_link :: "server_world \<Rightarrow> bool \<Rightarrow> conn \<Rightarrow> link \<times> conn \<times> effect list" where
  "data_link w isRelay c1 =
     (if isRelay then
        (case negotiateWebRTCServer (sw_rtc w) c1 of
           ((fallback, err), pc, c2) \<Rightarrow>
             if fallback \<or> err \<noteq> None then (Tls, c2, [])
             else (P2P, sw_channel w, [Closed Tls]))
      else (Tls, c1, []))"

definition data_addr :: "link \<Rightarrow> tls_peer \<Rightarrow> addr option" where
  "data_addr l p = (if l = P2P then Some WebRTCConn_RemoteAddr else remote_addr p)"

text \<open>The PROXY header, if one is asked for, goes to the target before any payload.\<close>

definition send_header :: "server_world \<Rightarrow> server_opts \<Rightarrow> link \<Rightarrow> tls_peer \<Rightarrow> addr option \<Rightarrow> conn \<Rightarrow>
    gerror option \<times> conn" where
  "send_header w opts l p localAddr c =
     (if proxyProtocol opts then
        (case formatVersion2 (forward_header (sw_show_addr w) (data_addr l p) localAddr
                (case PeerCertificates p of [] \<Rightarrow> None | cert # _ \<Rightarrow> Some (NewDeviceID (sw_sha256 w) cert))) of
           Inl e \<Rightarrow> (Some e, c)
         | Inr h \<Rightarrow> conn_write h c)
      else (None, c))"

definition handleForwardConn :: "server_world \<Rightarrow> server_opts \<Rightarrow> bool \<Rightarrow> tls_peer \<Rightarrow> effect list" where
  "handleForwardConn w opts isRelay p =
     (case handshake p of
        Some e \<Rightarrow> [Closed Raw]
      | None \<Rightarrow>
          if \<not> authorized (sw_sha256 w) (authorizedClients opts) (PeerCertificates p) then
            [Closed Tls, Closed Raw]
          else
            (case performServerAuth (sw_hmac w) (sw_uni w) (sw_now w) (totpSecret opts) (stream p) of
               (Some e, c1) \<Rightarrow> [Closed Tls, Closed Raw]
             | (None, c1) \<Rightarrow>
                 let (l, dc, pre) = data_link w isRelay c1;
                     (network, addr) = parseNetworkAndAddr (forwardAddr opts)
                 in pre @ Dialed network addr #
                    (case sw_dial w network addr of
                       Inl e \<Rightarrow> [Closed l, Closed Raw]
                     | Inr (localAddr, lc) \<Rightarrow>
                         (case send_header w opts l p localAddr lc of
                            (Some e, lc') \<Rightarrow> [Closed Local, Closed Raw]
                          | (None, lc') \<Rightarrow> [Forward l dc lc', Closed l, Closed Local, Closed Raw]))))"

section \<open>Admission\<close>

text \<open>The gate that both handlers put before everything else.\<close>

definition admits :: "server_world \<Rightarrow> server_opts \<Rightarrow> tls_peer \<Rightarrow> conn \<Rightarrow> bool" where
  "admits w opts p c1 \<longleftrightarrow> handshake p = None
     \<and> authorized (sw_sha256 w) (authorizedClients opts) (PeerCertificates p)
     \<and> performServerAuth (sw_hmac w) (sw_uni w) (sw_now w) (totpSecret opts) (stream p) = (None, c1)"

fun uses_peer :: "effect \<Rightarrow> bool" where
  "uses_peer (Closed _) = False"
| "uses_peer _ = True"

lemma refused_effects:
  assumes "\<And>c1. \<not> admits w opts p c1"
  shows "handleServerConn w opts isRelay p \<in> {[Closed Raw], [Closed Tls, Closed Raw]}"
    and "handleForwardConn w opts isRelay p \<in> {[Closed Raw], [Closed Tls, Closed Raw]}"
proof -
  obtain r c1 where r: "performServerAuth (sw_hmac w) (sw_uni w) (sw_now w) (totpSecret opts) (stream p) = (r, c1)"
    by (cases "performServerAuth (sw_hmac w) (sw_uni w) (sw_now w) (totpSecret opts) (stream p)")
  have "handshake p \<noteq> None \<or> \<not> authorized (sw_sha256 w) (authorizedClients opts) (PeerCertificates p) \<or> r \<noteq> None"
    using assms [of c1] r by (auto simp: admits_def)
  then show "handleServerConn w opts isRelay p \<in> {[Closed Raw], [Closed Tls, Closed Raw]}"
    "handleForwardConn w opts isRelay p \<in> {[Closed Raw], [Closed Tls, Closed Raw]}"
    by (auto simp: handleServerConn_def handleForwardConn_def r split: option.split)
qed

lemma handleServerConn_admitted:
  "admits w opts p c1 \<Longrightarrow>
   handleServerConn w opts isRelay p =
     (let (l, dc, pre) = data_link w isRelay c1 in pre @ handleConn opts l dc @ [Closed Raw])"
  by (simp add: handleServerConn_def admits_def data_link_def split: prod.splits)

lemma handleForwardConn_admitted:
  "admits w opts p c1 \<Longrightarrow>
   handleForwardConn w opts isRelay p =
     (let (l, dc, pre) = data_link w isRelay c1; (network, addr) = parseNetworkAndAddr (forwardAddr opts)
      in pre @ Dialed network addr #
         (case sw_dial w network addr of
            Inl e \<Rightarrow> [Closed l, Closed Raw]
          | Inr (localAddr, lc) \<Rightarrow>
              (case send_header w opts l p localAddr lc of
                 (Some e, lc') \<Rightarrow> [Closed Local, Closed Raw]
               | (None, lc') \<Rightarrow> [Forward l dc lc', Closed l, Closed Local, Closed Raw])))"
  by (simp add: handleForwardConn_def admits_def)

lemma admits_peer:
  assumes "admits w opts p c1"
  shows "handshake p = None"
    and "authorizedClients opts \<noteq> [] \<Longrightarrow> PeerCertificates p \<noteq> []
      \<and> NewDeviceID (sw_sha256 w) (hd (PeerCertificates p)) \<in> set (authorizedClients opts)"
    and "totpSecret opts \<noteq> [] \<Longrightarrow> \<exists>b resp. rx (stream p) = frame b @ rx c1 \<and> response_unmarshal b = Inr resp
      \<and> ar_Type resp = ''auth'' \<and> totp_Validate (sw_hmac w) (sw_uni w) (sw_now w) (ar_TOTP resp) (totpSecret opts)"
proof -
  show "handshake p = None" using assms by (simp add: admits_def)
  show "authorizedClients opts \<noteq> [] \<Longrightarrow> PeerCertificates p \<noteq> []
      \<and> NewDeviceID (sw_sha256 w) (hd (PeerCertificates p)) \<in> set (authorizedClients opts)"
    using assms by (auto simp: admits_def authorized_def list_ex_iff)
  show "totpSecret opts \<noteq> [] \<Longrightarrow> \<exists>b resp. rx (stream p) = frame b @ rx c1 \<and> response_unmarshal b = Inr resp
      \<and> ar_Type resp = ''auth'' \<and> totp_Validate (sw_hmac w) (sw_uni w) (sw_now w) (ar_TOTP resp) (totpSecret opts)"
    using assms unfolding admits_def by (intro server_auth_accepts) simp_all
qed

text \<open>What the accept loops rely on: a handler that closes the accepted connection last of all, and
  that does nothing else for a peer that is not admitted.\<close>

locale gated_handler =
  fixes handle :: "server_world \<Rightarrow> server_opts \<Rightarrow> bool \<Rightarrow> tls_peer \<Rightarrow> effect list"
  assumes refused: "(\<And>c1. \<not> admits w opts p c1) \<Longrightarrow> handle w opts isRelay p \<in> {[Closed Raw], [Closed Tls, Closed Raw]}"
    and closes_last: "admits w opts p c1 \<Longrightarrow> \<exists>evs. handle w opts isRelay p = evs @ [Closed Raw]"
begin

lemma use_admitted: "ev \<in> set (handle w opts isRelay p) \<Longrightarrow> uses_peer ev \<Longrightarrow> \<exists>c1. admits w opts p c1"
proof (rule ccontr)
  assume ev: "ev \<in> set (handle w opts isRelay p)" "uses_peer ev" and "\<nexists>c1. admits w opts p c1"
  then have "handle w opts isRelay p \<in> {[Closed Raw], [Closed Tls, Closed Raw]}" using refused by blast
  with ev show False by auto
qed

lemma closed_at_end: "handle w opts isRelay p \<noteq> [] \<and> last (handle w opts isRelay p) = Closed Raw"
proof (cases "\<exists>c1. admits w opts p c1")
  case True
  then obtain evs where "handle w opts isRelay p = evs @ [Closed Raw]" using closes_last by blast
  then show ?thesis by simp
next
  case False
  then have "handle w opts isRelay p \<in> {[Closed Raw], [Closed Tls, Closed Raw]}" using refused by blast
  then show ?thesis by auto
qed

text \<open>A loop that starts a handler for each connection it accepts.\<close>

lemma loop_admitted:
  assumes "(n, evs) \<in> set (map (\<lambda>(n, isRelay). (n, handle w opts isRelay (peer n))) conns)"
  shows "n \<in> fst ` set conns \<and> last evs = Closed Raw \<and> (\<forall>ev. ev \<in> set evs \<and> uses_peer ev \<longrightarrow> (\<exists>c1. admits w opts (peer n) c1))"
proof -
  obtain isRelay where n: "(n, isRelay) \<in> set conns" "evs = handle w opts isRelay (peer n)" using assms by auto
  then show ?thesis using closed_at_end use_admitted by (auto simp: rev_image_eqI)
qed

end

interpretation plain: gated_handler handleServerConn
  by unfold_locales (fact refused_effects(1), simp add: handleServerConn_admitted split: prod.split)

interpretation forwarding: gated_handler handleForwardConn
  by unfold_locales
     (fact refused_effects(2), auto simp: handleForwardConn_admitted split: prod.split sum.split option.split)

section \<open>Properties\<close>

text \<open>nothing is served, dialled or forwarded for a peer that was not admitted.  Whenever one
  of the two handlers does anything but close connections, the TLS handshake had succeeded,
  the device ID of the peer's certificate is on the list of authorized clients if there is
  one, and a valid one-time password had been received if a secret is set.\<close>

theorem only_admitted_peers_are_served:
  assumes "ev \<in> set (handleServerConn w opts isRelay p) \<union> set (handleForwardConn w opts isRelay p)"
    and "uses_peer ev"
  shows "handshake p = None
    \<and> (authorizedClients opts \<noteq> [] \<longrightarrow> PeerCertificates p \<noteq> []
        \<and> NewDeviceID (sw_sha256 w) (hd (PeerCertificates p)) \<in> set (authorizedClients opts))
    \<and> (totpSecret opts \<noteq> [] \<longrightarrow>
        (\<exists>b resp rest. rx (stream p) = frame b @ rest \<and> response_unmarshal b = Inr resp \<and> ar_Type resp = ''auth''
          \<and> totp_Validate (sw_hmac w) (sw_uni w) (sw_now w) (ar_TOTP resp) (totpSecret opts)))"
proof -
  have "\<exists>c1. admits w opts p c1" using assms plain.use_admitted forwarding.use_admitted by blast
  then obtain c1 where "admits w opts p c1" by blast
  from admits_peer [OF this] show ?thesis by blast
qed

lemma handleConn_serves: "\<exists>svc. filter uses_peer (handleConn opts l c) = [Serve svc l c]"
  by (simp add: handleConn_def)

lemma data_link_effects: "data_link w isRelay c1 = (l, dc, pre) \<Longrightarrow> filter uses_peer pre = [] \<and> Closed Raw \<notin> set pre"
  by (auto simp: data_link_def split: prod.splits if_splits)

text \<open>C32: an admitted peer is served exactly once, by exactly one service and over the connection
  that the upgrade settled on, and afterwards the accepted connection is closed, as the last
  thing of all.\<close>

theorem admitted_peer_is_served_once:
  assumes "admits w opts p c1" and "data_link w isRelay c1 = (l, dc, pre)"
  shows "(\<exists>svc. filter uses_peer (handleServerConn w opts isRelay p) = [Serve svc l dc])
    \<and> last (handleServerConn w opts isRelay p) = Closed Raw"
  using handleConn_serves [of opts l dc] data_link_effects [OF assms(2)]
  by (auto simp: handleServerConn_admitted [OF assms(1)] assms(2) last_append)

text \<open>forwarding with a PROXY header never works over a WebRTC connection to a TCP target, and
  it leaks that connection: the peer has been admitted and the target dialled, but the header
  is refused, nothing is forwarded, and the direct connection is not closed.\<close>

theorem proxy_header_over_webrtc_fails:
  assumes "admits w opts p c1" and "data_link w True c1 = (P2P, dc, pre)"
    and "proxyProtocol opts" and "PeerCertificates p = cert # certs"
    and "length (NewDeviceID (sw_sha256 w) cert) = DeviceIDLength"
    and "parseNetworkAndAddr (forwardAddr opts) = (network, addr)"
    and "sw_dial w network addr = Inr (Some (TCPAddr dip dp), lc)"
  shows "handleForwardConn w opts True p = [Closed Tls, Dialed network addr, Closed Local, Closed Raw]"
proof -
  have pre: "pre = [Closed Tls]" using assms(2) by (auto simp: data_link_def split: prod.splits if_splits)
  have "fst (send_header w opts P2P p (Some (TCPAddr dip dp)) lc) \<noteq> None"
    using mixed_families_refused [OF _ assms(5), of "[]"] assms(3,4)
    by (simp add: send_header_def data_addr_def WebRTCConn_RemoteAddr_def)
  then obtain e lc' where "send_header w opts P2P p (Some (TCPAddr dip dp)) lc = (Some e, lc')"
    by (cases "send_header w opts P2P p (Some (TCPAddr dip dp)) lc") auto
  then show ?thesis
    by (simp add: handleForwardConn_admitted [OF assms(1)] assms(2,6,7) pre)
qed

section \<open>Concrete instances\<close>

definition sample_world :: server_world where
  "sample_world = \<lparr>sw_sha256 = (\<lambda>_. replicate 32 7), sw_hmac = sample_hmac, sw_uni = id, sw_now = 1000000,
     sw_rtc = sample_rtc ''a'', sw_channel = conn_of [1, 2, 3],
     sw_dial = (\<lambda>_ _. Inr (Some (TCPAddr [127, 0, 0, 1] 22), conn_of [])), sw_show_addr = (\<lambda>_. [])\<rparr>"

definition sample_opts :: server_opts where
  "sample_opts = \<lparr>isSocks = False, isShell = False, isCommand = [], so_reverseForward = [], forwardAddr = ''h:22'',
     proxyProtocol = True, authorizedClients = [replicate 32 7], totpSecret = ''AAAAAKQ''\<rparr>"

definition sample_peer :: "bytes \<Rightarrow> tls_peer" where
  "sample_peer data = \<lparr>handshake = None, PeerCertificates = [[1]],
     stream = conn_of (client_bytes ''000042'' @ data), remote_addr = None\<rparr>"

lemma sample_admits: "admits sample_world sample_opts (sample_peer data) ((conn_of data) \<lparr>tx := server_bytes True\<rparr>)"
  using auth_exchange [of "''000042''" "''000042''" True sample_hmac id 1000000 "''AAAAAKQ''" data]
    sample_message sample_valid
  by (simp add: admits_def sample_world_def sample_opts_def sample_peer_def authorized_def NewDeviceID_def)

theorem only_admitted_peers_are_served_witness:
  "handshake (sample_peer []) = None
   \<and> NewDeviceID (sw_sha256 sample_world) (hd (PeerCertificates (sample_peer []))) \<in> set (authorizedClients sample_opts)"
proof -
  let ?ev = "Serve PipeServer Tls ((conn_of []) \<lparr>tx := server_bytes True\<rparr>)"
  have "?ev \<in> set (handleServerConn sample_world sample_opts False (sample_peer []))"
    unfolding handleServerConn_admitted [OF sample_admits]
    by (simp add: data_link_def handleConn_def sample_opts_def)
  then show ?thesis
    using only_admitted_peers_are_served [of ?ev sample_world sample_opts False "sample_peer []"]
    by (auto simp: sample_opts_def)
qed

theorem admitted_peer_is_served_once_witness:
  "last (handleServerConn sample_world sample_opts False (sample_peer [9])) = Closed Raw"
  using admitted_peer_is_served_once [OF sample_admits, where isRelay = False and l = Tls] by (simp add: data_link_def)

lemma sample_upgrade:
  "data_link sample_world True ((conn_of (frame (signal_marshal (offer_msg ''o'')) @ candidate_frames (sample_rtc ''o'')))
     \<lparr>tx := server_bytes True\<rparr>) = (P2P, conn_of [1, 2, 3], [Closed Tls])"
proof -
  let ?c = "(conn_of (frame (signal_marshal (offer_msg ''o'')) @ candidate_frames (sample_rtc ''o'')))
     \<lparr>tx := server_bytes True\<rparr>"
  have e: "ending (sample_rtc x) = Opened" for x by (simp add: sample_rtc_def)
  have w: "sw_rtc sample_world = sample_rtc ''a''" "sw_channel sample_world = conn_of [1, 2, 3]"
    by (simp_all add: sample_world_def)
  show ?thesis
    by (rule server_negotiates [OF sample_rtc_ready(2,1) sample_messages_short(1), of ?c])
       (simp_all add: data_link_def w e await_channel_def)
qed

theorem proxy_header_over_webrtc_fails_witness:
  "handleForwardConn sample_world sample_opts True
     (sample_peer (frame (signal_marshal (offer_msg ''o'')) @ candidate_frames (sample_rtc ''o''))) =
   [Closed Tls, Dialed ''tcp'' ''h:22'', Closed Local, Closed Raw]"
  by (rule proxy_header_over_webrtc_fails [OF sample_admits sample_upgrade, where cert = "[1]" and certs = "[]"
        and dip = "[127, 0, 0, 1]" and dp = 22 and lc = "conn_of []"])
     (simp_all add: sample_opts_def sample_peer_def sample_world_def NewDeviceID_def DeviceIDLength_def
        parseNetworkAndAddr_def HasPrefix_def HasSuffix_def)

end
