(* ===== verification/Discovery.thy ===== *)
theory Discovery
  imports Net_Util
begin

text \<open>
  Global discovery: what the server publishes (\<^verbatim>\<open>announceAddresses\<close> and the loop of \<^verbatim>\<open>announce\<close>
  in \<^verbatim>\<open>main.go\<close>) and what clients and key holders read (\<^verbatim>\<open>lookup\<close> in \<^verbatim>\<open>main.go\<close>,
  \<^verbatim>\<open>LookupRecord\<close> in \<^verbatim>\<open>discovery/discovery.go\<close>).  HTTP exchanges are arguments of the
  definitions: the outcome of each request is an error or a response.  The lemmas show
  when an announcement is sent and that a lookup returns what was announced.
\<close>

section \<open>Decoding the first value of a body\<close>

text \<open>\<^verbatim>\<open>json.NewDecoder(r).Decode\<close> stops after the first value.  The body is read up to where
  it stops being a sequence of tokens; the first value must lie before that point.\<close>

definition lex_longest :: "string \<Rightarrow> tok list" where
  "lex_longest s =
     (case lex s of
        Some ts \<Rightarrow> ts
      | None \<Rightarrow>
          (case find (\<lambda>n. lex (take n s) \<noteq> None) (rev [0..<length s]) of
             None \<Rightarrow> []
           | Some n \<Rightarrow> (case lex (take n s) of None \<Rightarrow> [] | Some ts \<Rightarrow> ts)))"

definition decode_first :: "string \<Rightarrow> gerror + json" where
  "decode_first s =
     (let ts = lex_longest s
      in if list_all json_space s then Inl EOF
         else case pval (Suc (2 * length ts)) ts of
                None \<Rightarrow> Inl JSONError
              | Some (v, rest) \<Rightarrow> if json_depth v \<le> maxNestingDepth then Inr v else Inl JSONError)"

definition decode_struct :: "'a field list \<Rightarrow> 'a \<Rightarrow> string \<Rightarrow> gerror + 'a" where
  "decode_struct fs zero s =
     (case decode_first s of
        Inl e \<Rightarrow> Inl e
      | Inr (JObj ms) \<Rightarrow>
          (case assign_members fs ms zero of None \<Rightarrow> Inl JSONError | Some r \<Rightarrow> Inr r)
      | Inr JNull \<Rightarrow> Inr zero
      | Inr _ \<Rightarrow> Inl JSONError)"

section \<open>Announcing\<close>

text \<open>The relay client is absent, not connected, or connected to the relay with this URI.\<close>

definition announceAddresses :: "string option option \<Rightarrow> int \<Rightarrow> int \<Rightarrow> string list" where
  "announceAddresses rc directPort actualPort =
     (case rc of Some (Some uri) \<Rightarrow> [uri] | _ \<Rightarrow> []) @
     (if 0 < directPort then [''tcp://:'' @ Itoa actualPort] else [])"

definition announce_body :: "string list \<Rightarrow> string" where
  "announce_body addrs = json_print (JObj [(''addresses'', JArr (map JStr addrs))])"

text \<open>How an announcement request ends, and what wakes the loop.\<close>

datatype post_outcome = BadRequest gerror | PostError gerror | PostStatus nat

datatype wake = CtxDone | Tick | Recheck

record announce_turn =
  current :: "string list"
  outcome :: post_outcome
  wakeup :: wake

definition announce_key :: "string list \<Rightarrow> string" where
  "announce_key addrs = Join addrs '',''"

text \<open>One pass of the loop: the body that is posted, if any, and \<open>lastAnnounced\<close> for the next
  pass, or \<open>None\<close> when the loop ends.\<close>

definition announce_pass :: "string \<Rightarrow> announce_turn \<Rightarrow> string option \<times> string option" where
  "announce_pass lastAnnounced t =
     (let key = announce_key (current t)
      in if current t = [] \<or> key = lastAnnounced then
           (None, case wakeup t of CtxDone \<Rightarrow> None | Tick \<Rightarrow> Some [] | Recheck \<Rightarrow> Some lastAnnounced)
         else
           (let lastA = (case outcome t of PostStatus c \<Rightarrow> if c = 204 then key else lastAnnounced
                                         | _ \<Rightarrow> lastAnnounced)
            in (case outcome t of BadRequest e \<Rightarrow> None | _ \<Rightarrow> Some (announce_body (current t)),
                case wakeup t of CtxDone \<Rightarrow> None | Recheck \<Rightarrow> Some lastA | Tick \<Rightarrow> Some [])))"

fun announce :: "string \<Rightarrow> announce_turn list \<Rightarrow> string option list" where
  "announce lastAnnounced [] = []"
| "announce lastAnnounced (t # ts) =
     (case announce_pass lastAnnounced t of
        (p, None) \<Rightarrow> [p]
      | (p, Some l) \<Rightarrow> p # announce l ts)"

section \<open>Looking up\<close>

definition lookup_url :: "string \<Rightarrow> string \<Rightarrow> string" where
  "lookup_url discoveryServer serverID =
     (if Contains discoveryServer ''?'' then discoveryServer @ ''&device='' @ serverID
      else discoveryServer @ ''?device='' @ serverID)"

record LookupResponse =
  lr_Addresses :: "string list"

definition lookup :: "(string \<Rightarrow> gerror + response) \<Rightarrow> string \<Rightarrow> string \<Rightarrow> gerror + string list" where
  "lookup get serverID discoveryServer =
     (case get (lookup_url discoveryServer serverID) of
        Inl e \<Rightarrow> Inl e
      | Inr resp \<Rightarrow>
          if StatusCode resp = 404 then Inl (Errorf (''device '' @ serverID @ '' not found in discovery''))
          else if StatusCode resp \<noteq> 200 then
            Inl (Errorf (''discovery lookup returned HTTP '' @ show_nat (StatusCode resp)))
          else
            (case decode_struct [(''addresses'', strs_field (\<lambda>s r. r \<lparr>lr_Addresses := s\<rparr>))]
                    \<lparr>lr_Addresses = []\<rparr> (Body resp) of
               Inl e \<Rightarrow> Inl e
             | Inr lr \<Rightarrow> Inr (lr_Addresses lr)))"

text \<open>A discovery record: when the device was seen last, if that is known, and its addresses.
  The time parser of the standard library is a parameter.\<close>

record 't Record =
  Seen :: "'t option"
  Addresses :: "string list"

record lookup_body =
  lb_Seen :: string
  lb_Addresses :: "string list"

definition LookupRecord ::
  "(string \<Rightarrow> 't option) \<Rightarrow> (string \<Rightarrow> gerror + response) \<Rightarrow> string \<Rightarrow> string \<Rightarrow> gerror + 't Record option" where
  "LookupRecord parse_time get serverID discoveryServer =
     (case get (lookup_url discoveryServer serverID) of
        Inl e \<Rightarrow> Inl e
      | Inr resp \<Rightarrow>
          if StatusCode resp = 404 then Inr None
          else if StatusCode resp \<noteq> 200 then
            Inl (Errorf (''discovery lookup returned HTTP '' @ show_nat (StatusCode resp)))
          else
            (case decode_struct [(''seen'', str_field (\<lambda>s r. r \<lparr>lb_Seen := s\<rparr>)),
                                 (''addresses'', strs_field (\<lambda>s r. r \<lparr>lb_Addresses := s\<rparr>))]
                    \<lparr>lb_Seen = [], lb_Addresses = []\<rparr> (Body resp) of
               Inl e \<Rightarrow> Inl e
             | Inr body \<Rightarrow>
                 Inr (Some \<lparr>Seen = (if lb_Seen body \<noteq> [] then parse_time (lb_Seen body) else None),
                            Addresses = lb_Addresses body\<rparr>)))"

section \<open>Decoding what was printed\<close>

lemma json_print_not_space: "\<not> list_all json_space (json_print (JObj ms))"
  by (simp add: json_print_def json_space_def)

lemma decode_first_print:
  assumes "json_nums (JObj ms)" and "json_depth (JObj ms) \<le> maxNestingDepth"
  shows "decode_first (json_print (JObj ms)) = Inr (san (JObj ms))"
proof -
  let ?v = "JObj ms"
  have lx: "lex (json_print ?v) = Some (json_toks (san ?v))"
    using assms(1) by (simp only: json_print_def lex_tok_print [OF toks_ok_json_toks(1)] json_toks_san)
  have "pval (Suc (2 * length (json_toks (san ?v)))) (json_toks (san ?v) @ []) = Some (san ?v, [])"
    by (rule pval_json_toks(1)) simp
  then show ?thesis
    using assms(2) json_print_not_space
    by (simp only: decode_first_def lex_longest_def lx option.case append_Nil2 Let_def if_False
        prod.case json_depth_san if_True)
qed

lemma decode_struct_print:
  assumes "json_ok (JObj ms)" and "json_depth (JObj ms) \<le> maxNestingDepth"
    and "assign_members fs ms zero = Some r"
  shows "decode_struct fs zero (json_print (JObj ms)) = Inr r"
  using assms decode_first_print [OF json_ok_nums [OF assms(1)] assms(2)] json_ok_san [OF assms(1)]
  by (simp add: decode_struct_def)

section \<open>Properties\<close>

lemma addresses_member:
  assumes "list_all valid_utf8 addrs"
  shows "json_ok (JObj [(''addresses'', JArr (map JStr addrs))])"
    and "json_depth (JObj [(''addresses'', JArr (map JStr addrs))]) \<le> maxNestingDepth"
  using assms json_depth_strs [of addrs]
  by (auto simp: list_all_iff valid_utf8_ascii is_ascii_def maxNestingDepth_def simp del: json_depth.simps(1))

lemma lookup_announced:
  assumes "list_all valid_utf8 addrs"
    and "get (lookup_url ds serverID) = Inr \<lparr>StatusCode = 200, Body = announce_body addrs\<rparr>"
  shows "lookup get serverID ds = Inr addrs
    \<and> LookupRecord parse_time get serverID ds = Inr (Some \<lparr>Seen = None, Addresses = addrs\<rparr>)"
proof
  note d = decode_struct_print [OF addresses_member [OF assms(1)], folded announce_body_def]
  show "lookup get serverID ds = Inr addrs"
    by (simp add: lookup_def assms(2))
       (subst d [where r = "\<lparr>lr_Addresses = addrs\<rparr>"], simp_all add: json_fields)
  have f: "find_field [(''seen'', g), (''addresses'', h)] ''addresses'' = Some h"
    for g h :: "json \<Rightarrow> lookup_body \<Rightarrow> lookup_body option"
    by (simp add: find_field_def)
  show "LookupRecord parse_time get serverID ds = Inr (Some \<lparr>Seen = None, Addresses = addrs\<rparr>)"
    by (simp add: LookupRecord_def assms(2))
       (subst d [where r = "\<lparr>lb_Seen = [], lb_Addresses = addrs\<rparr>"], simp_all add: f json_fields)
qed


text \<open>the announcement loop repeats itself exactly when it must.  While the addresses stay
  the same, a pass that the discovery server confirmed is not repeated at the next recheck,
  a pass that it did not confirm is, and a refresh tick makes the next pass announce again
  in either case.\<close>

theorem announce_repeats_until_confirmed:
  assumes "current t \<noteq> []" and "announce_key (current t) \<notin> {lastAnnounced, []}"
    and "current t' = current t"
    and "\<forall>e. outcome t \<noteq> BadRequest e" and "\<forall>e. outcome t' \<noteq> BadRequest e"
    and "wakeup t \<noteq> CtxDone"
  shows "announce lastAnnounced [t, t'] =
    [Some (announce_body (current t)),
     if outcome t = PostStatus 204 \<and> wakeup t = Recheck then None else Some (announce_body (current t))]"
  using assms
  by (cases "outcome t"; cases "outcome t'"; cases "wakeup t"; cases "wakeup t'")
     (auto simp: announce_pass_def Let_def)


theorem announce_repeats_until_confirmed_witness:
  "announce [] [\<lparr>current = [''a''], outcome = PostStatus 500, wakeup = Recheck\<rparr>,
                \<lparr>current = [''a''], outcome = PostStatus 204, wakeup = Recheck\<rparr>] =
     [Some (announce_body [''a'']), Some (announce_body [''a''])]"
  using announce_repeats_until_confirmed
    [of "\<lparr>current = [''a''], outcome = PostStatus 500, wakeup = Recheck\<rparr>" "[]"
        "\<lparr>current = [''a''], outcome = PostStatus 204, wakeup = Recheck\<rparr>"]
  by (simp add: announce_key_def)

end
