(* ===== verification/Client.thy ===== *)
theory Client
  imports Server_Handlers Discovery
begin

text \<open>
  The client (\<^verbatim>\<open>RunClient\<close> and \<^verbatim>\<open>handleClientConn\<close> of \<^verbatim>\<open>main.go\<close>): finding the server's
  addresses, trying the direct ones in turn, falling back to the fastest relay, checking
  the identity of the peer, the second factor, and the WebRTC upgrade.  As for the server,
  a run yields the sequence of its effects.
\<close>

section \<open>Connections and effects\<close>

datatype client_link =
    DirectRaw string | DirectTls string
  | RelayRaw | RelayTls | ClientP2P

datatype client_service =
    SocksClient string | ShellClient | ReverseForwardClient string | PipeClient

datatype client_effect =
    CClosed client_link
  | CServe client_service client_link conn

record ClientOptions =
  ServerID :: string
  RelayURI :: string
  DiscoveryServer :: string
  TryDirect :: bool
  Socks :: string
  Shell :: bool
  co_ReverseForward :: string
  TOTPPasscode :: string

text \<open>What comes of one direct address, and the surroundings of a run: the HTTP client, the
  terminal, the network, the relay race (whose winner is a TLS peer) and the WebRTC library.\<close>

datatype direct_try = UrlBad gerror | DialFailed gerror | DialOK tls_peer

record client_world =
  cw_sha256 :: "bytes \<Rightarrow> bytes"
  cw_uni :: "string \<Rightarrow> string"
  cw_stdin :: "client_link \<Rightarrow> stdin_state"
  cw_get :: "string \<Rightarrow> gerror + response"
  cw_direct :: "string \<Rightarrow> direct_try"
  cw_race :: "string list \<Rightarrow> gerror + tls_peer"
  cw_rtc :: rtc
  cw_channel :: conn

section \<open>The run\<close>

definition handleClientConn :: "ClientOptions \<Rightarrow> client_link \<Rightarrow> conn \<Rightarrow> client_effect list" where
  "handleClientConn opts l c =
     (if Socks opts \<noteq> [] then [CServe (SocksClient (Socks opts)) l c]
      else if Shell opts then [CServe ShellClient l c]
      else if co_ReverseForward opts \<noteq> [] then [CServe (ReverseForwardClient (co_ReverseForward opts)) l c]
      else [CServe PipeClient l c, CClosed l])"

text \<open>The direct addresses in turn; the flag tells whether one of them was used.\<close>

fun try_direct :: "client_world \<Rightarrow> ClientOptions \<Rightarrow> device_id \<Rightarrow> string list \<Rightarrow> client_effect list \<times> bool" where
  "try_direct w opts serverID [] = ([], False)"
| "try_direct w opts serverID (addr # addrs) =
     (let skip = (\<lambda>evs. case try_direct w opts serverID addrs of (evs', served) \<Rightarrow> (evs @ evs', served))
      in case cw_direct w addr of
           UrlBad e \<Rightarrow> skip []
         | DialFailed e \<Rightarrow> skip []
         | DialOK p \<Rightarrow>
             if handshake p \<noteq> None then skip [CClosed (DirectRaw addr)]
             else if PeerCertificates p = [] then skip [CClosed (DirectTls addr)]
             else if NewDeviceID (cw_sha256 w) (hd (PeerCertificates p)) \<noteq> serverID then skip [CClosed (DirectTls addr)]
             else case performClientAuth (cw_stdin w (DirectTls addr)) (TOTPPasscode opts) (stream p) of
                    (Some e, c) \<Rightarrow> skip [CClosed (DirectTls addr)]
                  | (None, c) \<Rightarrow> (handleClientConn opts (DirectTls addr) c, True))"

text \<open>The session over the relay that won the race.\<close>

definition relay_session :: "client_world \<Rightarrow> ClientOptions \<Rightarrow> device_id \<Rightarrow> tls_peer \<Rightarrow> gerror option \<times> client_effect list" where
  "relay_session w opts serverID p =
     (case handshake p of
        Some e \<Rightarrow> (Some (wrap_err ''TLS handshake failed'' e), [])
      | None \<Rightarrow>
          if PeerCertificates p = [] then
            (Some (Errorf ''server presented no TLS certificates''), [CClosed RelayTls])
          else
            let peerID = NewDeviceID (cw_sha256 w) (hd (PeerCertificates p))
            in if peerID \<noteq> serverID then
                 (Some (Errorf (''security mismatch: connected to device '' @ DeviceID_String peerID @
                                '', expected '' @ DeviceID_String serverID)), [CClosed RelayTls])
               else
                 (case performClientAuth (cw_stdin w RelayTls) (TOTPPasscode opts) (stream p) of
                    (Some e, c) \<Rightarrow> (Some (wrap_err ''authentication failed'' e), [CClosed RelayTls])
                  | (None, c) \<Rightarrow>
                      if \<not> TryDirect opts then (None, handleClientConn opts RelayTls c)
                      else
                        (case negotiateWebRTCClient (cw_rtc w) c of
                           (Some e, pc, c2) \<Rightarrow>
                             (None, handleClientConn opts RelayTls (snd (sendSignal fallback_msg c2)))
                         | (None, pc, c2) \<Rightarrow>
                             (None, CClosed RelayTls # handleClientConn opts ClientP2P (cw_channel w)))))"

definition client_addresses :: "client_world \<Rightarrow> ClientOptions \<Rightarrow> device_id \<Rightarrow> gerror + string list" where
  "client_addresses w opts serverID =
     (if RelayURI opts \<noteq> [] then Inr [RelayURI opts]
      else case lookup (cw_get w) (DeviceID_String serverID) (DiscoveryServer opts) of
             Inl e \<Rightarrow> Inl (wrap_err ''discovery lookup failed'' e)
           | Inr addresses \<Rightarrow> Inr addresses)"

definition directAddresses :: "string list \<Rightarrow> string list" where
  "directAddresses addresses = filter (\<lambda>a. HasPrefix a ''tcp://'') addresses"

definition relayAddresses :: "string list \<Rightarrow> string list" where
  "relayAddresses addresses = filter (\<lambda>a. \<not> HasPrefix a ''tcp://'' \<and> HasPrefix a ''relay://'') addresses"

definition RunClient :: "client_world \<Rightarrow> ClientOptions \<Rightarrow> gerror option \<times> client_effect list" where
  "RunClient w opts =
     (case DeviceIDFromString (cw_uni w) (ServerID opts) of
        Inl e \<Rightarrow> (Some (wrap_err ''invalid server Device ID'' e), [])
      | Inr serverID \<Rightarrow>
          (case client_addresses w opts serverID of
             Inl e \<Rightarrow> (Some e, [])
           | Inr addresses \<Rightarrow>
               let (evs, served) =
                     (if TryDirect opts then try_direct w opts serverID (directAddresses addresses) else ([], False))
               in if served then (None, evs)
                  else if relayAddresses addresses = [] then
                    (Some (Errorf ''no connectable relay or TCP addresses found''), evs)
                  else
                    (case cw_race w (relayAddresses addresses) of
                       Inl e \<Rightarrow> (Some e, evs)
                     | Inr p \<Rightarrow>
                         let (err, evs') = relay_session w opts serverID p
                         in (err, evs @ evs' @ [CClosed RelayRaw]))))"

section \<open>Which peers are accepted\<close>

text \<open>A peer is accepted when its certificate has the requested ID and the second factor succeeds;
  the stream that remains is handed on.\<close>

definition accepts :: "client_world \<Rightarrow> ClientOptions \<Rightarrow> device_id \<Rightarrow> client_link \<Rightarrow> tls_peer \<Rightarrow> conn option" where
  "accepts w opts serverID l p =
     (if handshake p = None \<and> PeerCertificates p \<noteq> [] \<and> NewDeviceID (cw_sha256 w) (hd (PeerCertificates p)) = serverID
      then case performClientAuth (cw_stdin w l) (TOTPPasscode opts) (stream p) of
             (None, c) \<Rightarrow> Some c
           | (Some e, c) \<Rightarrow> None
      else None)"

definition accepts_direct :: "client_world \<Rightarrow> ClientOptions \<Rightarrow> device_id \<Rightarrow> string \<Rightarrow> conn option" where
  "accepts_direct w opts serverID addr =
     (case cw_direct w addr of DialOK p \<Rightarrow> accepts w opts serverID (DirectTls addr) p | _ \<Rightarrow> None)"

fun is_serve :: "client_effect \<Rightarrow> bool" where
  "is_serve (CServe _ _ _) = True"
| "is_serve (CClosed _) = False"

definition client_service_of :: "ClientOptions \<Rightarrow> client_service" where
  "client_service_of opts =
     (if Socks opts \<noteq> [] then SocksClient (Socks opts)
      else if Shell opts then ShellClient
      else if co_ReverseForward opts \<noteq> [] then ReverseForwardClient (co_ReverseForward opts)
      else PipeClient)"

lemma handleClientConn_serves [simp]:
  "filter is_serve (handleClientConn opts l c) = [CServe (client_service_of opts) l c]"
  by (simp add: handleClientConn_def client_service_of_def)

text \<open>What the attempt at an address that is not accepted leaves behind.\<close>

definition skipped :: "client_world \<Rightarrow> string \<Rightarrow> client_effect list" where
  "skipped w addr =
     (case cw_direct w addr of
        DialOK p \<Rightarrow> [CClosed (if handshake p \<noteq> None then DirectRaw addr else DirectTls addr)]
      | _ \<Rightarrow> [])"

lemma skipped_serves_nothing [simp]: "filter is_serve (skipped w addr) = []"
  by (simp add: skipped_def split: direct_try.split)

lemma try_direct_skip:
  assumes "accepts_direct w opts serverID addr = None"
  shows "try_direct w opts serverID (addr # addrs) =
      (skipped w addr @ fst (try_direct w opts serverID addrs), snd (try_direct w opts serverID addrs))"
proof (cases "cw_direct w addr")
  case (DialOK p)
  obtain r c where r: "performClientAuth (cw_stdin w (DirectTls addr)) (TOTPPasscode opts) (stream p) = (r, c)"
    by (metis surj_pair)
  show ?thesis
  proof (cases "handshake p = None \<and> PeerCertificates p \<noteq> []
      \<and> NewDeviceID (cw_sha256 w) (hd (PeerCertificates p)) = serverID")
    case True
    then obtain e where "r = Some e"
      using assms DialOK r by (cases r) (simp_all add: accepts_direct_def accepts_def)
    then show ?thesis using True DialOK r by (simp add: skipped_def case_prod_unfold)
  next
    case False
    then show ?thesis using DialOK by (auto simp: skipped_def case_prod_unfold)
  qed
qed (simp_all add: skipped_def case_prod_unfold)

lemma try_direct_take:
  "accepts_direct w opts serverID addr = Some c \<Longrightarrow>
   try_direct w opts serverID (addr # addrs) = (handleClientConn opts (DirectTls addr) c, True)"
  by (auto simp: accepts_direct_def accepts_def split: direct_try.splits if_splits prod.splits option.splits)

text \<open>The direct attempts serve the first acceptable address and close every other one that they
  had connected to.\<close>

definition good_direct :: "client_world \<Rightarrow> ClientOptions \<Rightarrow> device_id \<Rightarrow> string \<Rightarrow> bool" where
  "good_direct w opts serverID a \<longleftrightarrow> accepts_direct w opts serverID a \<noteq> None"

lemma try_direct_spec:
  "try_direct w opts serverID addrs =
     (concat (map (skipped w) (takeWhile (\<lambda>a. \<not> good_direct w opts serverID a) addrs)) @
        (case find (good_direct w opts serverID) addrs of
           None \<Rightarrow> []
         | Some a \<Rightarrow> handleClientConn opts (DirectTls a) (the (accepts_direct w opts serverID a))),
      find (good_direct w opts serverID) addrs \<noteq> None)"
proof (induction addrs)
  case (Cons addr addrs)
  show ?case
  proof (cases "accepts_direct w opts serverID addr")
    case None
    then have "\<not> good_direct w opts serverID addr" by (simp add: good_direct_def)
    then show ?thesis unfolding try_direct_skip [OF None] Cons.IH by simp
  next
    case (Some c)
    then have "good_direct w opts serverID addr" by (simp add: good_direct_def)
    then show ?thesis unfolding try_direct_take [OF Some] by (simp add: Some)
  qed
qed simp

lemma skipped_serve_nothing [simp]: "filter is_serve (concat (map (skipped w) as)) = []"
  by (induction as) simp_all

lemma try_direct_serves:
  "filter is_serve (fst (try_direct w opts serverID addrs)) =
     (case find (good_direct w opts serverID) addrs of
        None \<Rightarrow> []
      | Some a \<Rightarrow> [CServe (client_service_of opts) (DirectTls a) (the (accepts_direct w opts serverID a))])"
  by (simp add: try_direct_spec split: option.split)

lemma relay_session_refused:
  assumes "accepts w opts serverID RelayTls p = None"
  shows "fst (relay_session w opts serverID p) \<noteq> None \<and> filter is_serve (snd (relay_session w opts serverID p)) = []"
proof -
  obtain r c where r: "performClientAuth (cw_stdin w RelayTls) (TOTPPasscode opts) (stream p) = (r, c)"
    by (metis surj_pair)
  consider (hs) e where "handshake p = Some e" | (cert) "handshake p = None" "PeerCertificates p = []"
    | (peer) "handshake p = None" "PeerCertificates p \<noteq> []" "NewDeviceID (cw_sha256 w) (hd (PeerCertificates p)) \<noteq> serverID"
    | (auth) e where "handshake p = None" "PeerCertificates p \<noteq> []"
        "NewDeviceID (cw_sha256 w) (hd (PeerCertificates p)) = serverID" "r = Some e"
    using assms r by (cases "handshake p"; cases r) (auto simp: accepts_def split: if_splits)
  then show ?thesis by cases (simp_all add: relay_session_def r Let_def)
qed

lemma relay_session_accepted:
  assumes "accepts w opts serverID RelayTls p = Some c"
  shows "relay_session w opts serverID p =
    (None,
     if \<not> TryDirect opts then handleClientConn opts RelayTls c
     else case negotiateWebRTCClient (cw_rtc w) c of
            (Some e, pc, c2) \<Rightarrow> handleClientConn opts RelayTls (snd (sendSignal fallback_msg c2))
          | (None, pc, c2) \<Rightarrow> CClosed RelayTls # handleClientConn opts ClientP2P (cw_channel w))"
proof -
  obtain r c1 where r: "performClientAuth (cw_stdin w RelayTls) (TOTPPasscode opts) (stream p) = (r, c1)"
    by (metis surj_pair)
  have a: "handshake p = None" "PeerCertificates p \<noteq> []" "NewDeviceID (cw_sha256 w) (hd (PeerCertificates p)) = serverID"
      "r = None" "c1 = c"
    using assms by (cases r; simp add: accepts_def r split: if_splits)+
  have n: "(case x of (Some e, pc, c2) \<Rightarrow> (None, f c2) | (None, pc, c2) \<Rightarrow> (None, g)) =
      (None, case x of (Some e, pc, c2) \<Rightarrow> f c2 | (None, pc, c2) \<Rightarrow> g)"
    for x :: "gerror option \<times> peer_conn \<times> conn" and f :: "conn \<Rightarrow> client_effect list" and g
    by (auto split: prod.split option.split)
  show ?thesis using a by (simp add: relay_session_def r Let_def n)
qed

lemma relay_session_serves:
  assumes "accepts w opts serverID RelayTls p = Some c"
  shows "\<exists>l c'. l \<in> {RelayTls, ClientP2P}
    \<and> filter is_serve (snd (relay_session w opts serverID p)) = [CServe (client_service_of opts) l c']"
proof -
  obtain r pc c2 where n: "negotiateWebRTCClient (cw_rtc w) c = (r, pc, c2)" by (metis surj_pair)
  show ?thesis by (cases r) (auto simp: relay_session_accepted [OF assms] n)
qed

section \<open>Properties\<close>

text \<open>The peer behind a connection of the client.\<close>

definition link_peer :: "client_world \<Rightarrow> string list \<Rightarrow> client_link \<Rightarrow> tls_peer option" where
  "link_peer w addresses l =
     (case l of
        DirectTls a \<Rightarrow> (case cw_direct w a of DialOK p \<Rightarrow> Some p | _ \<Rightarrow> None)
      | DirectRaw a \<Rightarrow> None
      | RelayRaw \<Rightarrow> None
      | _ \<Rightarrow> (case cw_race w (relayAddresses addresses) of Inr p \<Rightarrow> Some p | Inl e \<Rightarrow> None))"

lemma direct_serves:
  assumes "CServe svc l c \<in> set (fst (try_direct w opts serverID addrs))"
  obtains a where "a \<in> set addrs" "l = DirectTls a" "accepts_direct w opts serverID a = Some c"
proof -
  have "CServe svc l c \<in> set (filter is_serve (fst (try_direct w opts serverID addrs)))" using assms by simp
  then obtain a where a: "find (good_direct w opts serverID) addrs = Some a" "l = DirectTls a"
      "c = the (accepts_direct w opts serverID a)"
    unfolding try_direct_serves by (cases "find (good_direct w opts serverID) addrs") auto
  from a(1) have "a \<in> set addrs" "good_direct w opts serverID a" by (auto simp: find_Some_iff)
  with a(2,3) show thesis by (intro that [of a]) (auto simp: good_direct_def)
qed

lemma accepts_peer:
  assumes "accepts w opts serverID l p = Some c"
  shows "handshake p = None" "PeerCertificates p \<noteq> []" "NewDeviceID (cw_sha256 w) (hd (PeerCertificates p)) = serverID"
    "performClientAuth (cw_stdin w l) (TOTPPasscode opts) (stream p) = (None, c)"
  using assms
  by (cases "performClientAuth (cw_stdin w l) (TOTPPasscode opts) (stream p)";
      auto simp: accepts_def split: if_splits option.splits)+

text \<open>A run that serves a connection got it from an accepted direct address or from the relay.\<close>

lemma RunClient_serves:
  assumes "RunClient w opts = (r, evs)" and "CServe svc l c \<in> set evs"
  obtains (direct) serverID addresses a where "DeviceIDFromString (cw_uni w) (ServerID opts) = Inr serverID"
      "client_addresses w opts serverID = Inr addresses" "l = DirectTls a" "accepts_direct w opts serverID a = Some c"
    | (relay) serverID addresses p c1 where "DeviceIDFromString (cw_uni w) (ServerID opts) = Inr serverID"
      "client_addresses w opts serverID = Inr addresses" "cw_race w (relayAddresses addresses) = Inr p"
      "accepts w opts serverID RelayTls p = Some c1" "l \<in> {RelayTls, ClientP2P}"
proof (cases "DeviceIDFromString (cw_uni w) (ServerID opts)")
  case (Inr serverID)
  note id = this
  show ?thesis
  proof (cases "client_addresses w opts serverID")
    case (Inr addresses)
    let ?d = "if TryDirect opts then try_direct w opts serverID (directAddresses addresses) else ([], False)"
    consider (d) "CServe svc l c \<in> set (fst ?d)"
      | (rel) p where "cw_race w (relayAddresses addresses) = Inr p" "CServe svc l c \<in> set (snd (relay_session w opts serverID p))"
      using assms
      by (cases "cw_race w (relayAddresses addresses)")
         (auto simp: RunClient_def id Inr case_prod_unfold Let_def split: if_splits)
    then show ?thesis
    proof cases
      case d
      then have "CServe svc l c \<in> set (fst (try_direct w opts serverID (directAddresses addresses)))"
        by (simp split: if_splits)
      then show ?thesis by (rule direct_serves) (rule direct [OF id Inr])
    next
      case rel
      have f: "CServe svc l c \<in> set (filter is_serve (snd (relay_session w opts serverID p)))" using rel(2) by simp
      then obtain c1 where c1: "accepts w opts serverID RelayTls p = Some c1"
        using relay_session_refused [of w opts serverID p] by (cases "accepts w opts serverID RelayTls p") auto
      have "l \<in> {RelayTls, ClientP2P}" using relay_session_serves [OF c1] f by (auto simp del: set_filter)
      then show ?thesis by (rule relay [OF id Inr rel(1) c1])
    qed
  qed (use assms id in \<open>auto simp: RunClient_def\<close>)
qed (use assms in \<open>auto simp: RunClient_def\<close>)

text \<open>C5: the client hands its data only to the peer it asked for.  Whatever connection it serves,
  the peer behind it completed the handshake, presented a certificate whose hash is the
  requested device ID, and passed the second-factor exchange on that connection.\<close>

theorem client_serves_only_requested_peer:
  assumes "RunClient w opts = (r, evs)" and "CServe svc l c \<in> set evs"
  shows "\<exists>serverID addresses p l' c1. DeviceIDFromString (cw_uni w) (ServerID opts) = Inr serverID
    \<and> client_addresses w opts serverID = Inr addresses
    \<and> link_peer w addresses l = Some p \<and> handshake p = None \<and> PeerCertificates p \<noteq> []
    \<and> NewDeviceID (cw_sha256 w) (hd (PeerCertificates p)) = serverID
    \<and> performClientAuth (cw_stdin w l') (TOTPPasscode opts) (stream p) = (None, c1)"
  using assms
proof (rule RunClient_serves)
  fix serverID addresses a
  assume h: "DeviceIDFromString (cw_uni w) (ServerID opts) = Inr serverID"
    "client_addresses w opts serverID = Inr addresses" "l = DirectTls a" "accepts_direct w opts serverID a = Some c"
  obtain p where p: "cw_direct w a = DialOK p" "accepts w opts serverID l p = Some c"
    using h(3,4) by (auto simp: accepts_direct_def split: direct_try.splits)
  moreover have "link_peer w addresses l = Some p" using p(1) h(3) by (simp add: link_peer_def)
  ultimately show ?thesis using h(1,2) accepts_peer [OF p(2)] by blast
next
  fix serverID addresses p c1
  assume h: "DeviceIDFromString (cw_uni w) (ServerID opts) = Inr serverID"
    "client_addresses w opts serverID = Inr addresses" "cw_race w (relayAddresses addresses) = Inr p"
    "accepts w opts serverID RelayTls p = Some c1" "l \<in> {RelayTls, ClientP2P}"
  have "link_peer w addresses l = Some p" using h(3,5) by (auto simp: link_peer_def)
  then show ?thesis using h(1,2) accepts_peer [OF h(4)] by blast
qed

text \<open>a run serves exactly one connection when it reports success and none when it reports an
  error.\<close>

theorem client_serves_once_or_fails:
  "(\<exists>l c. fst (RunClient w opts) = None \<and> filter is_serve (snd (RunClient w opts)) = [CServe (client_service_of opts) l c])
   \<or> (\<exists>e. fst (RunClient w opts) = Some e \<and> filter is_serve (snd (RunClient w opts)) = [])"
proof (cases "DeviceIDFromString (cw_uni w) (ServerID opts)")
  case (Inr serverID)
  note id = this
  show ?thesis
  proof (cases "client_addresses w opts serverID")
    case (Inr addresses)
    obtain evs b where d: "(if TryDirect opts then try_direct w opts serverID (directAddresses addresses) else ([], False)) = (evs, b)"
      by (metis surj_pair)
    have dd: "if b then \<exists>l c. filter is_serve evs = [CServe (client_service_of opts) l c] else filter is_serve evs = []"
      using d try_direct_serves [of w opts serverID "directAddresses addresses"]
        arg_cong [OF try_direct_spec [of w opts serverID "directAddresses addresses"], of snd]
      by (cases "TryDirect opts") (auto split: option.splits)
    show ?thesis
    proof (cases "b \<or> relayAddresses addresses = []")
      case True
      then show ?thesis using dd by (auto simp: RunClient_def id Inr d split: if_splits)
    next
      case False
      show ?thesis
      proof (cases "cw_race w (relayAddresses addresses)")
        case (Inl e)
        then show ?thesis using False dd by (simp add: RunClient_def id \<open>client_addresses w opts serverID = Inr addresses\<close> d)
      next
        case race: (Inr p)
        have "RunClient w opts = (fst (relay_session w opts serverID p), evs @ snd (relay_session w opts serverID p) @ [CClosed RelayRaw])"
          using False by (simp add: RunClient_def id Inr d race case_prod_unfold Let_def)
        then show ?thesis
          using dd False relay_session_refused [of w opts serverID p] relay_session_serves [of w opts serverID p]
            relay_session_accepted [of w opts serverID p]
          by (cases "accepts w opts serverID RelayTls p") auto
      qed
    qed
  qed (simp add: RunClient_def id)
qed (simp add: RunClient_def)

text \<open>direct addresses come first.  When one of them leads to the requested peer, the client
  serves the first such one without touching a relay, and every connection that it had
  opened to an earlier address is closed by then.\<close>

theorem client_prefers_first_good_direct:
  assumes "DeviceIDFromString (cw_uni w) (ServerID opts) = Inr serverID"
    and "client_addresses w opts serverID = Inr addresses" and "TryDirect opts"
    and "find (good_direct w opts serverID) (directAddresses addresses) = Some a"
  shows "RunClient w opts =
    (None, concat (map (skipped w) (takeWhile (\<lambda>a. \<not> good_direct w opts serverID a) (directAddresses addresses)))
           @ handleClientConn opts (DirectTls a) (the (accepts_direct w opts serverID a)))"
  using assms by (simp add: RunClient_def try_direct_spec)

section \<open>Concrete instances\<close>

text \<open>Two direct addresses: behind the first is another device, behind the second the right one.\<close>

definition sample_cert_peer :: "bytes \<Rightarrow> bytes \<Rightarrow> tls_peer" where
  "sample_cert_peer cert bs = \<lparr>handshake = None, PeerCertificates = [cert], stream = conn_of bs, remote_addr = None\<rparr>"

definition sample_client_world :: client_world where
  "sample_client_world = \<lparr>cw_sha256 = (\<lambda>c. replicate 32 (hd c)), cw_uni = id,
     cw_stdin = (\<lambda>_. \<lparr>is_terminal = False, read_line = Inl EOF\<rparr>), cw_get = (\<lambda>_. Inl EOF),
     cw_direct = (\<lambda>a. DialOK (sample_cert_peer (if a = ''tcp://h:1'' then [7] else [8])
        (frame (challenge_marshal auth_ok) @ [5]))),
     cw_race = (\<lambda>_. Inl EOF), cw_rtc = sample_rtc ''o'', cw_channel = conn_of []\<rparr>"

definition sample_client_opts :: ClientOptions where
  "sample_client_opts = \<lparr>ServerID = DeviceID_String (replicate 32 7), RelayURI = ''tcp://h:1'', DiscoveryServer = [],
     TryDirect = True, Socks = [], Shell = False, co_ReverseForward = [], TOTPPasscode = []\<rparr>"

lemma sample_client_id:
  "DeviceIDFromString (cw_uni sample_client_world) (ServerID sample_client_opts) = Inr (replicate 32 7)"
  using DeviceIDFromString_String [of "replicate 32 7"] by (simp add: sample_client_opts_def DeviceIDLength_def)

lemma sample_client_addresses: "client_addresses sample_client_world sample_client_opts i = Inr [''tcp://h:1'']"
  by (simp add: client_addresses_def sample_client_opts_def)

lemma sample_client_accepts:
  "accepts_direct sample_client_world sample_client_opts (replicate 32 7) ''tcp://h:1'' = Some (conn_of [5])"
  using auth_not_required(2)
  by (simp add: accepts_direct_def accepts_def sample_client_world_def sample_client_opts_def sample_cert_peer_def NewDeviceID_def)

lemma sample_find:
  "find (good_direct sample_client_world sample_client_opts (replicate 32 7)) (directAddresses [''tcp://h:1'']) = Some ''tcp://h:1''"
  by (simp add: directAddresses_def HasPrefix_def good_direct_def sample_client_accepts)

theorem client_prefers_first_good_direct_witness:
  "RunClient sample_client_world sample_client_opts =
     (None, [CServe PipeClient (DirectTls ''tcp://h:1'') (conn_of [5]), CClosed (DirectTls ''tcp://h:1'')])"
proof -
  have "good_direct sample_client_world sample_client_opts (replicate 32 7) ''tcp://h:1''"
    by (simp add: good_direct_def sample_client_accepts)
  moreover have "TryDirect sample_client_opts" by (simp add: sample_client_opts_def)
  moreover have "handleClientConn sample_client_opts l c = [CServe PipeClient l c, CClosed l]" for l c
    by (simp add: handleClientConn_def sample_client_opts_def)
  ultimately show ?thesis
    by (subst client_prefers_first_good_direct [OF sample_client_id sample_client_addresses _ sample_find])
       (simp_all add: directAddresses_def HasPrefix_def sample_client_accepts)
qed

lemma sample_client_runs:
  "\<exists>evs. RunClient sample_client_world sample_client_opts = (None, evs)
     \<and> CServe PipeClient (DirectTls ''tcp://h:1'') (conn_of [5]) \<in> set evs"
proof -
  have "TryDirect sample_client_opts" by (simp add: sample_client_opts_def)
  then show ?thesis
    by (simp add: RunClient_def sample_client_id sample_client_addresses try_direct_spec sample_find sample_client_accepts)
       (simp add: handleClientConn_def sample_client_opts_def)
qed

theorem client_serves_only_requested_peer_witness:
  "\<exists>serverID addresses p l' c1.
      DeviceIDFromString (cw_uni sample_client_world) (ServerID sample_client_opts) = Inr serverID
    \<and> client_addresses sample_client_world sample_client_opts serverID = Inr addresses
    \<and> link_peer sample_client_world addresses (DirectTls ''tcp://h:1'') = Some p \<and> handshake p = None
    \<and> PeerCertificates p \<noteq> []
    \<and> NewDeviceID (cw_sha256 sample_client_world) (hd (PeerCertificates p)) = serverID
    \<and> performClientAuth (cw_stdin sample_client_world l') (TOTPPasscode sample_client_opts) (stream p) = (None, c1)"
proof -
  obtain evs where e: "RunClient sample_client_world sample_client_opts = (None, evs)"
      "CServe PipeClient (DirectTls ''tcp://h:1'') (conn_of [5]) \<in> set evs"
    using sample_client_runs by blast
  show ?thesis by (rule client_serves_only_requested_peer [OF e])
qed

end
