(* ===== verification/Session.thy ===== *)
theory Session
  imports Client
begin

text \<open>
  Client and server together: what each end sends is what the other end reads.  The
  theorems follow a whole session from the accepted connection to the service, directly
  and over the relay with and without the WebRTC upgrade.
\<close>

section \<open>The authentication phase of a session\<close>

text \<open>What the two ends send before anything else.\<close>

definition client_auth_bytes :: "string \<Rightarrow> string \<Rightarrow> bytes" where
  "client_auth_bytes secret passcode = (if secret = [] then [] else client_bytes (TrimSpace passcode))"

definition server_auth_bytes :: "string \<Rightarrow> bytes" where
  "server_auth_bytes secret = (if secret = [] then frame (challenge_marshal auth_ok) else server_bytes True)"

text \<open>The passcode answers the server's demand, if there is one.\<close>

definition good_passcode :: "server_world \<Rightarrow> string \<Rightarrow> string \<Rightarrow> bool" where
  "good_passcode w secret passcode \<longleftrightarrow>
     secret = [] \<or>
     (let code = TrimSpace passcode
      in code \<noteq> [] \<and> valid_utf8 code \<and> length (response_marshal (auth_answer code)) \<le> max_message
         \<and> totp_Validate (sw_hmac w) (sw_uni w) (sw_now w) code secret)"

lemma auth_phase:
  assumes "good_passcode w secret passcode"
  shows "performServerAuth (sw_hmac w) (sw_uni w) (sw_now w) secret (conn_of (client_auth_bytes secret passcode @ up)) =
      (None, (conn_of up) \<lparr>tx := server_auth_bytes secret\<rparr>)"
    and "performClientAuth stdin passcode (conn_of (server_auth_bytes secret @ down)) =
      (None, (conn_of down) \<lparr>tx := client_auth_bytes secret passcode\<rparr>)"
proof -
  have "performServerAuth (sw_hmac w) (sw_uni w) (sw_now w) secret (conn_of (client_auth_bytes secret passcode @ up)) =
      (None, (conn_of up) \<lparr>tx := server_auth_bytes secret\<rparr>)
    \<and> performClientAuth stdin passcode (conn_of (server_auth_bytes secret @ down)) =
      (None, (conn_of down) \<lparr>tx := client_auth_bytes secret passcode\<rparr>)"
  proof (cases "secret = []")
    case True
    then show ?thesis by (simp add: auth_not_required client_auth_bytes_def server_auth_bytes_def)
  next
    case False
    then show ?thesis
      using assms auth_exchange [OF refl, of passcode True "sw_hmac w" "sw_uni w" "sw_now w" secret up stdin down]
      by (simp add: good_passcode_def Let_def client_auth_bytes_def server_auth_bytes_def)
  qed
  then show "performServerAuth (sw_hmac w) (sw_uni w) (sw_now w) secret (conn_of (client_auth_bytes secret passcode @ up)) =
      (None, (conn_of up) \<lparr>tx := server_auth_bytes secret\<rparr>)"
    "performClientAuth stdin passcode (conn_of (server_auth_bytes secret @ down)) =
      (None, (conn_of down) \<lparr>tx := client_auth_bytes secret passcode\<rparr>)" by simp_all
qed

text \<open>The two TLS peers of one session: each presents its certificate to the other, the client asks
  for the server's ID, and the server admits the client's.\<close>

definition session_peers ::
  "client_world \<Rightarrow> ClientOptions \<Rightarrow> server_world \<Rightarrow> server_opts \<Rightarrow> tls_peer \<Rightarrow> tls_peer \<Rightarrow> device_id \<Rightarrow> bool" where
  "session_peers w opts ws so pc ps serverID \<longleftrightarrow>
     handshake pc = None \<and> handshake ps = None
     \<and> PeerCertificates pc \<noteq> [] \<and> NewDeviceID (cw_sha256 w) (hd (PeerCertificates pc)) = serverID
     \<and> authorized (sw_sha256 ws) (authorizedClients so) (PeerCertificates ps)
     \<and> good_passcode ws (totpSecret so) (TOTPPasscode opts)"

lemma session_admitted:
  assumes "session_peers w opts ws so pc ps serverID"
    and "stream ps = conn_of (client_auth_bytes (totpSecret so) (TOTPPasscode opts) @ up)"
    and "stream pc = conn_of (server_auth_bytes (totpSecret so) @ down)"
  shows "admits ws so ps ((conn_of up) \<lparr>tx := server_auth_bytes (totpSecret so)\<rparr>)"
    and "accepts w opts serverID l pc =
      Some ((conn_of down) \<lparr>tx := client_auth_bytes (totpSecret so) (TOTPPasscode opts)\<rparr>)"
proof -
  have g: "good_passcode ws (totpSecret so) (TOTPPasscode opts)" using assms(1) by (simp add: session_peers_def)
  show "admits ws so ps ((conn_of up) \<lparr>tx := server_auth_bytes (totpSecret so)\<rparr>)"
    using assms(1) auth_phase(1) [OF g] by (simp add: admits_def session_peers_def assms(2))
  show "accepts w opts serverID l pc =
      Some ((conn_of down) \<lparr>tx := client_auth_bytes (totpSecret so) (TOTPPasscode opts)\<rparr>)"
    using assms(1) auth_phase(2) [OF g] by (simp add: accepts_def session_peers_def assms(3))
qed

section \<open>Properties\<close>

text \<open>C6: a direct session works end to end.  When the client reaches the right server at a direct
  address and the server admits it, both ends serve the same TLS connection; each had sent
  exactly what the other one read before, and the payload of either direction, which
  follows on the wire, is all there.\<close>

theorem direct_session_works:
  assumes "session_peers w opts ws so pc ps serverID"
    and "stream ps = conn_of (client_auth_bytes (totpSecret so) (TOTPPasscode opts) @ up)"
    and "stream pc = conn_of (server_auth_bytes (totpSecret so) @ down)"
    and "DeviceIDFromString (cw_uni w) (ServerID opts) = Inr serverID"
    and "client_addresses w opts serverID = Inr addresses" and "TryDirect opts"
    and "directAddresses addresses = a # others" and "cw_direct w a = DialOK pc"
  shows "RunClient w opts =
      (None, handleClientConn opts (DirectTls a)
        ((conn_of down) \<lparr>tx := client_auth_bytes (totpSecret so) (TOTPPasscode opts)\<rparr>))
    \<and> handleServerConn ws so False ps =
      handleConn so Tls ((conn_of up) \<lparr>tx := server_auth_bytes (totpSecret so)\<rparr>) @ [Closed Raw]"
proof
  note adm = session_admitted [OF assms(1-3)]
  have acc: "accepts_direct w opts serverID a = Some ((conn_of down) \<lparr>tx := client_auth_bytes (totpSecret so) (TOTPPasscode opts)\<rparr>)"
    using adm(2) assms(8) by (simp add: accepts_direct_def)
  show "RunClient w opts = (None, handleClientConn opts (DirectTls a)
      ((conn_of down) \<lparr>tx := client_auth_bytes (totpSecret so) (TOTPPasscode opts)\<rparr>))"
    using try_direct_take [OF acc] by (simp add: RunClient_def assms(4-7))
  show "handleServerConn ws so False ps =
      handleConn so Tls ((conn_of up) \<lparr>tx := server_auth_bytes (totpSecret so)\<rparr>) @ [Closed Raw]"
    by (simp add: handleServerConn_admitted [OF adm(1)] data_link_def)
qed


text \<open>a fallback that the server asked for corrupts the client's data.  The client answers the
  server's fallback message with one of its own, but the server has already gone over to
  the payload: what its service reads from the client begins with the client's fallback
  message.\<close>

theorem fallback_message_reaches_service:
  assumes "session_peers w opts ws so pc ps serverID"
    and "rtc_ready offer answer (cw_rtc w)" and "new_pc (sw_rtc ws) = Some e"
    and "length (signal_marshal (offer_msg offer)) \<le> max_message"
    and "stream pc = conn_of (server_auth_bytes (totpSecret so) @ frame (signal_marshal fallback_msg) @ down)"
    and "stream ps = conn_of (client_auth_bytes (totpSecret so) (TOTPPasscode opts)
           @ frame (signal_marshal (offer_msg offer)) @ frame (signal_marshal fallback_msg) @ payload)"
    and "DeviceIDFromString (cw_uni w) (ServerID opts) = Inr serverID"
    and "client_addresses w opts serverID = Inr addresses" and "TryDirect opts"
    and "directAddresses addresses = []" and "relayAddresses addresses \<noteq> []"
    and "cw_race w (relayAddresses addresses) = Inr pc"
  shows "\<exists>cc cs. RunClient w opts = (None, handleClientConn opts RelayTls cc @ [CClosed RelayRaw])
    \<and> tx cc = client_auth_bytes (totpSecret so) (TOTPPasscode opts)
           @ frame (signal_marshal (offer_msg offer)) @ frame (signal_marshal fallback_msg)
    \<and> handleServerConn ws so True ps = handleConn so Tls cs @ [Closed Raw]
    \<and> rx cs = frame (signal_marshal fallback_msg) @ payload"
proof -
  note adm = session_admitted [OF assms(1,6,5)]
  have u: "valid_utf8 offer" using assms(2) by (simp add: rtc_ready_def)
  let ?ca = "client_auth_bytes (totpSecret so) (TOTPPasscode opts)"
  let ?o = "frame (signal_marshal (offer_msg offer))" and ?f = "frame (signal_marshal fallback_msg)"
  let ?c = "(conn_of down) \<lparr>tx := ?ca @ ?o\<rparr>"
  have "readSignal ((conn_of (?f @ down)) \<lparr>tx := ?ca @ ?o\<rparr>) = (Inr fallback_msg, ?c)"
    using readSignal_frame [of fallback_msg _ down] fallback_short by (simp add: sdp_messages_wf)
  then have "negotiateWebRTCClient (cw_rtc w) ((conn_of (?f @ down)) \<lparr>tx := ?ca\<rparr>) =
      (Some (Errorf ''server requested fallback''), PCClosed, ?c)"
    using assms(2) by (simp add: rtc_ready_def negotiateWebRTCClient_def sendSignal_ok)
  then have "relay_session w opts serverID pc = (None, handleClientConn opts RelayTls (?c \<lparr>tx := ?ca @ ?o @ ?f\<rparr>))"
    using assms(9) by (simp add: relay_session_accepted [OF adm(2)] sendSignal_ok)
  then have c: "RunClient w opts = (None, handleClientConn opts RelayTls (?c \<lparr>tx := ?ca @ ?o @ ?f\<rparr>) @ [CClosed RelayRaw])"
    by (simp add: RunClient_def assms(7-12))
  let ?s = "(conn_of (?o @ ?f @ payload)) \<lparr>tx := server_auth_bytes (totpSecret so)\<rparr>"
  have "readSignal ?s = (Inr (offer_msg offer), ?s \<lparr>rx := ?f @ payload\<rparr>)"
    by (rule readSignal_frame) (use assms(4) u in \<open>simp_all add: sdp_messages_wf\<close>)
  then have d: "\<exists>cs. data_link ws True ?s = (Tls, cs, []) \<and> rx cs = ?f @ payload"
    using assms(3) by (simp add: data_link_def negotiateWebRTCServer_def sendSignal_ok)
  then obtain cs where d: "data_link ws True ?s = (Tls, cs, [])" "rx cs = ?f @ payload" by blast
  have "handleServerConn ws so True ps = handleConn so Tls cs @ [Closed Raw]"
    using d(1) by (simp add: handleServerConn_admitted [OF adm(1)])
  then show ?thesis
    by (intro exI [of _ "?c \<lparr>tx := ?ca @ ?o @ ?f\<rparr>"] exI [of _ cs] conjI) (use c d(2) in simp_all)
qed

section \<open>Concrete instances\<close>

text \<open>A server that demands a one-time password, and a client that has the right one.\<close>

definition session_opts :: "string \<Rightarrow> ClientOptions" where
  "session_opts uri = sample_client_opts \<lparr>RelayURI := uri, TOTPPasscode := ''000042''\<rparr>"

definition session_server :: "rtc \<Rightarrow> server_world" where
  "session_server r = sample_world \<lparr>sw_rtc := r\<rparr>"

definition session_world :: "bytes \<Rightarrow> client_world" where
  "session_world down = sample_client_world
     \<lparr>cw_direct := (\<lambda>_. DialOK (sample_cert_peer [7] (server_bytes True @ down))),
      cw_race := (\<lambda>_. Inr (sample_cert_peer [7] (server_bytes True @ down)))\<rparr>"

lemma session_sample_peers:
  "session_peers (session_world down) (session_opts u) (session_server r) sample_opts
     (sample_cert_peer [7] bs) (sample_peer up) (replicate 32 7)"
  using sample_message sample_valid
  by (simp add: session_peers_def session_world_def session_opts_def sample_client_world_def sample_cert_peer_def
      sample_peer_def session_server_def sample_world_def sample_client_opts_def sample_opts_def NewDeviceID_def authorized_def good_passcode_def)

lemma session_sample_auth:
  "client_auth_bytes (totpSecret sample_opts) (TOTPPasscode (session_opts u)) = client_bytes ''000042''"
  "server_auth_bytes (totpSecret sample_opts) = server_bytes True"
  by (simp_all add: client_auth_bytes_def server_auth_bytes_def sample_opts_def session_opts_def sample_message(1))

lemma session_sample_streams:
  "stream (sample_peer up) = conn_of (client_bytes ''000042'' @ up)"
  "stream (sample_cert_peer cert bs) = conn_of bs"
  by (simp_all add: sample_peer_def sample_cert_peer_def)

lemma session_sample_id:
  "DeviceIDFromString (cw_uni (session_world down)) (ServerID (session_opts u)) = Inr (replicate 32 7)"
  using sample_client_id by (simp add: session_world_def session_opts_def)

lemma session_sample_addresses:
  "u \<noteq> [] \<Longrightarrow> client_addresses (session_world down) (session_opts u) i = Inr [u]"
  by (simp add: client_addresses_def session_opts_def)

lemma session_sample_direct: "TryDirect (session_opts u)"
  by (simp add: session_opts_def sample_client_opts_def)

lemma session_sample_world:
  "cw_direct (session_world down) a = DialOK (sample_cert_peer [7] (server_bytes True @ down))"
  "cw_race (session_world down) as = Inr (sample_cert_peer [7] (server_bytes True @ down))"
  "cw_rtc (session_world down) = sample_rtc ''o''" "cw_channel (session_world down) = conn_of []"
  "ending (sample_rtc x) = Opened" "sw_rtc (session_server r) = r"
  by (simp_all add: session_server_def session_world_def sample_client_world_def sample_rtc_def)

lemmas session_sample =
  session_sample_world session_sample_auth session_sample_streams session_sample_id session_sample_addresses session_sample_direct

theorem direct_session_works_witness:
  "RunClient (session_world [5]) (session_opts ''tcp://h:1'') =
      (None, handleClientConn (session_opts ''tcp://h:1'') (DirectTls ''tcp://h:1'')
        ((conn_of [5]) \<lparr>tx := client_bytes ''000042''\<rparr>))
   \<and> handleServerConn (session_server (sample_rtc ''a'')) sample_opts False (sample_peer [6]) =
      handleConn sample_opts Tls ((conn_of [6]) \<lparr>tx := server_bytes True\<rparr>) @ [Closed Raw]"
  by (rule direct_session_works [OF session_sample_peers [where bs = "server_bytes True @ [5]" and up = "[6]"],
        where addresses = "[''tcp://h:1'']" and others = "[]", unfolded session_sample_auth])
     (simp_all add: session_sample directAddresses_def HasPrefix_def)


theorem fallback_message_reaches_service_witness:
  "\<exists>cc cs. RunClient (session_world (frame (signal_marshal fallback_msg) @ [5])) (session_opts ''relay://r:443'') =
      (None, handleClientConn (session_opts ''relay://r:443'') RelayTls cc @ [CClosed RelayRaw])
    \<and> tx cc = client_bytes ''000042'' @ frame (signal_marshal (offer_msg ''o'')) @ frame (signal_marshal fallback_msg)
    \<and> handleServerConn (session_server ((sample_rtc ''a'') \<lparr>new_pc := Some EOF\<rparr>)) sample_opts True
        (sample_peer (frame (signal_marshal (offer_msg ''o'')) @ frame (signal_marshal fallback_msg) @ [6])) =
        handleConn sample_opts Tls cs @ [Closed Raw]
    \<and> rx cs = frame (signal_marshal fallback_msg) @ [6]"
  by (rule fallback_message_reaches_service [OF session_sample_peers
        [where down = "frame (signal_marshal fallback_msg) @ [5]"
          and bs = "server_bytes True @ frame (signal_marshal fallback_msg) @ [5]"],
        where offer = "''o''" and answer = "''a''" and e = EOF and down = "[5]"
          and addresses = "[''relay://r:443'']" and payload = "[6]", unfolded session_sample_auth])
     (simp_all add: session_sample sample_rtc_ready sample_messages_short directAddresses_def relayAddresses_def HasPrefix_def)

end
