(* ===== verification/Services.thy ===== *)
theory Services
  imports Server_Handlers
begin

text \<open>
  The services behind a session: the remote shell with its resize messages and the Windows
  line discipline (\<^verbatim>\<open>shell.go\<close>, \<^verbatim>\<open>shell_pty_unix.go\<close>, \<^verbatim>\<open>shell_pty_windows.go\<close>,
  \<^verbatim>\<open>shell_resize_unix.go\<close>), the command server, the SOCKS and reverse-forwarding loops over a
  yamux session (\<^verbatim>\<open>socks.go\<close>, \<^verbatim>\<open>reverse_forward.go\<close>), and the reservation of standard
  output for payload (\<^verbatim>\<open>stdio_unix.go\<close>).  The yamux library, the SOCKS server, the operating
  system's processes and terminals are parameters: the outcomes of the calls.
\<close>

section \<open>Window sizes\<close>

record winsize =
  Rows :: "16 word"
  Cols :: "16 word"

text \<open>The line that the client writes for a width and a height.\<close>

definition size_message :: "int \<times> int \<Rightarrow> string" where
  "size_message sz =
     (case sz of (width, height) \<Rightarrow>
        [CHR ''{'', CHR 0x22] @ ''cols'' @ [CHR 0x22] @ '': '' @ Itoa width @ '', '' @ [CHR 0x22] @ ''rows'' @
        [CHR 0x22] @ '': '' @ Itoa height @ [CHR ''}'', CHR 0x0A])"

text \<open>\<^verbatim>\<open>handleTerminalResize\<close>: one line for each signal for which the size is known.\<close>

definition handleTerminalResize :: "(int \<times> int) option list \<Rightarrow> string" where
  "handleTerminalResize sizes = concat (map (\<lambda>sz. case sz of None \<Rightarrow> [] | Some s \<Rightarrow> size_message s) sizes)"

definition winsize_unmarshal :: "string \<Rightarrow> gerror + winsize" where
  "winsize_unmarshal =
     unmarshal_struct [(''rows'', u16_field (\<lambda>n r. r \<lparr>Rows := n\<rparr>)), (''cols'', u16_field (\<lambda>n r. r \<lparr>Cols := n\<rparr>))]
       \<lparr>Rows = 0, Cols = 0\<rparr>"

text \<open>The server's side: every line that can be decoded resizes the terminal.\<close>

definition resizes :: "string \<Rightarrow> gerror option \<Rightarrow> (16 word \<times> 16 word) list" where
  "resizes input rerr =
     List.map_filter (\<lambda>l. case winsize_unmarshal l of Inl e \<Rightarrow> None | Inr sz \<Rightarrow> Some (Rows sz, Cols sz))
       (fst (scan_lines input rerr))"

section \<open>The Windows shell\<close>

text \<open>One call of \<^verbatim>\<open>windowsShell.Write\<close>: what goes to the standard input of the process, what is
  echoed, and the two control keys, which end the call at once.\<close>

datatype key_result = Typed bytes bytes | Killed | StdinClosed

fun translate :: "bytes \<Rightarrow> bytes \<Rightarrow> bytes \<Rightarrow> key_result" where
  "translate [] translatedStdin echo = Typed translatedStdin echo"
| "translate (b # p) translatedStdin echo =
     (if b = 0x0D \<or> b = 0x0A then translate p (translatedStdin @ [0x0D, 0x0A]) (echo @ [0x0D, 0x0A])
      else if b = 0x7F \<or> b = 0x08 then translate p (translatedStdin @ [0x08]) (echo @ [0x08, 0x20, 0x08])
      else if b = 0x03 then Killed
      else if b = 0x04 then StdinClosed
      else translate p (translatedStdin @ [b]) (echo @ [b]))"

record windowsShell =
  ws_stdin :: bytes
  ws_echo :: bytes
  stdin_open :: bool
  process_alive :: bool
  pipes_open :: bool

definition windowsShell_Write :: "bytes \<Rightarrow> windowsShell \<Rightarrow> nat \<times> windowsShell" where
  "windowsShell_Write p s =
     (case translate p [] [] of
        Killed \<Rightarrow> (length p, s \<lparr>process_alive := False\<rparr>)
      | StdinClosed \<Rightarrow> (length p, s \<lparr>stdin_open := False\<rparr>)
      | Typed i e \<Rightarrow>
          (length p, s \<lparr>ws_stdin := (if stdin_open s then ws_stdin s @ i else ws_stdin s), ws_echo := ws_echo s @ e\<rparr>))"

definition windowsShell_Close :: "windowsShell \<Rightarrow> windowsShell" where
  "windowsShell_Close s = s \<lparr>stdin_open := False, pipes_open := False, process_alive := False\<rparr>"

definition shell_path :: "bool \<Rightarrow> env \<Rightarrow> string" where
  "shell_path windows e =
     (if windows then (if Getenv e ''COMSPEC'' = [] then ''cmd.exe'' else Getenv e ''COMSPEC'')
      else (if Getenv e ''SHELL'' = [] then ''/bin/sh'' else Getenv e ''SHELL''))"

section \<open>Services over a yamux session\<close>

text \<open>What a service does, in order; a goroutine that it starts has an order of its own.  Streams and
  local connections are numbered as they come.\<close>

datatype svc_effect =
    SessionClosed
  | ShellSpawned string | Resized "16 word" "16 word" | ShellClosed | ShellWaited
  | StreamServed nat
  | FileRemoved string | Listening string string | ListenerClosed
  | LocalAccepted nat | StreamOpened nat | StreamPiped nat | StreamClosed nat | LocalClosed nat
  | TargetDialed string string | TargetClosed nat
  | RawMode | RawRestored | SizeSent string | CopiedIn | CopiedOut
  | Go "svc_effect list"

record shell_calls =
  mux :: "gerror option"
  data_stream :: "gerror option"
  control_stream :: "gerror option"
  spawn :: "gerror option"
  control_input :: string
  control_end :: "gerror option"

text \<open>\<^verbatim>\<open>runShellServer\<close>: resizes and input come in goroutines of their own.\<close>

definition runShellServer :: "bool \<Rightarrow> env \<Rightarrow> shell_calls \<Rightarrow> svc_effect list" where
  "runShellServer windows e k =
     (if mux k \<noteq> None then []
      else if data_stream k \<noteq> None then [SessionClosed]
      else if control_stream k \<noteq> None then [SessionClosed]
      else if spawn k \<noteq> None then [SessionClosed]
      else ShellSpawned (shell_path windows e) #
           Go (map (\<lambda>(r, c). Resized r c) (resizes (control_input k) (control_end k))) # Go [CopiedIn] #
           [CopiedOut, ShellWaited, ShellClosed, SessionClosed])"

record shell_client_calls =
  make_raw :: "gerror option"
  client_mux :: "gerror option"
  open_data :: "gerror option"
  open_control :: "gerror option"
  term_size :: "(int \<times> int) option"
  term_changes :: "(int \<times> int) option list"

text \<open>\<^verbatim>\<open>runShellClient\<close>: the terminal is put back however the session ends.\<close>

definition runShellClient :: "shell_client_calls \<Rightarrow> svc_effect list" where
  "runShellClient k =
     (let raw = make_raw k = None;
          body = (if client_mux k \<noteq> None then []
                  else if open_data k \<noteq> None then [SessionClosed]
                  else if open_control k \<noteq> None then [SessionClosed]
                  else (case term_size k of None \<Rightarrow> [] | Some sz \<Rightarrow> [SizeSent (size_message sz)]) @
                       [Go [SizeSent (handleTerminalResize (term_changes k))], Go [CopiedIn], CopiedOut, SessionClosed])
      in (if raw then [RawMode] else []) @ body @ (if raw then [RawRestored] else []))"

text \<open>\<^verbatim>\<open>runSocksServer\<close>: a goroutine per stream, until a stream cannot be accepted.\<close>

fun accept_streams :: "nat \<Rightarrow> gerror option list \<Rightarrow> svc_effect list" where
  "accept_streams n [] = []"
| "accept_streams n (None # as) = Go [StreamServed n] # accept_streams (Suc n) as"
| "accept_streams n (Some e # as) = [SessionClosed]"

definition runSocksServer :: "gerror option \<Rightarrow> gerror option \<Rightarrow> gerror option list \<Rightarrow> svc_effect list" where
  "runSocksServer mux_err socks_err accepts =
     (if mux_err \<noteq> None then []
      else if socks_err \<noteq> None then [SessionClosed]
      else accept_streams 0 accepts)"

text \<open>A loop that accepts local connections and carries each over its own stream.  For each accepted
  connection the outcome of opening the stream is given.\<close>

definition carry_local :: "nat \<Rightarrow> gerror option \<Rightarrow> svc_effect list" where
  "carry_local n open_err =
     (case open_err of
        Some e \<Rightarrow> [LocalClosed n]
      | None \<Rightarrow> [StreamOpened n, StreamPiped n, StreamClosed n, LocalClosed n])"

fun accept_locals :: "nat \<Rightarrow> (gerror + gerror option) list \<Rightarrow> svc_effect list \<Rightarrow> svc_effect list" where
  "accept_locals n [] at_end = []"
| "accept_locals n (Inl e # as) at_end = at_end"
| "accept_locals n (Inr open_err # as) at_end = LocalAccepted n # Go (carry_local n open_err) # accept_locals (Suc n) as at_end"

definition runSocksClient ::
  "gerror option \<Rightarrow> gerror option \<Rightarrow> string \<Rightarrow> (gerror + gerror option) list \<Rightarrow> svc_effect list" where
  "runSocksClient mux_err listen_err localPort accepts =
     (if mux_err \<noteq> None then []
      else if listen_err \<noteq> None then [SessionClosed]
      else Listening ''tcp'' localPort # accept_locals 0 accepts [ListenerClosed, SessionClosed])"

definition runReverseForwardServer ::
  "gerror option \<Rightarrow> gerror option \<Rightarrow> string \<Rightarrow> (gerror + gerror option) list \<Rightarrow> svc_effect list" where
  "runReverseForwardServer mux_err listen_err bindAddr accepts =
     (if mux_err \<noteq> None then []
      else let (network, addr) = parseNetworkAndAddr bindAddr;
               rm = (if network = ''unix'' then [FileRemoved addr] else [])
           in rm @ (if listen_err \<noteq> None then rm @ [SessionClosed]
                    else Listening network addr # accept_locals 0 accepts (ListenerClosed # rm @ [SessionClosed])))"

text \<open>\<^verbatim>\<open>runReverseForwardClient\<close>: for each accepted stream the outcome of dialling the target.\<close>

fun accept_reverse :: "string \<Rightarrow> nat \<Rightarrow> (gerror + gerror option) list \<Rightarrow> svc_effect list" where
  "accept_reverse targetAddr n [] = []"
| "accept_reverse targetAddr n (Inl e # as) = [SessionClosed]"
| "accept_reverse targetAddr n (Inr dial_err # as) =
     (let (network, addr) = parseNetworkAndAddr targetAddr
      in Go (TargetDialed network addr #
             (case dial_err of Some e \<Rightarrow> [StreamClosed n] | None \<Rightarrow> [StreamPiped n, TargetClosed n, StreamClosed n])) #
         accept_reverse targetAddr (Suc n) as)"

definition runReverseForwardClient :: "gerror option \<Rightarrow> string \<Rightarrow> (gerror + gerror option) list \<Rightarrow> svc_effect list" where
  "runReverseForwardClient mux_err targetAddr accepts =
     (if mux_err \<noteq> None then [] else accept_reverse targetAddr 0 accepts)"

section \<open>The command server\<close>

text \<open>Once the command runs, its three pipes and its end are events; \<^verbatim>\<open>runCommandServer\<close> returns when
  both outputs have been copied to their ends and the process has been waited for.  The copy
  to the command's standard input is not waited for.\<close>

datatype cmd_event = InputEnds | StderrLine string | StderrEnds | StdoutEnds | Exits "gerror option"

record cmd_calls =
  stdin_pipe :: "gerror option"
  stdout_pipe :: "gerror option"
  stderr_pipe :: "gerror option"
  cmd_start :: "gerror option"

record cmd_state =
  argv :: "string list"
  cmd_stdin_open :: bool
  logged :: "string list"
  stderr_done :: bool
  stdout_done :: bool
  exited :: "gerror option option"

definition command_line :: "bool \<Rightarrow> string \<Rightarrow> string list" where
  "command_line windows commandStr =
     (if windows then [''cmd.exe'', ''/c'', commandStr] else [''/bin/sh'', ''-c'', commandStr])"

fun cmd_step :: "cmd_event \<Rightarrow> cmd_state \<Rightarrow> cmd_state" where
  "cmd_step InputEnds s = s \<lparr>cmd_stdin_open := False\<rparr>"
| "cmd_step (StderrLine l) s = (if stderr_done s then s else s \<lparr>logged := logged s @ [l]\<rparr>)"
| "cmd_step StderrEnds s = s \<lparr>stderr_done := True\<rparr>"
| "cmd_step StdoutEnds s = s \<lparr>stdout_done := True\<rparr>"
| "cmd_step (Exits e) s = (if exited s = None then s \<lparr>exited := Some e\<rparr> else s)"

definition cmd_returned :: "cmd_state \<Rightarrow> bool" where
  "cmd_returned s \<longleftrightarrow> stderr_done s \<and> stdout_done s \<and> exited s \<noteq> None"

fun cmd_run :: "cmd_event list \<Rightarrow> cmd_state \<Rightarrow> cmd_state" where
  "cmd_run [] s = s"
| "cmd_run (ev # evs) s = (if cmd_returned s then s else cmd_run evs (cmd_step ev s))"

text \<open>\<open>None\<close> when the command could not be started.\<close>

definition runCommandServer :: "bool \<Rightarrow> cmd_calls \<Rightarrow> string \<Rightarrow> cmd_event list \<Rightarrow> cmd_state option" where
  "runCommandServer windows k commandStr evs =
     (if stdin_pipe k \<noteq> None then None
      else if stdout_pipe k \<noteq> None then None
      else if stderr_pipe k \<noteq> None then None
      else if cmd_start k \<noteq> None then None
      else Some (cmd_run evs \<lparr>argv = command_line windows commandStr, cmd_stdin_open = True, logged = [],
                   stderr_done = False, stdout_done = False, exited = None\<rparr>))"

section \<open>Reserving standard output\<close>

text \<open>The descriptor table of the process; the calls may fail.\<close>

type_synonym 'f fds = "nat \<rightharpoonup> 'f"

definition reserveDataStdout :: "gerror + nat \<Rightarrow> gerror option \<Rightarrow> 'f fds \<Rightarrow> nat \<times> 'f fds" where
  "reserveDataStdout dup dup2 t =
     (case dup of
        Inl e \<Rightarrow> (1, t)
      | Inr dataFD \<Rightarrow>
          let t1 = t(dataFD := t 1)
          in case dup2 of
               Some e \<Rightarrow> (1, t1(dataFD := None))
             | None \<Rightarrow> (dataFD, t1(1 := t1 2)))"

text \<open>Under Windows neither is standard output reserved (\<^verbatim>\<open>stdio_windows.go\<close>) nor are changes of the
  window reported (\<^verbatim>\<open>shell_resize_windows.go\<close>).\<close>

definition reserveDataStdout_windows :: "'f fds \<Rightarrow> nat \<times> 'f fds" where
  "reserveDataStdout_windows t = (1, t)"

definition handleTerminalResize_windows :: "(int \<times> int) option list \<Rightarrow> string" where
  "handleTerminalResize_windows sizes = []"

section \<open>Window sizes arrive\<close>

lemma lex_number:
  assumes "nat_lit l" and "num_end s"
  shows "lex (l @ s) = map_option (Cons (TNum l)) (lex s)"
proof -
  obtain c u where l: "l = c # u" "is_digit c" using assms(1) by (cases l) (auto simp: nat_lit_def)
  show ?thesis using lex_digit [OF l(2), of "u @ s" l] lex_num_nat_lit [OF assms] l by simp
qed

lemma lex_quoted:
  assumes "escape k = k" and "to_valid k = k"
  shows "lex (CHR 0x22 # k @ CHR 0x22 # s) = map_option (Cons (TStr k)) (lex s)"
  using lex_str_escape [of k s] assms
  by (simp add: lex.simps(2) json_space_def punct_def)

lemma lex_sign:
  "lex (CHR ''{'' # s) = map_option (Cons LBrace) (lex s)" "lex (CHR ''}'' # s) = map_option (Cons RBrace) (lex s)"
  "lex (CHR '':'' # s) = map_option (Cons Colon) (lex s)" "lex (CHR '','' # s) = map_option (Cons Comma) (lex s)"
  "lex (CHR '' '' # s) = lex s"
  by (simp_all add: lex.simps(2) json_space_def punct_def)

lemma size_keys:
  "escape ''cols'' = ''cols''" "to_valid ''cols'' = ''cols''" "escape ''rows'' = ''rows''" "to_valid ''rows'' = ''rows''"
  by code_simp+

lemma size_message_parses:
  assumes "nat_lit w" and "nat_lit h"
  shows "json_parse ([CHR ''{'', CHR 0x22] @ ''cols'' @ [CHR 0x22] @ '': '' @ w @ '', '' @ [CHR 0x22] @ ''rows'' @
        [CHR 0x22] @ '': '' @ h @ ''}'') = Some (JObj [(''cols'', JNum w), (''rows'', JNum h)])"
proof -
  have e: "num_end ('', '' @ s)" "num_end ''}''" for s by (simp_all add: num_end_def is_digit_def byte_in_def)
  have q: "lex (CHR 0x22 # ''cols'' @ CHR 0x22 # s) = map_option (Cons (TStr ''cols'')) (lex s)"
    "lex (CHR 0x22 # ''rows'' @ CHR 0x22 # s) = map_option (Cons (TStr ''rows'')) (lex s)" for s
    by (rule lex_quoted, rule size_keys, rule size_keys)+
  have "lex ([CHR ''{'', CHR 0x22] @ ''cols'' @ [CHR 0x22] @ '': '' @ w @ '', '' @ [CHR 0x22] @ ''rows'' @
        [CHR 0x22] @ '': '' @ h @ ''}'') =
      Some [LBrace, TStr ''cols'', Colon, TNum w, Comma, TStr ''rows'', Colon, TNum h, RBrace]"
    using q lex_number [OF assms(1) e(1)] lex_number [OF assms(2) e(2)] by (simp add: lex_sign)
  moreover have "pval 19 [LBrace, TStr ''cols'', Colon, TNum w, Comma, TStr ''rows'', Colon, TNum h, RBrace] =
      Some (JObj [(''cols'', JNum w), (''rows'', JNum h)], [])"
    using pval_json_toks(1) [of "JObj [(''cols'', JNum w), (''rows'', JNum h)]" 19 "[]"] by simp
  ultimately show ?thesis by (simp add: json_parse_def maxNestingDepth_def)
qed

lemma winsize_fields [json_fields]:
  "find_field [(''rows'', f), (''cols'', g)] ''rows'' = Some f" "find_field [(''rows'', f), (''cols'', g)] ''cols'' = Some g"
  by (simp_all add: find_field_def)

lemma u16_in_range: "0 \<le> n \<Longrightarrow> n < 65536 \<Longrightarrow> u16_field upd (JNum (show_nat (nat n))) r = Some (upd (of_int n) r)"
proof -
  assume n: "0 \<le> n" "n < 65536"
  then have "(of_int n :: 16 word) = of_nat (nat n)" by simp
  then have "unat (of_int n :: 16 word) = nat n" using n by (simp only: unat_of_nat) simp
  then show ?thesis using u16_field_show_nat [of upd "of_int n" r] by simp
qed

definition fits16 :: "int \<times> int \<Rightarrow> bool" where
  "fits16 sz \<longleftrightarrow> (case sz of (w, h) \<Rightarrow> 0 \<le> w \<and> w < 65536 \<and> 0 \<le> h \<and> h < 65536)"


lemma size_message_line:
  assumes "fits16 sz"
  obtains l where "size_message sz = l @ [CHR 0x0A]" "CHR 0x0A \<notin> set l" "last l \<noteq> CHR 0x0D" "length l < MaxScanTokenSize"
    "winsize_unmarshal l = Inr \<lparr>Rows = of_int (snd sz), Cols = of_int (fst sz)\<rparr>"
proof -
  obtain w h where sz: "sz = (w, h)" "0 \<le> w" "w < 65536" "0 \<le> h" "h < 65536"
    using assms by (auto simp: fits16_def)
  let ?w = "show_nat (nat w)" and ?h = "show_nat (nat h)"
  let ?l = "[CHR ''{'', CHR 0x22] @ ''cols'' @ [CHR 0x22] @ '': '' @ ?w @ '', '' @ [CHR 0x22] @ ''rows'' @
        [CHR 0x22] @ '': '' @ ?h @ ''}''"
  have digits: "c \<in> set (show_nat n) \<Longrightarrow> is_digit c" for c n
    using set_show_nat digit_char_is_digit by fastforce
  show thesis
  proof (rule that)
    show "size_message sz = ?l @ [CHR 0x0A]" using sz by (simp add: size_message_def Itoa_def)
    have "CHR 0x0A \<notin> set (show_nat n)" for n
      using digits [of "CHR 0x0A" n] by (auto simp: is_digit_def byte_in_def)
    then show "CHR 0x0A \<notin> set ?l" by simp
    show "last ?l \<noteq> CHR 0x0D" by simp
    have "length (show_nat (nat w)) \<le> 5" "length (show_nat (nat h)) \<le> 5"
      using sz length_show_nat [of "nat w" 5] length_show_nat [of "nat h" 5] by simp_all
    then show "length ?l < MaxScanTokenSize" by (simp add: MaxScanTokenSize_def)
    show "winsize_unmarshal ?l = Inr \<lparr>Rows = of_int (snd sz), Cols = of_int (fst sz)\<rparr>"
      unfolding winsize_unmarshal_def unmarshal_struct_def size_message_parses [OF nat_lit_show_nat nat_lit_show_nat]
      using sz by (simp add: winsize_fields u16_in_range)
  qed
qed

text \<open>every change of the client's window reaches the server's terminal, in order, with rows and
  columns in their places.\<close>

theorem resize_messages_arrive:
  assumes "list_all (pred_option fits16) sizes"
  shows "resizes (handleTerminalResize sizes) e =
    map (\<lambda>(w, h). (of_int h, of_int w)) (List.map_filter id sizes)"
  using assms
proof (induction sizes)
  case Nil
  then show ?case by (simp add: handleTerminalResize_def resizes_def scan_lines_def raw_lines_def map_filter_def)
next
  case (Cons sz sizes)
  show ?case
  proof (cases sz)
    case None
    then show ?thesis using Cons by (simp add: handleTerminalResize_def map_filter_def)
  next
    case (Some p)
    then obtain l where l: "size_message p = l @ [CHR 0x0A]" "CHR 0x0A \<notin> set l" "last l \<noteq> CHR 0x0D" "length l < MaxScanTokenSize"
        "winsize_unmarshal l = Inr \<lparr>Rows = of_int (snd p), Cols = of_int (fst p)\<rparr>"
      using Cons.prems by (auto elim: size_message_line)
    have "resizes (handleTerminalResize (sz # sizes)) e =
        (of_int (snd p), of_int (fst p)) # resizes (handleTerminalResize sizes) e"
      using l(5) scan_lines_line [OF l(2-4)] Some
      by (simp add: resizes_def handleTerminalResize_def l(1) map_filter_def)
    then show ?thesis using Cons Some by (simp add: map_filter_def case_prod_unfold)
  qed
qed

theorem resize_messages_arrive_witness:
  "resizes (handleTerminalResize [Some (80, 24), None, Some (132, 50)]) None = [(24, 80), (50, 132)]"
  by (subst resize_messages_arrive) (simp_all add: fits16_def map_filter_def)

section \<open>The Windows line discipline\<close>

definition control_key :: "byte \<Rightarrow> bool" where
  "control_key b \<longleftrightarrow> b = 0x03 \<or> b = 0x04"

definition typed :: "byte \<Rightarrow> bytes" where
  "typed b = (if b = 0x0D \<or> b = 0x0A then [0x0D, 0x0A] else if b = 0x7F \<or> b = 0x08 then [0x08] else [b])"

definition echoed :: "byte \<Rightarrow> bytes" where
  "echoed b = (if b = 0x0D \<or> b = 0x0A then [0x0D, 0x0A] else if b = 0x7F \<or> b = 0x08 then [0x08, 0x20, 0x08] else [b])"

lemma translate_plain:
  "list_all (\<lambda>b. \<not> control_key b) p \<Longrightarrow>
   translate (p @ q) i e = translate q (i @ concat (map typed p)) (e @ concat (map echoed p))"
  by (induction p arbitrary: i e) (simp_all add: control_key_def typed_def echoed_def)

lemma windowsShell_Write_plain:
  "list_all (\<lambda>b. \<not> control_key b) p \<Longrightarrow> stdin_open s \<Longrightarrow>
   windowsShell_Write p s =
     (length p, s \<lparr>ws_stdin := ws_stdin s @ concat (map typed p), ws_echo := ws_echo s @ concat (map echoed p)\<rparr>)"
  using translate_plain [of p "[]" "[]" "[]"] by (simp add: windowsShell_Write_def)

text \<open>without control keys the Windows shell gets what was typed, with line ends and backspaces
  translated, however the input is cut into writes.\<close>

theorem windows_input_is_chunked_freely:
  assumes "list_all (\<lambda>b. \<not> control_key b) (p @ q)" and "stdin_open s"
  shows "snd (windowsShell_Write q (snd (windowsShell_Write p s))) = snd (windowsShell_Write (p @ q) s)
    \<and> ws_stdin (snd (windowsShell_Write (p @ q) s)) = ws_stdin s @ concat (map typed (p @ q))"
  using assms by (simp add: windowsShell_Write_plain)

theorem windows_input_is_chunked_freely_witness:
  "snd (windowsShell_Write [0x0D] (snd (windowsShell_Write [0x61] \<lparr>ws_stdin = [], ws_echo = [], stdin_open = True,
      process_alive = True, pipes_open = True\<rparr>))) =
   snd (windowsShell_Write [0x61, 0x0D] \<lparr>ws_stdin = [], ws_echo = [], stdin_open = True, process_alive = True, pipes_open = True\<rparr>)"
  using windows_input_is_chunked_freely [of "[0x61]" "[0x0D]"
      "\<lparr>ws_stdin = [], ws_echo = [], stdin_open = True, process_alive = True, pipes_open = True\<rparr>"]
  by (simp add: control_key_def)

text \<open>a control key swallows what was typed before it in the same write: nothing of it reaches
  the shell and nothing is echoed, although the whole write is reported as done.\<close>

theorem windows_control_key_drops_input:
  assumes "list_all (\<lambda>b. \<not> control_key b) p" and "control_key k"
  shows "windowsShell_Write (p @ k # q) s =
    (length p + 1 + length q, if k = 0x03 then s \<lparr>process_alive := False\<rparr> else s \<lparr>stdin_open := False\<rparr>)"
  using assms by (auto simp: windowsShell_Write_def translate_plain control_key_def)

theorem windows_control_key_drops_input_witness:
  "windowsShell_Write [0x65, 0x78, 0x69, 0x74, 0x0D, 0x04]
     \<lparr>ws_stdin = [], ws_echo = [], stdin_open = True, process_alive = True, pipes_open = True\<rparr> =
   (6, \<lparr>ws_stdin = [], ws_echo = [], stdin_open = False, process_alive = True, pipes_open = True\<rparr>)"
  using windows_control_key_drops_input [of "[0x65, 0x78, 0x69, 0x74, 0x0D]" "0x04" "[]"
      "\<lparr>ws_stdin = [], ws_echo = [], stdin_open = True, process_alive = True, pipes_open = True\<rparr>"]
  by (simp add: control_key_def)

section \<open>Sessions are cleaned up\<close>

lemma accept_locals_run:
  "accept_locals n (map Inr opens @ [Inl e]) at_end = accept_locals n (map Inr opens) [] @ at_end"
  "accept_locals n (map Inr opens) at_end = accept_locals n (map Inr opens) []"
  "ev \<in> set (accept_locals n (map Inr opens) at_end) \<Longrightarrow> (\<exists>m. ev = LocalAccepted m) \<or> (\<exists>es. ev = Go es)"
  by (induction opens arbitrary: n) auto

text \<open>a reverse-forwarding server on a Unix socket removes the socket's file before it binds it,
  and when its listener fails it closes the listener, removes the file again and closes the
  session, in this order.  Until then it keeps all three, even when no stream can be opened
  any more because the client is gone.\<close>

theorem reverse_forward_cleans_up:
  assumes "parseNetworkAndAddr bindAddr = (''unix'', path)"
  shows "\<exists>body. runReverseForwardServer None None bindAddr (map Inr opens) =
      [FileRemoved path, Listening ''unix'' path] @ body
    \<and> runReverseForwardServer None None bindAddr (map Inr opens @ [Inl e]) =
      [FileRemoved path, Listening ''unix'' path] @ body @ [ListenerClosed, FileRemoved path, SessionClosed]
    \<and> set body \<inter> {SessionClosed, ListenerClosed, FileRemoved path} = {}"
proof -
  let ?b = "accept_locals 0 (map Inr opens) []"
  have "set ?b \<inter> {SessionClosed, ListenerClosed, FileRemoved path} = {}"
    using accept_locals_run(3) [of _ 0 opens "[]"] by fastforce
  then show ?thesis
    by (intro exI [of _ ?b])
       (simp add: runReverseForwardServer_def assms accept_locals_run(1) accept_locals_run(2) [of 0 opens "_ # _"])
qed

theorem reverse_forward_cleans_up_witness:
  "\<exists>body. runReverseForwardServer None None ''/run/x.sock'' [Inr (Some EOF)] =
      [FileRemoved ''/run/x.sock'', Listening ''unix'' ''/run/x.sock''] @ body"
proof -
  have "parseNetworkAndAddr ''/run/x.sock'' = (''unix'', ''/run/x.sock'')"
    by (simp add: parseNetworkAndAddr_def HasPrefix_def)
  from reverse_forward_cleans_up [OF this, of "[Some EOF]"] show ?thesis by auto
qed

section \<open>Commands\<close>

lemma cmd_run_events:
  "cmd_returned (cmd_run evs s) \<Longrightarrow>
   (stdout_done s \<or> StdoutEnds \<in> set evs) \<and> (stderr_done s \<or> StderrEnds \<in> set evs)
   \<and> (exited s \<noteq> None \<or> (\<exists>e. Exits e \<in> set evs))"
proof (induction evs arbitrary: s)
  case Nil
  then show ?case by (simp add: cmd_returned_def)
next
  case (Cons ev evs)
  show ?case
  proof (cases "cmd_returned s")
    case True
    then show ?thesis by (simp add: cmd_returned_def)
  next
    case False
    then have "cmd_returned (cmd_run evs (cmd_step ev s))" using Cons.prems by simp
    from Cons.IH [OF this] show ?thesis by (cases ev) (auto split: if_splits)
  qed
qed

text \<open>the command server does not return before the command's output is complete: both outputs
  have been copied to their ends and the process has ended, whatever the client does with
  the command's input.\<close>

theorem command_output_is_complete:
  assumes "runCommandServer windows k cmd evs = Some s" and "cmd_returned s"
  shows "StdoutEnds \<in> set evs \<and> StderrEnds \<in> set evs \<and> (\<exists>e. Exits e \<in> set evs)"
  using assms cmd_run_events [of evs "\<lparr>argv = command_line windows cmd, cmd_stdin_open = True, logged = [],
      stderr_done = False, stdout_done = False, exited = None\<rparr>"]
  by (simp add: runCommandServer_def split: if_splits)

theorem command_output_is_complete_witness:
  "StdoutEnds \<in> set [StderrLine ''w'', StdoutEnds, StderrEnds, Exits None]"
  using command_output_is_complete
    [of False "\<lparr>stdin_pipe = None, stdout_pipe = None, stderr_pipe = None, cmd_start = None\<rparr>" "''ls''"
      "[StderrLine ''w'', StdoutEnds, StderrEnds, Exits None]"]
  by (simp add: runCommandServer_def cmd_returned_def)

section \<open>Standard output\<close>

text \<open>the reservation protects the payload.  When it succeeds, the returned descriptor is the real
  standard output and everything written to descriptor 1 goes to standard error; when it
  fails, every descriptor is as before and the payload goes to descriptor 1.\<close>

theorem reserved_stdout_is_private:
  assumes "dataFD \<notin> {1, 2}" and "t dataFD = None" and "t 1 = Some out" and "t 2 = Some err"
  shows "(case reserveDataStdout (Inr dataFD) None t of (fd, t') \<Rightarrow>
            t' fd = Some out \<and> t' 1 = Some err \<and> t' 2 = Some err \<and> (\<forall>n. n \<notin> {1, fd} \<longrightarrow> t' n = t n))
    \<and> reserveDataStdout (Inr dataFD) (Some e) t = (1, t) \<and> reserveDataStdout (Inl e) r t = (1, t)"
  using assms by (auto simp: reserveDataStdout_def)

theorem reserved_stdout_is_private_witness:
  "reserveDataStdout (Inr 3) (Some EOF) [0 \<mapsto> ''tty'', 1 \<mapsto> ''pipe'', 2 \<mapsto> ''log''] =
     (1, [0 \<mapsto> ''tty'', 1 \<mapsto> ''pipe'', 2 \<mapsto> ''log''])"
  using reserved_stdout_is_private [of 3 "[0 \<mapsto> ''tty'', 1 \<mapsto> ''pipe'', 2 \<mapsto> ''log'']" "''pipe''" "''log''" EOF]
  by simp

end
