(* ===== verification/Shell_Session.thy ===== *)
theory Shell_Session
  imports Services Step_Systems "HOL-Library.Sublist"
begin

text \<open>
  A shell session of a Windows server (\<^verbatim>\<open>runShellServer\<close> of \<^verbatim>\<open>shell.go\<close> with \<^verbatim>\<open>spawnShell\<close> and
  \<^verbatim>\<open>windowsShell\<close> of \<^verbatim>\<open>shell_pty_windows.go\<close>) with its goroutines: two of them copy the standard
  output and the standard error of the process into one pipe, the echo of what the client types
  goes into the same pipe, and a mutex keeps the writes apart.  The caller copies the pipe to the
  client until its end, then waits for the process, then closes the shell and the session.
\<close>

section \<open>Spawning\<close>

text \<open>The calls that prepare the process, each with the error it may give; the Unix variant has only
  \<^verbatim>\<open>pty.Start\<close>.\<close>

definition spawnShell_windows ::
  "env \<Rightarrow> gerror option \<Rightarrow> gerror option \<Rightarrow> gerror option \<Rightarrow> gerror option \<Rightarrow> gerror + string" where
  "spawnShell_windows e stdin_err stdout_err stderr_err start_err =
     (case stdin_err of Some x \<Rightarrow> Inl x | None \<Rightarrow>
      case stdout_err of Some x \<Rightarrow> Inl x | None \<Rightarrow>
      case stderr_err of Some x \<Rightarrow> Inl x | None \<Rightarrow>
      case start_err of Some x \<Rightarrow> Inl x | None \<Rightarrow> Inr (shell_path True e))"

definition spawnShell_unix :: "env \<Rightarrow> gerror option \<Rightarrow> gerror + string" where
  "spawnShell_unix e pty_err = (case pty_err of Some x \<Rightarrow> Inl x | None \<Rightarrow> Inr (shell_path False e))"

section \<open>The session\<close>

datatype out_source = FromStdout | FromStderr | FromEcho

datatype shell_phase = Copying | WaitingForExit | SessionOver

text \<open>For each of the two copying goroutines the reads that are still to come, each with the bytes and
  the error that ends the goroutine; the writes into the pipe, in order; how many bytes the caller
  has passed on; and whether the process has ended and the client is gone.\<close>

record shell_session =
  to_read :: "out_source \<Rightarrow> (bytes \<times> gerror option) list"
  written :: "(out_source \<times> bytes) list"
  passed_on :: nat
  writer_open :: bool
  process_ended :: bool
  client_gone :: bool
  shell_phase :: shell_phase

definition shell_start :: "(bytes \<times> gerror option) list \<Rightarrow> (bytes \<times> gerror option) list \<Rightarrow> shell_session" where
  "shell_start out_reads err_reads =
     \<lparr>to_read = (\<lambda>src. case src of FromStdout \<Rightarrow> out_reads | FromStderr \<Rightarrow> err_reads | FromEcho \<Rightarrow> []), written = [], passed_on = 0,
      writer_open = True, process_ended = False, client_gone = False, shell_phase = Copying\<rparr>"

definition shell_output :: "shell_session \<Rightarrow> bytes" where
  "shell_output s = concat (map snd (written s))"

text \<open>A write into the pipe, under the mutex; a closed pipe refuses it, which nobody looks at.\<close>

definition write_out :: "out_source \<Rightarrow> bytes \<Rightarrow> shell_session \<Rightarrow> shell_session" where
  "write_out src bs s = (if bs \<noteq> [] \<and> writer_open s then s \<lparr>written := written s @ [(src, bs)]\<rparr> else s)"

text \<open>One turn of \<^verbatim>\<open>copyFunc\<close>.\<close>

definition copyFunc_turn :: "out_source \<Rightarrow> bytes \<Rightarrow> gerror option \<Rightarrow> (bytes \<times> gerror option) list \<Rightarrow> shell_session \<Rightarrow> shell_session" where
  "copyFunc_turn src bs er rs s =
     (write_out src bs s) \<lparr>to_read := (to_read s)(src := (case er of None \<Rightarrow> rs | Some _ \<Rightarrow> []))\<rparr>"

inductive shell_step :: "shell_session \<Rightarrow> shell_session \<Rightarrow> bool" where
  CopyFunc: "to_read s src = (bs, er) # rs \<Longrightarrow> shell_step s (copyFunc_turn src bs er rs s)"
| Echo: "shell_step s (write_out FromEcho bs s)"
| ProcessEnds: "shell_step s (s \<lparr>process_ended := True\<rparr>)"
| ClientGoes: "shell_step s (s \<lparr>client_gone := True\<rparr>)"
| PassOn: "shell_phase s = Copying \<Longrightarrow> \<not> client_gone s \<Longrightarrow> passed_on s < n \<Longrightarrow> n \<le> length (shell_output s) \<Longrightarrow>
    shell_step s (s \<lparr>passed_on := n\<rparr>)"
| StreamFails: "shell_phase s = Copying \<Longrightarrow> client_gone s \<Longrightarrow> passed_on s < length (shell_output s) \<Longrightarrow>
    shell_step s (s \<lparr>shell_phase := WaitingForExit\<rparr>)"
| OutputEnds: "shell_phase s = Copying \<Longrightarrow> passed_on s = length (shell_output s) \<Longrightarrow> \<not> writer_open s \<Longrightarrow>
    shell_step s (s \<lparr>shell_phase := WaitingForExit\<rparr>)"
| Waited: "shell_phase s = WaitingForExit \<Longrightarrow> process_ended s \<Longrightarrow>
    shell_step s (s \<lparr>shell_phase := SessionOver, writer_open := False\<rparr>)"

abbreviation shell_reach :: "shell_session \<Rightarrow> shell_session \<Rightarrow> bool" where
  "shell_reach \<equiv> reachable shell_step"

section \<open>The output is merged chunk by chunk\<close>

text \<open>The chunks that a source has written and those it is still to write are, in order, its reads up
  to the first error; what comes after the pipe was closed is lost.\<close>

fun chunks_read :: "(bytes \<times> gerror option) list \<Rightarrow> bytes list" where
  "chunks_read [] = []"
| "chunks_read ((bs, er) # rs) = (if bs = [] then [] else [bs]) @ (case er of None \<Rightarrow> chunks_read rs | Some _ \<Rightarrow> [])"

definition from_source :: "out_source \<Rightarrow> shell_session \<Rightarrow> bytes list" where
  "from_source src s = map snd (filter (\<lambda>w. fst w = src) (written s))"

definition merge_inv :: "(out_source \<Rightarrow> (bytes \<times> gerror option) list) \<Rightarrow> shell_session \<Rightarrow> bool" where
  "merge_inv all s \<longleftrightarrow> passed_on s \<le> length (shell_output s)
     \<and> (\<forall>src. src \<noteq> FromEcho \<longrightarrow>
          (if writer_open s then from_source src s @ chunks_read (to_read s src) = chunks_read (all src)
           else prefix (from_source src s) (chunks_read (all src))))
     \<and> to_read s FromEcho = [] \<and> (shell_phase s = Copying \<longrightarrow> writer_open s)"

lemma from_source_write_out:
  "from_source src (write_out src' bs s) =
     (if src' = src \<and> bs \<noteq> [] \<and> writer_open s then from_source src s @ [bs] else from_source src s)"
  by (simp add: from_source_def write_out_def)

lemma write_out_simps [simp]:
  "to_read (write_out src bs s) = to_read s" "writer_open (write_out src bs s) = writer_open s"
  "shell_phase (write_out src bs s) = shell_phase s" "passed_on (write_out src bs s) = passed_on s"
  by (simp_all add: write_out_def)

lemma shell_output_write_out: "length (shell_output s) \<le> length (shell_output (write_out src bs s))"
  by (simp add: shell_output_def write_out_def)

lemma from_source_cong: "written s' = written s \<Longrightarrow> from_source src s' = from_source src s \<and> shell_output s' = shell_output s"
  by (simp add: from_source_def shell_output_def)

lemma merge_inv_start: "merge_inv (to_read (shell_start outs errs)) (shell_start outs errs)"
  by (simp add: merge_inv_def shell_start_def from_source_def shell_output_def)

lemma merge_inv_write:
  assumes "merge_inv all s"
  shows "merge_inv all (write_out FromEcho bs s)"
  using assms shell_output_write_out [of s FromEcho bs]
  by (auto simp: merge_inv_def from_source_write_out)

lemma merge_inv_copy:
  assumes "merge_inv all s" and "to_read s src = (bs, er) # rs"
  shows "merge_inv all (copyFunc_turn src bs er rs s)"
proof -
  let ?s = "copyFunc_turn src bs er rs s"
  have src: "src \<noteq> FromEcho" using assms by (auto simp: merge_inv_def)
  have w: "written ?s = written (write_out src bs s)" by (simp add: copyFunc_turn_def)
  have len: "passed_on ?s \<le> length (shell_output ?s)"
    using assms(1) shell_output_write_out [of s src bs] from_source_cong [OF w, of src]
    by (simp add: merge_inv_def copyFunc_turn_def)
  have f: "from_source src' ?s = from_source src' (write_out src bs s)" for src'
    using from_source_cong [OF w] by blast
  have "if writer_open ?s then from_source src' ?s @ chunks_read (to_read ?s src') = chunks_read (all src')
      else prefix (from_source src' ?s) (chunks_read (all src'))" if "src' \<noteq> FromEcho" for src'
    using assms that unfolding f
    by (cases er) (auto simp: merge_inv_def from_source_write_out copyFunc_turn_def split: if_splits)
  moreover have "to_read ?s FromEcho = []" "shell_phase ?s = Copying \<longrightarrow> writer_open ?s"
    using assms(1) src by (simp_all add: merge_inv_def copyFunc_turn_def)
  ultimately show ?thesis unfolding merge_inv_def using len by blast
qed

lemma merge_inv_same:
  assumes "merge_inv all s" and "written s' = written s" and "to_read s' = to_read s" and "writer_open s' = writer_open s"
    and "passed_on s' \<le> length (shell_output s)" and "shell_phase s' = Copying \<longrightarrow> shell_phase s = Copying"
  shows "merge_inv all s'"
  using assms from_source_cong [OF assms(2)] by (simp add: merge_inv_def)

lemma merge_inv_step: "shell_step s s' \<Longrightarrow> merge_inv all s \<Longrightarrow> merge_inv all s'"
proof (induction rule: shell_step.induct)
  case (CopyFunc s src bs er rs)
  then show ?case by (simp add: merge_inv_copy)
next
  case (Echo s bs)
  then show ?case by (rule merge_inv_write)
next
  case (Waited s)
  then have "prefix (from_source src s) (chunks_read (all src))" if "src \<noteq> FromEcho" for src
    using that by (auto simp: merge_inv_def split: if_splits) (metis prefixI)+
  then show ?case using from_source_cong [of "s \<lparr>shell_phase := SessionOver, writer_open := False\<rparr>" s] Waited
    by (simp add: merge_inv_def)
qed ((rule merge_inv_same, assumption); simp add: merge_inv_def)+

interpretation merging: step_invariant shell_step "shell_start outs errs" "merge_inv (to_read (shell_start outs errs))" for outs errs
  by unfold_locales (fact merge_inv_start, fact merge_inv_step)


text \<open>a session never ends while the client stays: the caller waits for the end of a pipe that only
  the closing of the session closes, and that comes after.  So the client of a Windows server is
  left hanging when the shell exits, even when both goroutines are done and all output has been
  passed on.\<close>

theorem windows_session_outlives_shell:
  assumes "shell_reach (shell_start outs errs) s" and "\<not> client_gone s"
  shows "shell_phase s = Copying \<and> writer_open s"
proof -
  have "client_gone s \<or> shell_phase s = Copying \<and> writer_open s"
    using assms(1)
  proof induction
    case Start
    then show ?case by (simp add: shell_start_def)
  next
    case (Step s s')
    from Step.hyps(2) Step.IH show ?case by cases (auto simp: copyFunc_turn_def write_out_def)
  qed
  then show ?thesis using assms(2) by blast
qed

section \<open>A session whose shell has exited\<close>

definition sample_session :: shell_session where
  "sample_session = (shell_start [([104, 105], None), ([], Some EOF)] [([], Some EOF)])
     \<lparr>to_read := (\<lambda>_. []), written := [(FromStdout, [104, 105])], process_ended := True, passed_on := 2\<rparr>"

lemma sample_session_reach: "shell_reach (shell_start [([104, 105], None), ([], Some EOF)] [([], Some EOF)]) sample_session"
proof -
  let ?s0 = "shell_start [([104, 105], None), ([], Some EOF)] [([], Some EOF)]"
  let ?s1 = "copyFunc_turn FromStdout [104, 105] None [([], Some EOF)] ?s0"
  let ?s2 = "copyFunc_turn FromStdout [] (Some EOF) [] ?s1"
  let ?s3 = "copyFunc_turn FromStderr [] (Some EOF) [] ?s2"
  note defs = shell_start_def copyFunc_turn_def write_out_def
  have "shell_step ?s0 ?s1" by (rule shell_step.CopyFunc) (simp add: defs)
  then have "shell_reach ?s0 ?s1" by (rule reachable_one)
  moreover have "shell_step ?s1 ?s2" by (rule shell_step.CopyFunc) (simp add: defs)
  ultimately have "shell_reach ?s0 ?s2" by (rule reachable.Step)
  moreover have "shell_step ?s2 ?s3" by (rule shell_step.CopyFunc) (simp add: defs)
  ultimately have "shell_reach ?s0 ?s3" by (rule reachable.Step)
  moreover have "shell_step ?s3 (?s3 \<lparr>process_ended := True\<rparr>)" by (rule shell_step.ProcessEnds)
  ultimately have "shell_reach ?s0 (?s3 \<lparr>process_ended := True\<rparr>)" by (rule reachable.Step)
  moreover have "shell_step (?s3 \<lparr>process_ended := True\<rparr>) (?s3 \<lparr>process_ended := True, passed_on := 2\<rparr>)"
    using shell_step.PassOn [of "?s3 \<lparr>process_ended := True\<rparr>" 2] by (simp add: defs shell_output_def)
  ultimately have "shell_reach ?s0 (?s3 \<lparr>process_ended := True, passed_on := 2\<rparr>)" by (rule reachable.Step)
  moreover have "?s3 \<lparr>process_ended := True, passed_on := 2\<rparr> = sample_session"
    by (auto simp: defs sample_session_def fun_eq_iff split: out_source.split)
  ultimately show ?thesis by simp
qed


theorem windows_session_outlives_shell_witness:
  "process_ended sample_session \<and> passed_on sample_session = length (shell_output sample_session)
    \<and> shell_phase sample_session = Copying"
  using windows_session_outlives_shell [OF sample_session_reach]
  by (simp add: sample_session_def shell_start_def shell_output_def)

end
