(* ===== verification/Relay_Fallback.thy ===== *)
theory Relay_Fallback
  imports Webrtc Step_Systems
begin

text \<open>
  What happens on the relayed connection around an upgrade that fails (\<^verbatim>\<open>webrtc.go\<close>).  The goroutine
  that reads further signals is not stopped when the wait for the direct connection ends without
  one; the connection then goes to a service (\<^verbatim>\<open>RunClient\<close>, \<^verbatim>\<open>handleServerConn\<close>), and both read from it.
  And the candidate callback may write its message between the two writes of another message.
\<close>

section \<open>The reader that stays behind\<close>

text \<open>The bytes that are still to come, the reading goroutine with the bytes it needs for the header
  or the body at hand and those it has, and what went to the service.\<close>

record contest =
  to_come :: bytes
  reader_on :: bool
  in_body :: bool
  needed :: nat
  buffered :: bytes
  stolen :: nat
  to_service :: bytes

definition contest_start :: "bytes \<Rightarrow> contest" where
  "contest_start payload = \<lparr>to_come = payload, reader_on = True, in_body = False, needed = 4, buffered = [], stolen = 0,
     to_service = []\<rparr>"

text \<open>What \<^verbatim>\<open>readSignal\<close> does once it has the header or the body; an error ends the goroutine.\<close>

definition reader_next :: "contest \<Rightarrow> contest" where
  "reader_next s =
     (if 0 < needed s then s
      else if \<not> in_body s then
        let l = unat (get_u32 (buffered s))
        in if max_message < l then s \<lparr>reader_on := False\<rparr>
           else if l = 0 then s \<lparr>reader_on := (case signal_unmarshal [] of Inl _ \<Rightarrow> False | Inr _ \<Rightarrow> True), needed := 4, buffered := []\<rparr>
           else s \<lparr>in_body := True, needed := l, buffered := []\<rparr>
      else
        s \<lparr>reader_on := (case signal_unmarshal (string_of_bytes (buffered s)) of Inl _ \<Rightarrow> False | Inr _ \<Rightarrow> True),
           in_body := False, needed := 4, buffered := []\<rparr>)"

definition reader_takes :: "nat \<Rightarrow> contest \<Rightarrow> contest" where
  "reader_takes k s =
     reader_next (s \<lparr>to_come := drop k (to_come s), needed := needed s - k, buffered := buffered s @ take k (to_come s),
       stolen := stolen s + k\<rparr>)"

inductive contend :: "contest \<Rightarrow> contest \<Rightarrow> bool" where
  Reader: "reader_on s \<Longrightarrow> 0 < k \<Longrightarrow> k \<le> needed s \<Longrightarrow> k \<le> length (to_come s) \<Longrightarrow> contend s (reader_takes k s)"
| Service: "0 < k \<Longrightarrow> k \<le> length (to_come s) \<Longrightarrow>
    contend s (s \<lparr>to_service := to_service s @ take k (to_come s), to_come := drop k (to_come s)\<rparr>)"

definition shared_out :: "bytes \<Rightarrow> nat \<Rightarrow> contest \<Rightarrow> bool" where
  "shared_out payload k s \<longleftrightarrow> length (to_service s) + stolen s + length (to_come s) = length payload \<and> k \<le> stolen s"

lemma reader_next_same [simp]:
  "to_come (reader_next s) = to_come s" "stolen (reader_next s) = stolen s" "to_service (reader_next s) = to_service s"
  by (simp_all add: reader_next_def Let_def)

lemma shared_out_step: "contend s s' \<Longrightarrow> shared_out payload k s \<Longrightarrow> shared_out payload k s'"
  by (erule contend.cases) (auto simp: shared_out_def reader_takes_def)

lemma shared_out_reach: "reachable contend s s' \<Longrightarrow> shared_out payload k s \<Longrightarrow> shared_out payload k s'"
  by (induction rule: reachable.induct) (blast intro: shared_out_step)+

lemma read_candidates_exact:
  assumes "\<forall>i\<in>set is. candidate_wf i \<and> length (signal_marshal (candidate_msg i)) \<le> max_message"
    and "rx c = concat (map (\<lambda>i. frame (signal_marshal (candidate_msg i))) is) @ payload"
  shows "read_candidates (length is) c = (is, c \<lparr>rx := payload\<rparr>)"
  using assms
proof (induction "is" arbitrary: c)
  case (Cons i "is")
  let ?rest = "concat (map (\<lambda>i. frame (signal_marshal (candidate_msg i))) is) @ payload"
  have "readSignal c = (Inr (candidate_msg i), c \<lparr>rx := ?rest\<rparr>)"
    using Cons.prems by (intro readSignal_frame) (simp_all add: sdp_messages_wf)
  then show ?case using Cons.IH [of "c \<lparr>rx := ?rest\<rparr>"] Cons.prems(1) by simp
qed simp

lemma failed_wait:
  assumes "rtc_ready offer answer rc" and "rtc_ready answer offer rs"
    and "length (signal_marshal (answer_msg answer)) \<le> max_message" and "tx_room c = None"
    and "rx c = frame (signal_marshal (answer_msg answer)) @ candidate_frames rs @ payload"
    and "reads rc = length (late rs)" and "await_channel (ending rc) = Some e"
  shows "\<exists>c'. negotiateWebRTCClient rc c = (Some e, PCClosed, c') \<and> rx c' = payload"
proof -
  let ?c = "c \<lparr>tx := tx c @ frame (signal_marshal (offer_msg offer))\<rparr>"
  let ?c1 = "?c \<lparr>rx := candidate_frames rs @ payload\<rparr>"
  let ?c2 = "?c1 \<lparr>tx := tx ?c1 @ candidate_frames rc\<rparr>"
  have "valid_utf8 answer" using assms(2) by (simp add: rtc_ready_def)
  then have "readSignal ?c = (Inr (answer_msg answer), ?c1)"
    using assms(3,5) by (intro readSignal_frame) (simp_all add: sdp_messages_wf)
  then have n: "negotiateWebRTCClient rc c = await rc ?c1"
    using assms(1,4) by (simp add: rtc_ready_def negotiateWebRTCClient_def sendSignal_ok)
  have s: "send_candidates (late rc) ?c1 = ?c2"
    using assms(4) send_candidates_ok [of ?c1 "late rc"] by (simp add: candidate_frames_def)
  have "read_candidates (reads rc) ?c2 = (late rs, ?c2 \<lparr>rx := payload\<rparr>)"
    unfolding assms(6)
    by (rule read_candidates_exact) (use assms(2) in \<open>simp_all add: rtc_ready_def list_all_iff candidate_frames_def\<close>)
  then show ?thesis unfolding n await_def s by (simp add: assms(7))
qed


section \<open>Interleaved messages\<close>

lemma lex_nul: "lex (CHR 0x00 # t) = None"
  by (simp add: lex.simps(2) json_space_def punct_def lex_word_def lex_num_def HasPrefix_def is_digit_def byte_in_def)

lemma put_u32_small: "n < 2 ^ 24 \<Longrightarrow> \<exists>bs. put_u32 (of_nat n) = 0 # bs"
proof -
  assume n: "n < 2 ^ 24"
  then have "unat (of_nat n :: 32 word) = n" by (simp add: unat_of_nat)
  then have "unat (drop_bit 24 (of_nat n :: 32 word)) = 0"
    using n by (simp only: unsigned_drop_bit_eq) (simp add: drop_bit_eq_div take_bit_nat_eq_self)
  then have "drop_bit 24 (of_nat n :: 32 word) = 0" by (simp only: unsigned_eq_0_iff)
  then show ?thesis by (simp add: put_u32_def)
qed

text \<open>Two messages whose headers and bodies alternate, as when the candidate callback writes while
  another message is being sent, are not understood: the reader takes the second header for the
  beginning of the first message and ends the negotiation.\<close>

theorem interleaved_signals_are_refused:
  assumes "4 \<le> length a" and "length a \<le> max_message" and "length b < 2 ^ 24"
  shows "\<exists>c. readSignal (conn_of (put_u32 (of_nat (length a)) @ put_u32 (of_nat (length b)) @ bytes_of_string a @ bytes_of_string b)) =
    (Inl JSONError, c)"
proof -
  let ?rest = "bytes_of_string a @ bytes_of_string b"
  let ?c = "conn_of (put_u32 (of_nat (length a)) @ put_u32 (of_nat (length b)) @ ?rest)"
  let ?c1 = "conn_of (put_u32 (of_nat (length b)) @ ?rest)"
  have la: "unat (of_nat (length a) :: 32 word) = length a"
    using assms(2) by (simp add: unat_of_nat max_message_def)
  have g: "get_u32 (put_u32 (of_nat (length a))) = of_nat (length a)"
    using get_put_u32 [of "of_nat (length a)" "[]"] by simp
  obtain bs where bs: "put_u32 (of_nat (length b)) = 0 # bs" using put_u32_small [OF assms(3)] by blast
  have f: "read_full 4 ?c = (Inr (put_u32 (of_nat (length a))), ?c1)" by (simp add: read_full_def)
  obtain n where n: "length a = Suc n" using assms(1) by (cases "length a") auto
  have "read_full (length a) ?c1 = (Inr (0 # take n (bs @ ?rest)), ?c1 \<lparr>rx := drop (length a) (rx ?c1)\<rparr>)"
    by (simp add: read_full_def bs n)
  then have "read_message (\<lambda>l. Errorf ''message too large'') ?c =
      (Inr (CHR 0x00 # string_of_bytes (take n (bs @ ?rest))), ?c1 \<lparr>rx := drop (length a) (rx ?c1)\<rparr>)"
    unfolding read_message_def f using assms(2) by (simp add: g la string_of_bytes_def char_of_byte_def char_of_def)
  then show ?thesis
    by (simp add: readSignal_def signal_unmarshal_def unmarshal_struct_def json_parse_def lex_nul)
qed

section \<open>Concrete instances\<close>


theorem interleaved_signals_are_refused_witness:
  "\<exists>c. readSignal (conn_of (put_u32 (of_nat (length ''abcd'')) @ put_u32 (of_nat (length ''ef'')) @
      bytes_of_string ''abcd'' @ bytes_of_string ''ef'')) = (Inl JSONError, c)"
  by (rule interleaved_signals_are_refused) (simp_all add: max_message_def)

end
