(* ===== verification/Forward_Pair.thy ===== *)
theory Forward_Pair
  imports Io_Copy Step_Systems "HOL-Library.Sublist"
begin

text \<open>
  The two copies of a forwarded connection (\<^verbatim>\<open>handleForwardConn\<close> in \<^verbatim>\<open>main.go\<close>; \<^verbatim>\<open>runReverseForwardServer\<close>
  and \<^verbatim>\<open>runSocksClient\<close> have the same pair).  The handler waits for the first copy that ends, closes the
  connection to the peer and then the local one.  What it guarantees is weaker than what the
  netcat pipe does: one direction is delivered completely, the other up to where it was.
\<close>

section \<open>One direction\<close>

text \<open>What the source sent, how much of it waits to be read, is in the buffer of the copy or was
  written, whether the source has finished, and how the copy ended.\<close>

record direction =
  sent :: bytes
  source_ended :: bool
  arriving :: bytes
  in_copy :: bytes
  passed :: bytes
  copy_end :: "gerror option option"

definition direction_start :: direction where
  "direction_start = \<lparr>sent = [], source_ended = False, arriving = [], in_copy = [], passed = [], copy_end = None\<rparr>"

text \<open>The steps of a source and of the copy, whose source and destination may have been closed: a
  failing write may have passed on a part of the buffer.\<close>

inductive copying :: "bool \<Rightarrow> bool \<Rightarrow> direction \<Rightarrow> direction \<Rightarrow> bool" for src_open dst_open where
  Sends: "\<not> source_ended d \<Longrightarrow> copying src_open dst_open d (d \<lparr>sent := sent d @ bs, arriving := arriving d @ bs\<rparr>)"
| Ends: "copying src_open dst_open d (d \<lparr>source_ended := True\<rparr>)"
| Reads: "copy_end d = None \<Longrightarrow> src_open \<Longrightarrow> in_copy d = [] \<Longrightarrow> 0 < k \<Longrightarrow> k \<le> length (arriving d) \<Longrightarrow>
    copying src_open dst_open d (d \<lparr>in_copy := take k (arriving d), arriving := drop k (arriving d)\<rparr>)"
| Writes: "copy_end d = None \<Longrightarrow> dst_open \<Longrightarrow> in_copy d \<noteq> [] \<Longrightarrow>
    copying src_open dst_open d (d \<lparr>passed := passed d @ in_copy d, in_copy := []\<rparr>)"
| Fails: "copy_end d = None \<Longrightarrow> j = 0 \<or> dst_open \<Longrightarrow>
    copying src_open dst_open d
      (d \<lparr>passed := passed d @ take j (in_copy d), in_copy := drop j (in_copy d), copy_end := Some (Some e)\<rparr>)"
| Eof: "copy_end d = None \<Longrightarrow> src_open \<Longrightarrow> in_copy d = [] \<Longrightarrow> arriving d = [] \<Longrightarrow> source_ended d \<Longrightarrow>
    copying src_open dst_open d (d \<lparr>copy_end := Some None\<rparr>)"

definition complete :: "direction \<Rightarrow> bool" where
  "complete d \<longleftrightarrow> source_ended d \<and> sent d = passed d"

definition direction_inv :: "direction \<Rightarrow> bool" where
  "direction_inv d \<longleftrightarrow> sent d = passed d @ in_copy d @ arriving d \<and> (copy_end d = Some None \<longrightarrow> complete d)"

lemma direction_inv_step: "copying so dt d d' \<Longrightarrow> direction_inv d \<Longrightarrow> direction_inv d'"
  by (erule copying.cases) (auto simp: direction_inv_def complete_def)

lemma copying_ended:
  assumes "copying so dt d d'" and "copy_end d = Some e"
  shows "copy_end d' = Some e \<and> passed d' = passed d"
  using assms by (cases rule: copying.cases) auto

lemma closed_passes_nothing: "copying so False d d' \<Longrightarrow> passed d' = passed d"
  by (erule copying.cases) auto

section \<open>The pair\<close>

text \<open>The directions from the peer and to the peer, the channel of the two copies with the ends in
  their order (\<^const>\<open>True\<close> for the copy from the peer), and which connections are closed.\<close>

record forward_pair =
  from_peer :: direction
  to_peer :: direction
  errChan :: "(bool \<times> gerror option) list"
  peer_closed :: bool
  local_closed :: bool

definition pair_start :: forward_pair where
  "pair_start = \<lparr>from_peer = direction_start, to_peer = direction_start, errChan = [], peer_closed = False, local_closed = False\<rparr>"

text \<open>A copy that has just ended sends its error to the channel.\<close>

definition report_end :: "bool \<Rightarrow> direction \<Rightarrow> direction \<Rightarrow> (bool \<times> gerror option) list" where
  "report_end dir d d' = (case (copy_end d, copy_end d') of (None, Some e) \<Rightarrow> [(dir, e)] | _ \<Rightarrow> [])"

inductive pair_step :: "forward_pair \<Rightarrow> forward_pair \<Rightarrow> bool" where
  FromPeer: "copying (\<not> peer_closed s) (\<not> local_closed s) (from_peer s) d \<Longrightarrow>
    pair_step s (s \<lparr>from_peer := d, errChan := errChan s @ report_end True (from_peer s) d\<rparr>)"
| ToPeer: "copying (\<not> local_closed s) (\<not> peer_closed s) (to_peer s) d \<Longrightarrow>
    pair_step s (s \<lparr>to_peer := d, errChan := errChan s @ report_end False (to_peer s) d\<rparr>)"
| ClosePeer: "pipeConns (errChan s) \<noteq> None \<Longrightarrow> pair_step s (s \<lparr>peer_closed := True\<rparr>)"
| CloseLocal: "peer_closed s \<Longrightarrow> pair_step s (s \<lparr>local_closed := True\<rparr>)"

definition ended_well :: "forward_pair \<Rightarrow> bool \<times> gerror option \<Rightarrow> bool" where
  "ended_well s x \<longleftrightarrow> (let d = (if fst x then from_peer s else to_peer s) in copy_end d = Some (snd x))"

definition pair_inv :: "forward_pair \<Rightarrow> bool" where
  "pair_inv s \<longleftrightarrow> direction_inv (from_peer s) \<and> direction_inv (to_peer s) \<and> list_all (ended_well s) (errChan s)
     \<and> (peer_closed s \<longrightarrow> errChan s \<noteq> []) \<and> (local_closed s \<longrightarrow> peer_closed s)"

lemma pipeConns_waits: "pipeConns xs \<noteq> None \<longleftrightarrow> xs \<noteq> []"
  by (cases xs) (auto simp: pipeConns_def split: prod.split)

lemma pair_inv_step: "pair_step s s' \<Longrightarrow> pair_inv s \<Longrightarrow> pair_inv s'"
proof (induction rule: pair_step.induct)
  case (FromPeer s d)
  then show ?case
    using direction_inv_step [OF FromPeer(1)] copying_ended [OF FromPeer(1)]
    by (cases "copy_end (from_peer s)"; cases "copy_end d")
      (auto simp: pair_inv_def report_end_def ended_well_def Let_def list_all_iff split: if_splits)
next
  case (ToPeer s d)
  then show ?case
    using direction_inv_step [OF ToPeer(1)] copying_ended [OF ToPeer(1)]
    by (cases "copy_end (to_peer s)"; cases "copy_end d")
      (auto simp: pair_inv_def report_end_def ended_well_def Let_def list_all_iff split: if_splits)
next
  case (ClosePeer s)
  then show ?case unfolding pipeConns_waits by (auto simp: pair_inv_def ended_well_def Let_def list_all_iff)
qed (auto simp: pair_inv_def ended_well_def Let_def list_all_iff)

interpretation forward_pairs: step_invariant pair_step pair_start pair_inv
  by unfold_locales (simp add: pair_inv_def pair_start_def direction_start_def direction_inv_def, fact pair_inv_step)

text \<open>C33: nothing is made up or reordered, and nothing is cut off before a copy ended: at any time both
  sides have received the beginning of what the other sent, and when a connection was closed then
  the copy that ended first failed or has delivered everything.\<close>

theorem forwarding_delivers_one_direction:
  assumes "reachable pair_step pair_start s"
  shows "prefix (passed (from_peer s)) (sent (from_peer s)) \<and> prefix (passed (to_peer s)) (sent (to_peer s))
    \<and> (peer_closed s \<or> local_closed s \<longrightarrow>
        (\<exists>dir e rest. errChan s = (dir, e) # rest
          \<and> (e \<noteq> None \<or> complete (if dir then from_peer s else to_peer s))))"
proof -
  note i = forward_pairs.inv_reachable [OF assms]
  then have p: "prefix (passed (from_peer s)) (sent (from_peer s))" "prefix (passed (to_peer s)) (sent (to_peer s))"
    by (simp_all add: pair_inv_def direction_inv_def)
  have "\<exists>dir e rest. errChan s = (dir, e) # rest \<and> (e \<noteq> None \<or> complete (if dir then from_peer s else to_peer s))"
    if "peer_closed s \<or> local_closed s"
  proof -
    have "errChan s \<noteq> []" using i that by (auto simp: pair_inv_def)
    then obtain dir e rest where c: "errChan s = (dir, e) # rest" by (cases "errChan s") auto
    then have "copy_end (if dir then from_peer s else to_peer s) = Some e"
      using i by (simp add: pair_inv_def ended_well_def Let_def)
    then show ?thesis using i c by (cases e) (auto simp: pair_inv_def direction_inv_def)
  qed
  with p show ?thesis by blast
qed

section \<open>The lost reply\<close>

lemma closed_peer_step:
  "pair_step s s' \<Longrightarrow> peer_closed s \<Longrightarrow> peer_closed s' \<and> passed (to_peer s') = passed (to_peer s)"
  by (erule pair_step.cases) (auto dest: closed_passes_nothing)

lemma closed_peer_reach:
  "reachable pair_step s s' \<Longrightarrow> peer_closed s \<Longrightarrow> peer_closed s' \<and> passed (to_peer s') = passed (to_peer s)"
  by (induction rule: reachable.induct) (auto dest: closed_peer_step)

definition both_open :: "direction \<Rightarrow> direction \<Rightarrow> forward_pair" where
  "both_open d r = \<lparr>from_peer = d, to_peer = r, errChan = [], peer_closed = False, local_closed = False\<rparr>"

lemma both_open_from:
  assumes "reachable pair_step s0 (both_open d r)" and "copying True True d d'" and "copy_end d' = None"
  shows "reachable pair_step s0 (both_open d' r)"
proof -
  have "pair_step (both_open d r) (both_open d' r)"
    using pair_step.FromPeer [of "both_open d r" d'] assms(2,3) by (simp add: both_open_def report_end_def split: option.splits)
  with assms(1) show ?thesis by (rule reachable.Step)
qed

lemma both_open_to:
  assumes "reachable pair_step s0 (both_open d r)" and "copying True True r r'" and "copy_end r' = None"
  shows "reachable pair_step s0 (both_open d r')"
proof -
  have "pair_step (both_open d r) (both_open d r')"
    using pair_step.ToPeer [of "both_open d r" r'] assms(2,3) by (simp add: both_open_def report_end_def split: option.splits)
  with assms(1) show ?thesis by (rule reachable.Step)
qed

definition after_request :: "bytes \<Rightarrow> bytes \<Rightarrow> forward_pair" where
  "after_request request reply =
     \<lparr>from_peer = direction_start \<lparr>sent := request, source_ended := True, passed := request, copy_end := Some None\<rparr>,
      to_peer = direction_start \<lparr>sent := reply, arriving := reply\<rparr>,
      errChan = [(True, None)], peer_closed = True, local_closed = False\<rparr>"

lemma after_request_reached:
  assumes "request \<noteq> []"
  shows "reachable pair_step pair_start (after_request request reply)"
proof -
  note [simp] = direction_start_def
  let ?d1 = "direction_start \<lparr>sent := request, arriving := request\<rparr>"
  let ?d2 = "?d1 \<lparr>in_copy := request, arriving := []\<rparr>"
  let ?d3 = "?d2 \<lparr>passed := request, in_copy := []\<rparr>"
  let ?d4 = "?d3 \<lparr>source_ended := True\<rparr>"
  let ?r = "direction_start \<lparr>sent := reply, arriving := reply\<rparr>"
  let ?s = "both_open ?d4 ?r"
  let ?t = "?s \<lparr>from_peer := ?d4 \<lparr>copy_end := Some None\<rparr>, errChan := [(True, None)]\<rparr>"
  have "reachable pair_step pair_start (both_open direction_start direction_start)"
    using reachable.Start [of pair_step pair_start] by (simp add: pair_start_def both_open_def)
  then have "reachable pair_step pair_start (both_open ?d1 direction_start)"
    by (rule both_open_from) (use copying.Sends [of direction_start True True request] in simp_all)
  then have "reachable pair_step pair_start (both_open ?d2 direction_start)"
    by (rule both_open_from) (use copying.Reads [of ?d1 True "length request" True] assms in simp_all)
  then have "reachable pair_step pair_start (both_open ?d3 direction_start)"
    by (rule both_open_from) (use copying.Writes [of ?d2 True True] assms in simp_all)
  then have "reachable pair_step pair_start (both_open ?d4 direction_start)"
    by (rule both_open_from) (use copying.Ends [of True True ?d3] in simp_all)
  then have "reachable pair_step pair_start ?s"
    by (rule both_open_to) (use copying.Sends [of direction_start True True reply] in simp_all)
  moreover have "pair_step ?s ?t"
    using pair_step.FromPeer [of ?s "?d4 \<lparr>copy_end := Some None\<rparr>"] copying.Eof [of ?d4 True True]
    by (simp add: both_open_def report_end_def)
  ultimately have "reachable pair_step pair_start ?t" by (rule reachable.Step)
  moreover have "pair_step ?t (after_request request reply)"
    using pair_step.ClosePeer [of ?t] by (simp add: both_open_def after_request_def pipeConns_def)
  ultimately show ?thesis by (rule reachable.Step)
qed

text \<open>A peer that half-closes after its request can lose the whole reply: the request was delivered
  and its end with it, no copy failed and the reply is on its way, but the handler has closed the
  connection, and whatever happens from then on, the peer gets nothing.\<close>

theorem forwarding_loses_reply:
  assumes "request \<noteq> []"
  shows "\<exists>s. reachable pair_step pair_start s \<and> complete (from_peer s) \<and> sent (from_peer s) = request
    \<and> errChan s = [(True, None)] \<and> sent (to_peer s) = reply
    \<and> (\<forall>s'. reachable pair_step s s' \<longrightarrow> passed (to_peer s') = [])"
  using after_request_reached [OF assms, of reply] closed_peer_reach [of "after_request request reply"]
  by (intro exI [of _ "after_request request reply"]) (auto simp: after_request_def complete_def direction_start_def)

section \<open>Concrete instances\<close>

theorem forwarding_delivers_one_direction_witness:
  "complete (from_peer (after_request [71] [72])) \<and> passed (to_peer (after_request [71] [72])) = []"
proof -
  have "reachable pair_step pair_start (after_request [71] [72])" by (rule after_request_reached) simp
  from forwarding_delivers_one_direction [OF this] show ?thesis by (auto simp: after_request_def direction_start_def)
qed

theorem forwarding_loses_reply_witness:
  "\<exists>s. reachable pair_step pair_start s \<and> sent (from_peer s) = [71, 69, 84] \<and> sent (to_peer s) = [79, 75]
    \<and> (\<forall>s'. reachable pair_step s s' \<longrightarrow> passed (to_peer s') = [])"
  using forwarding_loses_reply [of "[71, 69, 84]" "[79, 75]"] by auto

end
