(* ===== verification/Relay_Race.thy ===== *)
theory Relay_Race
  imports Socket_Prelude Step_Systems
begin

text \<open>
  \<^verbatim>\<open>dialFastestRelay\<close> and \<^verbatim>\<open>drainLateSessions\<close> of \<^verbatim>\<open>main.go\<close>: one goroutine per advertised
  relay asks for an invitation and joins the session, the caller takes the first session
  from a buffered channel, and a drain goroutine closes the sessions that come later.  The
  goroutines, the caller and the cancellation are the rules of a step relation; the relay
  library supplies the outcome of each invitation and each join.  The invariant
  accounts for every racer and every open session; from it follow that a race which is
  over holds exactly the winner's session, and that every run ends.
\<close>

section \<open>State\<close>

text \<open>A racer is known by its position; a result is an error or a joined session.\<close>

datatype relayRaceResult = Lost gerror | Joined

datatype race_phase = Racing nat "gerror option" | Failed gerror | Won nat

record race =
  running :: "nat set"
  results :: "(nat \<times> relayRaceResult) list"
  sessions :: "nat set"
  phase :: race_phase
  to_drain :: nat
  started :: nat

definition racer_result :: "string \<Rightarrow> (gerror + unit) \<Rightarrow> (gerror + unit) \<Rightarrow> relayRaceResult" where
  "racer_result host invitation join =
     (case invitation of
        Inl e \<Rightarrow> Lost (wrap_err (''failed to get invitation from relay '' @ host) e)
      | Inr _ \<Rightarrow>
          (case join of
             Inl e \<Rightarrow> Lost (wrap_err (''failed to join session on relay '' @ host) e)
           | Inr _ \<Rightarrow> Joined))"

text \<open>The start of the race: the addresses that do not parse are skipped.  The parser yields
  the host of an address.\<close>

definition racers :: "(string \<Rightarrow> string option) \<Rightarrow> string list \<Rightarrow> string list" where
  "racers parse relayAddresses = List.map_filter parse relayAddresses"

definition start_race :: "nat \<Rightarrow> race" where
  "start_race n =
     \<lparr>running = {0..<n}, results = [], sessions = {},
      phase = (if n = 0 then Failed (Errorf ''no usable relay addresses to try'') else Racing 0 None),
      to_drain = 0, started = n\<rparr>"

section \<open>Steps\<close>

text \<open>A racer reports its result; a joined session is open from then on.\<close>

definition report :: "nat \<Rightarrow> relayRaceResult \<Rightarrow> race \<Rightarrow> race" where
  "report j r s =
     s \<lparr>running := running s - {j}, results := results s @ [(j, r)],
        sessions := (if r = Joined then insert j (sessions s) else sessions s)\<rparr>"

text \<open>One iteration of the caller's loop on a received result.\<close>

definition receive :: "nat \<Rightarrow> nat \<Rightarrow> relayRaceResult \<Rightarrow> race \<Rightarrow> race" where
  "receive i j r s =
     (case r of
        Lost e \<Rightarrow>
          if i + 1 < started s then s \<lparr>results := tl (results s), phase := Racing (i + 1) (Some e)\<rparr>
          else s \<lparr>results := tl (results s), phase := Failed e\<rparr>
      | Joined \<Rightarrow>
          s \<lparr>results := tl (results s), phase := Won j, to_drain := started s - i - 1\<rparr>)"

text \<open>One iteration of \<^verbatim>\<open>drainLateSessions\<close>.\<close>

definition drainLateSessions :: "nat \<Rightarrow> relayRaceResult \<Rightarrow> race \<Rightarrow> race" where
  "drainLateSessions j r s =
     s \<lparr>results := tl (results s), to_drain := to_drain s - 1,
        sessions := (if r = Joined then sessions s - {j} else sessions s)\<rparr>"

inductive race_step :: "(nat \<Rightarrow> string) \<Rightarrow> race \<Rightarrow> race \<Rightarrow> bool" for host where
  Report: "j \<in> running s \<Longrightarrow> race_step host s (report j (racer_result (host j) invitation join) s)"
| Receive: "phase s = Racing i le \<Longrightarrow> results s = (j, r) # rs \<Longrightarrow> race_step host s (receive i j r s)"
| Cancel: "phase s = Racing i le \<Longrightarrow> race_step host s (s \<lparr>phase := Failed CtxCanceled\<rparr>)"
| Drain: "phase s = Won w \<Longrightarrow> 0 < to_drain s \<Longrightarrow> results s = (j, r) # rs \<Longrightarrow>
    race_step host s (drainLateSessions j r s)"

inductive_cases race_stepE: "race_step host s s'"

abbreviation race_reach :: "(nat \<Rightarrow> string) \<Rightarrow> nat \<Rightarrow> race \<Rightarrow> bool" where
  "race_reach host n \<equiv> reachable (race_step host) (start_race n)"

section \<open>Invariant\<close>

definition waiting :: "race \<Rightarrow> nat set" where
  "waiting s = {j. (j, Joined) \<in> set (results s)}"

text \<open>Every racer is running, queued or received, and every open session is the winner's or
  still in the channel.\<close>

definition race_inv :: "race \<Rightarrow> bool" where
  "race_inv s \<longleftrightarrow>
     finite (running s) \<and> distinct (map fst (results s)) \<and>
     running s \<inter> fst ` set (results s) = {} \<and>
     (case phase s of
        Racing i le \<Rightarrow> card (running s) + length (results s) + i = started s \<and> sessions s = waiting s
          \<and> i < started s
      | Failed e \<Rightarrow> sessions s = waiting s
      | Won w \<Rightarrow> card (running s) + length (results s) = to_drain s \<and> sessions s = insert w (waiting s)
          \<and> w \<notin> running s \<and> w \<notin> fst ` set (results s))"

lemma race_inv_start: "race_inv (start_race n)"
  by (simp add: race_inv_def start_race_def waiting_def)

lemma waiting_simps [simp]:
  "waiting (s \<lparr>running := R, results := rs @ [(j, r)], sessions := S\<rparr>) =
     {k. (k, Joined) \<in> set rs} \<union> (if r = Joined then {j} else {})"
  "waiting (s \<lparr>phase := p\<rparr>) = waiting s"
  by (auto simp: waiting_def)

lemma race_inv_report: "race_inv s \<Longrightarrow> j \<in> running s \<Longrightarrow> race_inv (report j r s)"
proof -
  assume inv: "race_inv s" and j: "j \<in> running s"
  then have "0 < card (running s)" by (auto simp: race_inv_def card_gt_0_iff)
  then show ?thesis
    using inv j by (auto simp: race_inv_def report_def waiting_def split: race_phase.splits)
qed

lemma race_inv_receive:
  "race_inv s \<Longrightarrow> phase s = Racing i le \<Longrightarrow> results s = (j, r) # rs \<Longrightarrow> race_inv (receive i j r s)"
  by (cases r) (auto simp: race_inv_def receive_def waiting_def)

lemma race_inv_drain:
  "race_inv s \<Longrightarrow> phase s = Won w \<Longrightarrow> results s = (j, r) # rs \<Longrightarrow> race_inv (drainLateSessions j r s)"
  by (cases r) (auto simp: race_inv_def drainLateSessions_def waiting_def image_iff)

lemma race_inv_step: "race_step host s s' \<Longrightarrow> race_inv s \<Longrightarrow> race_inv s'"
proof (induction rule: race_step.induct)
  case (Cancel s i le)
  then show ?case by (simp add: race_inv_def)
qed (simp_all add: race_inv_report race_inv_receive race_inv_drain)

text \<open>A failure that is no cancellation means that every racer has reported and lost.\<close>

definition race_err_inv :: "race \<Rightarrow> bool" where
  "race_err_inv s \<longleftrightarrow>
     (\<forall>j e. (j, Lost e) \<in> set (results s) \<longrightarrow> e \<noteq> CtxCanceled) \<and>
     (\<forall>e. phase s = Failed e \<longrightarrow> e = CtxCanceled \<or> running s = {} \<and> results s = [])"

lemma racer_result_not_cancel: "racer_result host invitation join \<noteq> Lost CtxCanceled"
  by (auto simp: racer_result_def wrap_err_def split: sum.splits)

lemma race_err_inv_step:
  "race_step host s s' \<Longrightarrow> race_inv s \<Longrightarrow> race_err_inv s \<Longrightarrow> race_err_inv s'"
proof (induction rule: race_step.induct)
  case (Report j s invitation join)
  then show ?case
    using racer_result_not_cancel [of "host j" invitation join]
    by (auto simp: race_err_inv_def report_def)
next
  case (Receive s i le j r rs)
  have "running s = {} \<and> rs = []" if "\<not> i + 1 < started s"
  proof -
    have "card (running s) + length (results s) + i = started s" "finite (running s)"
      using Receive by (simp_all add: race_inv_def)
    moreover have "length (results s) = Suc (length rs)" using Receive(2) by simp
    ultimately have "card (running s) = 0" "length rs = 0" using that by linarith+
    then show ?thesis using \<open>finite (running s)\<close> by simp
  qed
  then show ?case using Receive by (cases r) (auto simp: race_err_inv_def receive_def)
next
  case (Cancel s i le)
  then show ?case by (simp add: race_err_inv_def)
next
  case (Drain s w j r rs)
  then show ?case by (auto simp: race_err_inv_def drainLateSessions_def)
qed

section \<open>Termination\<close>

definition race_measure :: "race \<Rightarrow> nat" where
  "race_measure s =
     2 * card (running s) + length (results s) + (case phase s of Racing _ _ \<Rightarrow> 1 | _ \<Rightarrow> 0)"

lemma race_measure_decreases:
  assumes "race_step host s s'" and "race_inv s"
  shows "race_measure s' < race_measure s"
  using assms
proof (induction rule: race_step.induct)
  case (Report j s invitation join)
  then have "0 < card (running s)" by (auto simp: race_inv_def card_gt_0_iff)
  with Report show ?case
    by (auto simp: race_measure_def report_def race_inv_def card_Diff_singleton split: race_phase.splits)
next
  case (Receive s i le j r rs)
  then show ?case by (cases r) (auto simp: race_measure_def receive_def)
next
  case (Cancel s i le)
  then show ?case by (simp add: race_measure_def)
next
  case (Drain s w j r rs)
  then show ?case by (simp add: race_measure_def drainLateSessions_def)
qed

text \<open>The race keeps both invariants, and every step of a goroutine lowers its rank.\<close>

interpretation racing: ranked_system "race_step host" "start_race n" race_inv race_measure for host n
  by unfold_locales (fact race_inv_start, blast intro: race_inv_step, fact race_measure_decreases)

lemma race_err_inv_start: "race_err_inv (start_race n)"
  by (auto simp: race_err_inv_def start_race_def split: if_splits)

interpretation failing: step_invariant "race_step host" "start_race n" "\<lambda>s. race_inv s \<and> race_err_inv s" for host n
  by unfold_locales (blast intro: race_inv_start race_err_inv_start race_inv_step race_err_inv_step)+

definition race_choice :: "race \<Rightarrow> nat choice" where
  "race_choice s = (case phase s of Racing _ _ \<Rightarrow> Undecided | Won w \<Rightarrow> Chosen w | Failed _ \<Rightarrow> GaveUp)"

interpretation race_choosing: simulation "race_step host" "start_race n" race_inv race_choice settle for host n
proof
  fix s s'
  assume "race_step host s s'" "race_inv s"
  then show "race_choice s' = race_choice s \<or> settle (race_choice s) (race_choice s')"
  proof cases
    case (Receive i le j r rs)
    then show ?thesis by (cases r) (auto simp: race_choice_def receive_def intro: settle.intros)
  qed (auto simp: race_choice_def report_def drainLateSessions_def intro: settle.intros)
qed

lemma won_at_rest:
  assumes "race_inv s" and "phase s = Won w" and "final (race_step host) s"
  shows "sessions s = {w}"
proof -
  have "running s = {}" using Report assms(3) unfolding final_def by blast
  moreover have "results s = []"
  proof (cases "results s")
    case (Cons p rs)
    then have "0 < to_drain s" using assms(1,2) by (simp add: race_inv_def)
    then show ?thesis using Drain [OF assms(2)] Cons assms(3) unfolding final_def by (cases p) blast
  qed simp
  ultimately show ?thesis using assms(1,2) by (simp add: race_inv_def waiting_def)
qed

lemma racing_goes_on:
  assumes "race_inv s" and "phase s = Racing i le"
  shows "(\<exists>j r. race_step host s (report j r s)) \<or> (\<exists>j r. race_step host s (receive i j r s))"
proof (cases "results s")
  case Nil
  then have "running s \<noteq> {}" using assms by (auto simp: race_inv_def)
  then obtain j where "j \<in> running s" by blast
  then show ?thesis using race_step.Report by blast
next
  case (Cons p rs)
  then show ?thesis using race_step.Receive [OF assms(2)] by (cases p) blast
qed

lemma final_decided: "race_inv s \<Longrightarrow> final (race_step host) s \<Longrightarrow> \<exists>e. phase s = Failed e \<or> (\<exists>w. phase s = Won w)"
  using racing_goes_on [of s] unfolding final_def by (cases "phase s") blast+

section \<open>Properties\<close>


text \<open>a race that reports an error other than the caller's cancellation has heard from every
  racer: none is still running, no result is unread, and no session is open.\<close>

theorem race_failure_is_clean:
  assumes "race_reach host n s" and "phase s = Failed e" and "e \<noteq> CtxCanceled"
  shows "running s = {} \<and> results s = [] \<and> sessions s = {}"
  using failing.inv_reachable [OF assms(1)] assms(2,3)
  by (auto simp: race_inv_def race_err_inv_def waiting_def)

text \<open>C28: a race over \<open>n\<close> relays ends after at most \<open>2 * n + 1\<close> steps of all goroutines, and from
  wherever it is it comes to rest with a decision: an error, or a winner whose session is the
  only one that is open.\<close>

theorem race_terminates:
  assumes "steps (race_step host) k (start_race n) s"
  shows "k \<le> 2 * n + 1
    \<and> (\<exists>s'. reachable (race_step host) s s' \<and> final (race_step host) s'
        \<and> ((\<exists>e. phase s' = Failed e) \<or> (\<exists>w. phase s' = Won w \<and> sessions s' = {w})))"
proof
  show "k \<le> 2 * n + 1"
    using racing.run_bound [OF assms race_inv_start] by (simp add: race_measure_def start_race_def split: if_splits)
  have r: "race_reach host n s" by (rule steps_reachable [OF assms])
  obtain s' where s': "reachable (race_step host) s s'" "final (race_step host) s'"
    using racing.end_reachable [OF r] by blast
  have "race_inv s'" by (rule racing.inv_reachable [OF reachable_trans [OF s'(1) r]])
  with s' show "\<exists>s'. reachable (race_step host) s s' \<and> final (race_step host) s'
      \<and> ((\<exists>e. phase s' = Failed e) \<or> (\<exists>w. phase s' = Won w \<and> sessions s' = {w}))"
    using final_decided [of s' host] won_at_rest [of s' _ host] by (intro exI [of _ s']) blast
qed

text \<open>a race never waits for a result that cannot come: as long as the caller has not returned,
  a racer can still report, or the caller can read a result that is there.\<close>

theorem race_never_stuck:
  assumes "race_reach host n s" and "phase s = Racing i le"
  shows "(\<exists>j r. race_step host s (report j r s)) \<or> (\<exists>j r. race_step host s (receive i j r s))"
  by (rule racing_goes_on [OF racing.inv_reachable [OF assms(1)] assms(2)])

section \<open>Sample runs\<close>

text \<open>Two relays; the second wins and the session of the first arrives late.\<close>

definition sample_won :: race where
  "sample_won = \<lparr>running = {}, results = [], sessions = {1}, phase = Won 1, to_drain = 0, started = 2\<rparr>"

lemma sample_won_reach: "race_reach (\<lambda>_. ''r'') 2 sample_won"
proof -
  let ?s1 = "report 1 Joined (start_race 2)"
  let ?s2 = "receive 0 1 Joined ?s1"
  let ?s3 = "report 0 Joined ?s2"
  have J: "racer_result ''r'' (Inr ()) (Inr ()) = Joined" by (simp add: racer_result_def)
  have r0: "race_reach (\<lambda>_. ''r'') 2 (start_race 2)" by (rule reachable.Start)
  have r1: "race_reach (\<lambda>_. ''r'') 2 ?s1"
    by (rule reachable.Step [OF r0])
       (use Report [of 1 "start_race 2" "\<lambda>_. ''r''" "Inr ()" "Inr ()"] in \<open>simp add: J start_race_def\<close>)
  have r2: "race_reach (\<lambda>_. ''r'') 2 ?s2"
    by (rule reachable.Step [OF r1], rule Receive [where le = None and rs = "[]"])
       (simp_all add: report_def start_race_def)
  have r3: "race_reach (\<lambda>_. ''r'') 2 ?s3"
    by (rule reachable.Step [OF r2])
       (use Report [of 0 ?s2 "\<lambda>_. ''r''" "Inr ()" "Inr ()"] in
         \<open>simp add: J start_race_def receive_def report_def\<close>)
  have "race_reach (\<lambda>_. ''r'') 2 (drainLateSessions 0 Joined ?s3)"
    by (rule reachable.Step [OF r3], rule Drain [where w = 1 and rs = "[]"])
       (simp_all add: report_def start_race_def receive_def)
  moreover have "drainLateSessions 0 Joined ?s3 = sample_won"
    by (simp add: drainLateSessions_def report_def receive_def start_race_def sample_won_def)
       (auto simp: atLeast0_lessThan_Suc numeral_2_eq_2)
  ultimately show ?thesis by simp
qed


definition sample_lost :: race where
  "sample_lost = \<lparr>running = {}, results = [], sessions = {},
     phase = Failed (Errorf ''failed to get invitation from relay r: EOF''), to_drain = 0, started = 1\<rparr>"

definition sample_error :: gerror where
  "sample_error = wrap_err (''failed to get invitation from relay '' @ ''r'') EOF"

lemma sample_lost_steps:
  "race_step (\<lambda>_. ''r'') (start_race 1) (report 0 (Lost sample_error) (start_race 1))"
  "race_step (\<lambda>_. ''r'') (report 0 (Lost sample_error) (start_race 1)) sample_lost"
proof -
  have J: "racer_result ''r'' (Inl EOF) (Inr ()) = Lost sample_error"
    by (simp add: racer_result_def sample_error_def)
  show "race_step (\<lambda>_. ''r'') (start_race 1) (report 0 (Lost sample_error) (start_race 1))"
    using Report [of 0 "start_race 1" "\<lambda>_. ''r''" "Inl EOF" "Inr ()"] by (simp add: J start_race_def)
  have "receive 0 0 (Lost sample_error) (report 0 (Lost sample_error) (start_race 1)) = sample_lost"
    by (simp add: report_def receive_def start_race_def sample_lost_def wrap_err_def sample_error_def)
  moreover have "race_step (\<lambda>_. ''r'') (report 0 (Lost sample_error) (start_race 1))
      (receive 0 0 (Lost sample_error) (report 0 (Lost sample_error) (start_race 1)))"
    by (rule Receive [where le = None and rs = "[]"]) (simp_all add: report_def start_race_def)
  ultimately show "race_step (\<lambda>_. ''r'') (report 0 (Lost sample_error) (start_race 1)) sample_lost"
    by simp
qed

lemma sample_lost_reach: "race_reach (\<lambda>_. ''r'') 1 sample_lost"
  using reachable.Start reachable.Step sample_lost_steps by metis

theorem race_failure_is_clean_witness: "running sample_lost = {} \<and> results sample_lost = [] \<and> sessions sample_lost = {}"
  by (rule race_failure_is_clean [OF sample_lost_reach]) (simp add: sample_lost_def, simp)

theorem race_terminates_witness: "\<exists>s'. reachable (race_step (\<lambda>_. ''r'')) sample_lost s' \<and> final (race_step (\<lambda>_. ''r'')) s'"
proof -
  have "steps (race_step (\<lambda>_. ''r'')) (Suc (Suc 0)) (start_race 1) sample_lost"
    using sample_lost_steps by (simp add: steps_Suc) blast
  from race_terminates [OF this] show ?thesis by blast
qed

theorem race_never_stuck_witness:
  "(\<exists>j r. race_step (\<lambda>_. ''r'') (start_race 1) (report j r (start_race 1)))
   \<or> (\<exists>j r. race_step (\<lambda>_. ''r'') (start_race 1) (receive 0 j r (start_race 1)))"
  by (rule race_never_stuck [OF reachable.Start, of 1 0 None "\<lambda>_. ''r''"]) (simp add: start_race_def)

end
