(* ===== verification/Flags.thy ===== *)
theory Flags
  imports Go_Strings
begin

text \<open>
  Command-line flags: the parser of the vendored package \<^verbatim>\<open>pflag\<close>, as far as the program's flag
  sets reach it (long flags, the shorthand of the help flag that \<^verbatim>\<open>cobra\<close> adds, interspersed
  arguments), and the conversions of values that the standard library makes.  A flag is a
  setter of the record that holds the program's flag variables.
\<close>

section \<open>Values\<close>

definition ParseBool :: "string \<Rightarrow> bool option" where
  "ParseBool s =
     (if s \<in> {''1'', ''t'', ''T'', ''true'', ''TRUE'', ''True''} then Some True
      else if s \<in> {''0'', ''f'', ''F'', ''false'', ''FALSE'', ''False''} then Some False
      else None)"

text \<open>\<^verbatim>\<open>strconv.ParseInt\<close> with base 0: a prefix chooses the base, and underscores may stand between
  digits.\<close>

definition digit36 :: "char \<Rightarrow> nat option" where
  "digit36 c =
     (let n = (of_char c :: nat)
      in if 48 \<le> n \<and> n \<le> 57 then Some (n - 48)
         else if 97 \<le> n \<and> n \<le> 122 then Some (n - 87)
         else if 65 \<le> n \<and> n \<le> 90 then Some (n - 55)
         else None)"

fun digits_value :: "nat \<Rightarrow> nat \<Rightarrow> string \<Rightarrow> nat option" where
  "digits_value base acc [] = Some acc"
| "digits_value base acc (c # cs) =
     (if c = CHR ''_'' then digits_value base acc cs
      else case digit36 c of
             None \<Rightarrow> None
           | Some d \<Rightarrow> if d < base then digits_value base (acc * base + d) cs else None)"

text \<open>The walk of \<^verbatim>\<open>underscoreOK\<close>; the character remembers what came before.\<close>

fun underscores :: "bool \<Rightarrow> char \<Rightarrow> string \<Rightarrow> bool" where
  "underscores hex before [] = (before \<noteq> CHR ''_'')"
| "underscores hex before (c # cs) =
     (let n = (of_char c :: nat); low = (if 65 \<le> n \<and> n \<le> 90 then n + 32 else n)
      in if 48 \<le> n \<and> n \<le> 57 \<or> hex \<and> 97 \<le> low \<and> low \<le> 102 then underscores hex (CHR ''0'') cs
         else if c = CHR ''_'' then before = CHR ''0'' \<and> underscores hex (CHR ''_'') cs
         else before \<noteq> CHR ''_'' \<and> underscores hex (CHR ''!'') cs)"

definition base_of :: "string \<Rightarrow> nat \<times> string \<times> bool" where
  "base_of s =
     (if 3 \<le> length s \<and> hd s = CHR ''0'' \<and> s ! 1 \<in> {CHR ''b'', CHR ''B''} then (2, drop 2 s, False)
      else if 3 \<le> length s \<and> hd s = CHR ''0'' \<and> s ! 1 \<in> {CHR ''o'', CHR ''O''} then (8, drop 2 s, False)
      else if 3 \<le> length s \<and> hd s = CHR ''0'' \<and> s ! 1 \<in> {CHR ''x'', CHR ''X''} then (16, drop 2 s, True)
      else if s \<noteq> [] \<and> hd s = CHR ''0'' then (8, tl s, False)
      else (10, s, False))"

definition ParseInt0 :: "string \<Rightarrow> int option" where
  "ParseInt0 s =
     (let neg = (s \<noteq> [] \<and> hd s = CHR ''-''); u = (if s \<noteq> [] \<and> hd s \<in> {CHR ''-'', CHR ''+''} then tl s else s)
      in if u = [] then None
         else case base_of u of
                (base, ds, hex) \<Rightarrow>
                  (case digits_value base 0 ds of
                     None \<Rightarrow> None
                   | Some n \<Rightarrow>
                       if CHR ''_'' \<in> set u \<and> \<not> underscores hex (if base \<noteq> 10 \<and> drop 2 u = ds then CHR ''0'' else CHR ''^'')
                              (if base \<noteq> 10 \<and> drop 2 u = ds then ds else u) then None
                       else if neg then (if n \<le> 2 ^ 63 then Some (- int n) else None)
                       else if n < 2 ^ 63 then Some (int n) else None))"

text \<open>\<^verbatim>\<open>time.ParseDuration\<close>, in nanoseconds; the fraction is cut off exactly where the code rounds a
  floating-point product.\<close>

definition unit_value :: "string \<Rightarrow> nat option" where
  "unit_value u =
     (if u = ''ns'' then Some 1
      else if u \<in> {''us'', [CHR 0xC2, CHR 0xB5, CHR ''s''], [CHR 0xCE, CHR 0xBC, CHR ''s'']} then Some (10 ^ 3)
      else if u = ''ms'' then Some (10 ^ 6)
      else if u = ''s'' then Some (10 ^ 9)
      else if u = ''m'' then Some (60 * 10 ^ 9)
      else if u = ''h'' then Some (3600 * 10 ^ 9)
      else None)"

definition is_dec :: "char \<Rightarrow> bool" where
  "is_dec c \<longleftrightarrow> 48 \<le> (of_char c :: nat) \<and> (of_char c :: nat) \<le> 57"

definition dec_value :: "string \<Rightarrow> nat" where
  "dec_value ds = foldl (\<lambda>a c. a * 10 + (of_char c - 48)) 0 ds"

text \<open>One number with its unit: the value and what follows.\<close>

definition duration_part :: "string \<Rightarrow> (nat \<times> string) option" where
  "duration_part s =
     (let whole = takeWhile is_dec s;
          s1 = dropWhile is_dec s;
          dot = (s1 \<noteq> [] \<and> hd s1 = CHR ''.'');
          frac = (if dot then takeWhile is_dec (tl s1) else []);
          s2 = (if dot then dropWhile is_dec (tl s1) else s1);
          u = takeWhile (\<lambda>c. c \<noteq> CHR ''.'' \<and> \<not> is_dec c) s2
      in if whole = [] \<and> frac = [] \<or> 2 ^ 63 < dec_value whole then None
         else case unit_value u of
                None \<Rightarrow> None
              | Some unit \<Rightarrow>
                  let v = dec_value whole * unit + dec_value frac * unit div 10 ^ length frac
                  in if 2 ^ 63 < v then None else Some (v, drop (length u) s2))"

fun duration_parts :: "nat \<Rightarrow> nat \<Rightarrow> string \<Rightarrow> nat option" where
  "duration_parts fuel d [] = Some d"
| "duration_parts 0 d (c # s) = None"
| "duration_parts (Suc fuel) d (c # s) =
     (case duration_part (c # s) of
        None \<Rightarrow> None
      | Some (v, rest) \<Rightarrow> if 2 ^ 63 < d + v then None else duration_parts fuel (d + v) rest)"

definition ParseDuration :: "string \<Rightarrow> int option" where
  "ParseDuration s =
     (let neg = (s \<noteq> [] \<and> hd s = CHR ''-''); u = (if s \<noteq> [] \<and> hd s \<in> {CHR ''-'', CHR ''+''} then tl s else s)
      in if u = ''0'' then Some 0
         else if u = [] then None
         else case duration_parts (length u) 0 u of
                None \<Rightarrow> None
              | Some d \<Rightarrow> if neg then Some (- int d) else if d < 2 ^ 63 then Some (int d) else None)"

section \<open>Flags\<close>

datatype 'r flag =
    FString "string \<Rightarrow> 'r \<Rightarrow> 'r" | FBool "bool \<Rightarrow> 'r \<Rightarrow> 'r" | FInt "int \<Rightarrow> 'r \<Rightarrow> 'r" | FDuration "int \<Rightarrow> 'r \<Rightarrow> 'r"

type_synonym 'r flag_set = "(string \<times> 'r flag) list"

definition invalid_value :: "string \<Rightarrow> string \<Rightarrow> gerror" where
  "invalid_value name v = Errorf (''invalid argument '' @ [CHR 0x22] @ v @ [CHR 0x22] @ '' for '' @ [CHR 0x22] @ ''--'' @ name @ [CHR 0x22] @ '' flag'')"

definition set_flag :: "string \<Rightarrow> 'r flag \<Rightarrow> string \<Rightarrow> 'r \<Rightarrow> gerror + 'r" where
  "set_flag name f v r =
     (case f of
        FString put \<Rightarrow> Inr (put v r)
      | FBool put \<Rightarrow> (case ParseBool v of None \<Rightarrow> Inl (invalid_value name v) | Some b \<Rightarrow> Inr (put b r))
      | FInt put \<Rightarrow> (case ParseInt0 v of None \<Rightarrow> Inl (invalid_value name v) | Some i \<Rightarrow> Inr (put i r))
      | FDuration put \<Rightarrow> (case ParseDuration v of None \<Rightarrow> Inl (invalid_value name v) | Some i \<Rightarrow> Inr (put i r)))"

fun takes_value :: "'r flag \<Rightarrow> bool" where
  "takes_value (FBool _) = False"
| "takes_value _ = True"

text \<open>A long flag \<open>s\<close> with the arguments after it: the arguments that are left and the new values.\<close>

definition parseLongArg :: "'r flag_set \<Rightarrow> string \<Rightarrow> string list \<Rightarrow> 'r \<Rightarrow> gerror + (string list \<times> 'r)" where
  "parseLongArg fs s args r =
     (let body = drop 2 s
      in if body = [] \<or> hd body = CHR ''-'' \<or> hd body = CHR ''='' then Inl (Errorf (''bad flag syntax: '' @ s))
         else
           let (name, given, eq) = Cut body ''=''
           in case map_of fs name of
                None \<Rightarrow> Inl (Errorf (if name = ''help'' then ''pflag: help requested'' else ''unknown flag: --'' @ name))
              | Some f \<Rightarrow>
                  if eq then map_sum id (Pair args) (set_flag name f given r)
                  else if \<not> takes_value f then map_sum id (Pair args) (set_flag name f ''true'' r)
                  else (case args of
                          [] \<Rightarrow> Inl (Errorf (''flag needs an argument: --'' @ name))
                        | v # rest \<Rightarrow> map_sum id (Pair rest) (set_flag name f v r)))"

text \<open>Shorthands: the only one is \<^verbatim>\<open>-h\<close>, for the Boolean flag \<^verbatim>\<open>--help\<close>.\<close>

fun parseShortArg :: "'r flag_set \<Rightarrow> string \<Rightarrow> 'r \<Rightarrow> gerror + 'r" where
  "parseShortArg fs [] r = Inr r"
| "parseShortArg fs (c # cs) r =
     (if HasPrefix (c # cs) ''test.'' then Inr r
      else if c = CHR ''h'' then
        (case map_of fs ''help'' of
           None \<Rightarrow> Inl (Errorf ''pflag: help requested'')
         | Some f \<Rightarrow>
             if 2 \<le> length cs \<and> hd cs = CHR ''='' then set_flag ''help'' f (tl cs) r
             else (case set_flag ''help'' f ''true'' r of Inl e \<Rightarrow> Inl e | Inr r' \<Rightarrow> parseShortArg fs cs r'))
      else Inl (Errorf (''unknown shorthand flag: '' @ [CHR 0x27, c, CHR 0x27] @ '' in -'' @ c # cs)))"

lemma parseLongArg_length: "parseLongArg fs s args r = Inr (args', r') \<Longrightarrow> length args' \<le> length args"
  by (auto simp: parseLongArg_def map_sum_def Let_def split: if_splits option.splits list.splits sum.splits prod.splits)

text \<open>The arguments of a command: the values of the flags and the arguments that are no flags.\<close>

function parseArgs :: "'r flag_set \<Rightarrow> string list \<Rightarrow> 'r \<Rightarrow> string list \<Rightarrow> gerror + ('r \<times> string list)" where
  "parseArgs fs [] r pos = Inr (r, pos)"
| "parseArgs fs (s # args) r pos =
     (if length s < 2 \<or> hd s \<noteq> CHR ''-'' then parseArgs fs args r (pos @ [s])
      else if s ! 1 = CHR ''-'' then
        (if length s = 2 then Inr (r, pos @ args)
         else case parseLongArg fs s args r of
                Inl e \<Rightarrow> Inl e
              | Inr (args', r') \<Rightarrow> parseArgs fs args' r' pos)
      else (case parseShortArg fs (tl s) r of Inl e \<Rightarrow> Inl e | Inr r' \<Rightarrow> parseArgs fs args r' pos))"
  by pat_completeness auto
termination
  by (relation "measure (\<lambda>(fs, args, r, pos). length args)") (auto simp: le_imp_less_Suc parseLongArg_length)

declare parseArgs.simps(2) [simp del]

end
