(* ===== verification/Identity.thy ===== *)
theory Identity
  imports Device_Id
begin

text \<open>
  Deterministic TLS identities (\<^verbatim>\<open>identity/cert.go\<close>, and \<^verbatim>\<open>cert.go\<close> which forwards to it).  Key
  generation and the encoding of certificates belong to the standard library and are parameters;
  the template that is encoded is modelled in full, with its two instants in seconds since 1970.
\<close>

section \<open>Instants and time zones\<close>

text \<open>A zone tells for every instant how many seconds local time is ahead of UTC.  \<^verbatim>\<open>time.Unix\<close> yields
  a local time, so \<^verbatim>\<open>AddDate\<close> works on the local calendar: it adds to the local clock and
  \<^verbatim>\<open>time.Date\<close> looks for the instant that shows the result.  One hundred years from the
  last day of 1969 or the first of 1970 are 36525 days.\<close>

type_synonym zone = "int \<Rightarrow> int"

definition utc_zone :: zone where
  "utc_zone t = 0"

definition date_to_unix :: "zone \<Rightarrow> int \<Rightarrow> int" where
  "date_to_unix z wall = (if z wall = 0 then wall else wall - z (wall - z wall))"

definition century :: int where
  "century = 36525 * 86400"

definition add_century :: "zone \<Rightarrow> int \<Rightarrow> int" where
  "add_century z t = date_to_unix z (t + z t + century)"

section \<open>Certificates\<close>

datatype ext_usage = ExtKeyUsageServerAuth | ExtKeyUsageClientAuth

record cert_template =
  SerialNumber :: int
  CommonName :: string
  NotBefore :: int
  NotAfter :: int
  KeyUsage :: "32 word"
  ExtKeyUsage :: "ext_usage list"
  BasicConstraintsValid :: bool

record tls_cert =
  Certificate :: "bytes list"
  PrivateKey :: bytes

text \<open>The library: a hash, key pairs from seeds, and certificates, which depend on the random bytes
  that the reader supplies.\<close>

record cert_lib =
  cl_sha256 :: "bytes \<Rightarrow> bytes"
  cl_public :: "bytes \<Rightarrow> bytes"
  cl_create :: "(nat \<Rightarrow> bytes) \<Rightarrow> cert_template \<Rightarrow> cert_template \<Rightarrow> bytes \<Rightarrow> bytes \<Rightarrow> gerror + bytes"

definition CertSuffixServer :: string where "CertSuffixServer = ''server''"
definition CertSuffixClient :: string where "CertSuffixClient = ''client''"

definition zeroReader_Read :: "nat \<Rightarrow> bytes" where
  "zeroReader_Read n = replicate n 0"

definition identity_template :: "zone \<Rightarrow> cert_template" where
  "identity_template z = \<lparr>SerialNumber = 1, CommonName = ''syncthing-socket'', NotBefore = 0,
     NotAfter = add_century z 0, KeyUsage = 1 OR 4,
     ExtKeyUsage = [ExtKeyUsageServerAuth, ExtKeyUsageClientAuth], BasicConstraintsValid = True\<rparr>"

definition GenerateDeterministicCert :: "cert_lib \<Rightarrow> zone \<Rightarrow> string \<Rightarrow> gerror + tls_cert" where
  "GenerateDeterministicCert lib z seed =
     (let priv = cl_sha256 lib (bytes_of_string seed); template = identity_template z
      in case cl_create lib zeroReader_Read template template (cl_public lib priv) priv of
           Inl e \<Rightarrow> Inl e
         | Inr der \<Rightarrow> Inr \<lparr>Certificate = [der], PrivateKey = priv\<rparr>)"

lemma GenerateDeterministicCert_one:
  "GenerateDeterministicCert lib z seed = Inr c \<Longrightarrow> \<exists>der. Certificate c = [der]"
  by (auto simp: GenerateDeterministicCert_def Let_def split: sum.splits)

section \<open>Where the identity is the same\<close>

text \<open>A zone whose distance to UTC on the first of January is the same in 1970 and in 2070.\<close>

definition steady :: "zone \<Rightarrow> bool" where
  "steady z \<longleftrightarrow> z century = z 0 \<and> z (century + z 0) = z 0"

lemma identity_template_steady: "steady z \<Longrightarrow> identity_template z = identity_template utc_zone"
  by (auto simp: steady_def identity_template_def add_century_def date_to_unix_def utc_zone_def algebra_simps)

text \<open>London kept British Summer Time throughout the winter of 1970 and has not since.\<close>

definition london :: zone where
  "london t = (if -59004000 \<le> t \<and> t < 57722400 then 3600 else 0)"

text \<open>C38: the same seed gives the same certificate on every machine whose time zone is as far from
  UTC in 2070 as it was in 1970, but not everywhere: in London the certificate is valid for
  an hour longer, so its bytes, and with them the device ID, are others.\<close>

theorem identity_depends_on_time_zone:
  "(steady z \<longrightarrow> GenerateDeterministicCert lib z seed = GenerateDeterministicCert lib utc_zone seed)
   \<and> NotAfter (identity_template utc_zone) = century \<and> NotAfter (identity_template london) = century + 3600"
  by (auto simp: GenerateDeterministicCert_def identity_template_steady)
    (simp_all add: identity_template_def add_century_def date_to_unix_def utc_zone_def london_def century_def)

definition sample_cert_lib :: cert_lib where
  "sample_cert_lib = \<lparr>cl_sha256 = id, cl_public = id, cl_create = (\<lambda>rnd t p pub priv. Inr (put_u64 (of_int (NotAfter t)) @ pub))\<rparr>"

theorem identity_depends_on_time_zone_witness:
  "GenerateDeterministicCert sample_cert_lib (\<lambda>_. 3600) ''seed'' = GenerateDeterministicCert sample_cert_lib utc_zone ''seed''"
  using identity_depends_on_time_zone [of "\<lambda>_. 3600" sample_cert_lib "''seed''"] by (simp add: steady_def)

end
