(* ===== verification/Server.thy ===== *)
theory Server
  imports Server_Handlers Discovery Step_Systems
begin

text \<open>
  The server's main function \<^verbatim>\<open>runServer\<close> (\<^verbatim>\<open>main.go\<close>) and the service wrapper around it
  (\<^verbatim>\<open>service.go\<close>): the start with its listener and its wait for the relay, the loop of the
  forwarding mode, and the goroutines of the netcat mode as a step relation.
\<close>

section \<open>Starting\<close>

record run_opts =
  ro_server :: server_opts
  relayURI :: string
  discoveryServers :: "string list"
  directPort :: int
  announceInterval :: int

text \<open>What the start depends on: the parser of the relay URI, the TCP listener with the port it got,
  the relay client, and what each look at that client shows.\<close>

datatype poll = PollError gerror | PollConnected string | PollWaiting | PollCtxDone gerror

record start_world =
  parse_err :: "gerror option"
  listen_result :: "gerror + int"
  new_client :: "gerror option"
  polls :: "poll list"

datatype start_event = Stderr string | Notify string | Announce "string list" int

definition rule_line :: start_event where
  "rule_line = Stderr (replicate 50 CHR ''='')"

definition extraFlags :: "server_opts \<Rightarrow> string" where
  "extraFlags opts =
     (if isShell opts then '' --shell''
      else if isSocks opts then '' --socks 127.0.0.1:1080''
      else if so_reverseForward opts \<noteq> [] then '' --reverse-forward 127.0.0.1:80''
      else [])"

text \<open>The loop that waits until the relay client is connected; \<open>None\<close> while it goes on.\<close>

fun wait_relay :: "poll list \<Rightarrow> (gerror + string) option" where
  "wait_relay [] = None"
| "wait_relay (PollError e # ps) = Some (Inl (wrap_err ''relay client error'' e))"
| "wait_relay (PollConnected uri # ps) = Some (Inr uri)"
| "wait_relay (PollCtxDone e # ps) = Some (Inl e)"
| "wait_relay (PollWaiting # ps) = wait_relay ps"

definition announce_start :: "run_opts \<Rightarrow> start_event list" where
  "announce_start opts =
     (if discoveryServers opts = [] then []
      else [Announce (discoveryServers opts)
              (if announceInterval opts \<le> 0 then 30 * 60 * 10 ^ 9 else announceInterval opts)])"

definition relay_start :: "run_opts \<Rightarrow> string \<Rightarrow> start_world \<Rightarrow> start_event list \<times> (gerror + string) option" where
  "relay_start opts serverID w =
     (case new_client w of
        Some e \<Rightarrow> ([], Some (Inl (wrap_err ''failed to create relay client'' e)))
      | None \<Rightarrow>
          (case wait_relay (polls w) of
             Some (Inr uri) \<Rightarrow>
               ([Notify ''STATUS=Connecting to relay...'',
                 Stderr (''Connected to Relay: '' @ uri),
                 Stderr ''To connect, run:'',
                 Stderr (''  ./syncthing-socket client'' @ extraFlags (ro_server opts) @ '' -relay '' @ quote uri @ '' '' @ serverID),
                 Stderr ''Or simply:'',
                 Stderr (''  ./syncthing-socket client'' @ extraFlags (ro_server opts) @ '' '' @ serverID @ ''@'' @ uri),
                 rule_line,
                 Notify (''READY=1'' @ [CHR 0x0A] @ ''STATUS=Connected to '' @ uri)], Some (Inr uri))
           | r \<Rightarrow> ([Notify ''STATUS=Connecting to relay...''], r)))"

definition direct_start :: "run_opts \<Rightarrow> string \<Rightarrow> int \<Rightarrow> start_event list" where
  "direct_start opts serverID actualPort =
     Notify (''READY=1'' @ [CHR 0x0A] @ ''STATUS=Listening for direct connections only'') #
     (if 0 < directPort opts then
        [Stderr ''To connect directly, run:'',
         Stderr (''  ./syncthing-socket client'' @ extraFlags (ro_server opts) @ '' -relay '' @ [CHR 0x22] @ ''tcp://127.0.0.1:'' @
                 Itoa actualPort @ [CHR 0x22] @ '' '' @ serverID),
         rule_line]
      else [])"

text \<open>Everything up to the first connection: the events, and the relay that the server is connected
  to, if it uses one, with the direct port.\<close>

definition runServer_start ::
  "run_opts \<Rightarrow> string \<Rightarrow> start_world \<Rightarrow> start_event list \<times> (gerror + (string option \<times> int)) option" where
  "runServer_start opts serverID w =
     (case parse_err w of
        Some e \<Rightarrow> ([], Some (Inl (wrap_err ''invalid relay URI'' e)))
      | None \<Rightarrow>
          let head = [rule_line, Stderr (''Server Device ID: '' @ serverID), rule_line];
              listening = (if 0 < directPort opts then listen_result w else Inr 0)
          in case listening of
               Inl e \<Rightarrow> (head, Some (Inl (wrap_err ''failed to start direct TCP listener'' e)))
             | Inr port \<Rightarrow>
                 let head2 = head @ (if 0 < directPort opts
                                     then [Stderr (''Direct TCP Port: '' @ Itoa port), rule_line] else [])
                 in if relayURI opts \<noteq> [] then
                      (case relay_start opts serverID w of
                         (evs, Some (Inr uri)) \<Rightarrow> (head2 @ evs @ announce_start opts, Some (Inr (Some uri, port)))
                       | (evs, Some (Inl e)) \<Rightarrow> (head2 @ evs, Some (Inl e))
                       | (evs, None) \<Rightarrow> (head2 @ evs, None))
                    else (head2 @ direct_start opts serverID port @ announce_start opts, Some (Inr (None, port))))"

section \<open>Forwarding mode\<close>

text \<open>Connections are known by numbers; the flag tells whether one came through the relay.\<close>

datatype srv_event =
    DirectAccepted nat | DirectFailed
  | InvitationJoined nat | InvitationFailed gerror | InvitationsClosed
  | RelayStopped "gerror option" | CtxEnded gerror

record forward_state =
  forwarded :: "(nat \<times> bool) list"
  direct_on :: bool
  stopped :: "gerror option"

definition forward_start :: "bool \<Rightarrow> forward_state" where
  "forward_start direct = \<lparr>forwarded = [], direct_on = direct, stopped = None\<rparr>"

fun forward_step :: "bool \<Rightarrow> srv_event \<Rightarrow> forward_state \<Rightarrow> forward_state" where
  "forward_step relay (DirectAccepted n) s =
     (if stopped s = None \<and> direct_on s then s \<lparr>forwarded := forwarded s @ [(n, False)]\<rparr> else s)"
| "forward_step relay DirectFailed s = s \<lparr>direct_on := False\<rparr>"
| "forward_step relay (InvitationJoined n) s =
     (if stopped s = None \<and> relay then s \<lparr>forwarded := forwarded s @ [(n, True)]\<rparr> else s)"
| "forward_step relay (InvitationFailed e) s = s"
| "forward_step relay InvitationsClosed s =
     (if stopped s = None \<and> relay then s \<lparr>stopped := Some (Errorf ''invitations channel closed'')\<rparr> else s)"
| "forward_step relay (RelayStopped e) s =
     (if stopped s = None \<and> relay then
        s \<lparr>stopped := Some (case e of None \<Rightarrow> Errorf ''relay client stopped''
                                  | Some x \<Rightarrow> wrap_err ''relay client stopped'' x)\<rparr>
      else s)"
| "forward_step relay (CtxEnded e) s = (if stopped s = None then s \<lparr>stopped := Some e\<rparr> else s)"

definition forward_loop :: "bool \<Rightarrow> bool \<Rightarrow> srv_event list \<Rightarrow> forward_state" where
  "forward_loop direct relay evs = fold (forward_step relay) evs (forward_start direct)"

section \<open>Netcat mode\<close>

text \<open>The channel with room for one connection, the two goroutines that feed it, and the caller.\<close>

datatype main_phase = Waiting | Handling "nat \<times> bool" | Returned "gerror option"

record netcat =
  chan :: "(nat \<times> bool) option"
  direct_go :: bool
  relay_go :: bool
  next_conn :: nat
  closed_conns :: "nat set"
  main :: main_phase
  served :: "(nat \<times> bool) list"

definition netcat_start :: "bool \<Rightarrow> bool \<Rightarrow> netcat" where
  "netcat_start direct relay =
     \<lparr>chan = None, direct_go = direct, relay_go = relay, next_conn = 0, closed_conns = {}, main = Waiting, served = []\<rparr>"

text \<open>A connection is offered to the channel, and closed when there is no room.\<close>

definition offer_conn :: "bool \<Rightarrow> netcat \<Rightarrow> netcat" where
  "offer_conn isRelay s =
     (let n = next_conn s in
      if chan s = None then s \<lparr>chan := Some (n, isRelay), next_conn := Suc n\<rparr>
      else s \<lparr>closed_conns := insert n (closed_conns s), next_conn := Suc n\<rparr>)"

inductive netcat_step :: "netcat \<Rightarrow> netcat \<Rightarrow> bool" where
  DirectAccept: "direct_go s \<Longrightarrow> netcat_step s ((offer_conn False s) \<lparr>direct_go := False\<rparr>)"
| DirectFail: "direct_go s \<Longrightarrow> netcat_step s (s \<lparr>direct_go := False\<rparr>)"
| RelayJoin: "relay_go s \<Longrightarrow> netcat_step s ((offer_conn True s) \<lparr>relay_go := (chan s \<noteq> None)\<rparr>)"
| RelayStop: "relay_go s \<Longrightarrow> netcat_step s (s \<lparr>relay_go := False\<rparr>)"
| Take: "main s = Waiting \<Longrightarrow> chan s = Some x \<Longrightarrow>
    netcat_step s (s \<lparr>chan := None, main := Handling x, served := served s @ [x]\<rparr>)"
| Done: "main s = Handling x \<Longrightarrow> netcat_step s (s \<lparr>main := Returned None\<rparr>)"
| Ctx: "main s = Waiting \<Longrightarrow> netcat_step s (s \<lparr>main := Returned (Some CtxCanceled)\<rparr>)"

inductive_cases netcat_stepE: "netcat_step s s'"

abbreviation netcat_reach :: "netcat \<Rightarrow> netcat \<Rightarrow> bool" where
  "netcat_reach \<equiv> reachable netcat_step"

section \<open>Handling the connections\<close>

text \<open>Both modes hand a connection to its handler, each connection with the peer behind it; the
  forwarding mode starts a goroutine for each.\<close>

definition forward_handlers :: "server_world \<Rightarrow> server_opts \<Rightarrow> (nat \<Rightarrow> tls_peer) \<Rightarrow> forward_state \<Rightarrow> (nat \<times> effect list) list" where
  "forward_handlers w opts peer s = map (\<lambda>(n, isRelay). (n, handleForwardConn w opts isRelay (peer n))) (forwarded s)"

definition netcat_handlers :: "server_world \<Rightarrow> server_opts \<Rightarrow> (nat \<Rightarrow> tls_peer) \<Rightarrow> netcat \<Rightarrow> (nat \<times> effect list) list" where
  "netcat_handlers w opts peer s = map (\<lambda>(n, isRelay). (n, handleServerConn w opts isRelay (peer n))) (served s)"

section \<open>The service wrapper\<close>

text \<open>\<^verbatim>\<open>runServerWrapper\<close>: interactively the result of \<^verbatim>\<open>runServer\<close>; under a service manager the
  result of the manager's loop, which starts \<^verbatim>\<open>runServer\<close> in a goroutine (\<^verbatim>\<open>Start\<close>, which logs
  an error) and ends with \<^verbatim>\<open>Stop\<close>.  The second component is what is logged.\<close>

definition Start :: "gerror option \<Rightarrow> gerror option \<times> gerror list" where
  "Start server_result = (None, case server_result of None \<Rightarrow> [] | Some e \<Rightarrow> [e])"

text \<open>\<^verbatim>\<open>Stop\<close> cancels the context that \<^verbatim>\<open>Start\<close> made, if there is one; the flag tells whether it is
  cancelled.\<close>

definition Stop :: "bool option \<Rightarrow> gerror option \<times> bool option" where
  "Stop cancel = (None, map_option (\<lambda>_. True) cancel)"

definition runServerWrapper ::
  "gerror option \<Rightarrow> bool \<Rightarrow> gerror option \<Rightarrow> gerror option \<Rightarrow> gerror option \<times> gerror list" where
  "runServerWrapper new_err interactive server_result run_result =
     (case new_err of
        Some e \<Rightarrow> (Some e, [])
      | None \<Rightarrow> if interactive then (server_result, []) else (run_result, snd (Start server_result)))"

record service_calls =
  svc_new :: "gerror option"
  svc_install :: "gerror option"
  svc_start :: "gerror option"

definition runInstallService :: "service_calls \<Rightarrow> string list \<Rightarrow> gerror + string list" where
  "runInstallService c args =
     (case svc_new c of Some e \<Rightarrow> Inl (wrap_err ''failed to create service configuration'' e) | None \<Rightarrow>
      case svc_install c of Some e \<Rightarrow> Inl (wrap_err ''failed to install service (did you run as root/Admin?)'' e) | None \<Rightarrow>
      case svc_start c of Some e \<Rightarrow> Inl (wrap_err ''failed to start service'' e) | None \<Rightarrow>
      Inr (''server'' # args))"

section \<open>The forwarding loop\<close>

fun ends_forwarding :: "bool \<Rightarrow> srv_event \<Rightarrow> bool" where
  "ends_forwarding relay InvitationsClosed = relay"
| "ends_forwarding relay (RelayStopped _) = relay"
| "ends_forwarding relay (CtxEnded _) = True"
| "ends_forwarding relay _ = False"

text \<open>What the forwarding mode promises: every connection of an open source, in order.\<close>

fun incoming :: "bool \<Rightarrow> bool \<Rightarrow> srv_event list \<Rightarrow> (nat \<times> bool) list" where
  "incoming direct relay [] = []"
| "incoming direct relay (DirectAccepted n # evs) =
     (if direct then (n, False) # incoming direct relay evs else incoming direct relay evs)"
| "incoming direct relay (DirectFailed # evs) = incoming False relay evs"
| "incoming direct relay (InvitationJoined n # evs) =
     (if relay then (n, True) # incoming direct relay evs else incoming direct relay evs)"
| "incoming direct relay (ev # evs) = incoming direct relay evs"

lemma stopped_stays: "stopped s \<noteq> None \<Longrightarrow> stopped (forward_step relay ev s) = stopped s \<and> forwarded (forward_step relay ev s) = forwarded s"
  by (cases ev) auto

lemma stopped_fold:
  "stopped s \<noteq> None \<Longrightarrow> stopped (fold (forward_step relay) evs s) = stopped s \<and> forwarded (fold (forward_step relay) evs s) = forwarded s"
proof (induction evs arbitrary: s)
  case (Cons ev evs)
  then show ?case using stopped_stays [OF Cons.prems, of relay ev] by simp
qed simp

lemma forward_step_on:
  "stopped s = None \<Longrightarrow> \<not> ends_forwarding relay ev \<Longrightarrow>
   stopped (forward_step relay ev s) = None
   \<and> forwarded s @ incoming (direct_on s) relay (ev # evs) =
       forwarded (forward_step relay ev s) @ incoming (direct_on (forward_step relay ev s)) relay evs"
  by (cases ev) auto

lemma forward_step_end:
  "stopped s = None \<Longrightarrow> ends_forwarding relay ev \<Longrightarrow>
   stopped (forward_step relay ev s) \<noteq> None \<and> forwarded (forward_step relay ev s) = forwarded s"
  by (cases ev) (auto split: option.split)

lemma forward_fold:
  "stopped s = None \<Longrightarrow>
   forwarded (fold (forward_step relay) evs s) =
     forwarded s @ incoming (direct_on s) relay (takeWhile (\<lambda>ev. \<not> ends_forwarding relay ev) evs)
   \<and> (stopped (fold (forward_step relay) evs s) = None \<longleftrightarrow> \<not> list_ex (ends_forwarding relay) evs)"
proof (induction evs arbitrary: s)
  case (Cons ev evs)
  show ?case
  proof (cases "ends_forwarding relay ev")
    case True
    with forward_step_end [OF Cons.prems True] stopped_fold [of "forward_step relay ev s" relay evs]
    show ?thesis by auto
  next
    case False
    note step = forward_step_on [OF Cons.prems False]
    from Cons.IH [of "forward_step relay ev s"] step [of "takeWhile (\<lambda>ev. \<not> ends_forwarding relay ev) evs"] False
    show ?thesis by simp
  qed
qed simp

lemma forward_loop_incoming:
  "forwarded (forward_loop direct relay evs) =
     incoming direct relay (takeWhile (\<lambda>ev. \<not> ends_forwarding relay ev) evs)
   \<and> (stopped (forward_loop direct relay evs) \<noteq> None \<longleftrightarrow> list_ex (ends_forwarding relay) evs)"
  using forward_fold [of "forward_start direct" relay evs] by (simp add: forward_loop_def forward_start_def)

text \<open>C25: the forwarding mode hands every connection to its own handler, in the order of arrival,
  until the context ends or the relay client stops; an invitation that cannot be joined and a
  failing direct listener do not end it, and it ends with an error when one of the former
  happens, never silently.\<close>

theorem forward_mode_serves_all:
  "forwarded (forward_loop direct relay evs) =
     incoming direct relay (takeWhile (\<lambda>ev. \<not> ends_forwarding relay ev) evs)
   \<and> (stopped (forward_loop direct relay evs) \<noteq> None \<longleftrightarrow> list_ex (ends_forwarding relay) evs)"
  by (rule forward_loop_incoming)

section \<open>The netcat mode\<close>

text \<open>Every connection that was accepted is in exactly one place: served, waiting in the channel, or
  closed; the caller has served one connection exactly when it is past waiting.\<close>

fun phase_served :: "main_phase \<Rightarrow> (nat \<times> bool) list \<Rightarrow> bool" where
  "phase_served Waiting xs \<longleftrightarrow> xs = []"
| "phase_served (Handling x) xs \<longleftrightarrow> xs = [x]"
| "phase_served (Returned None) xs \<longleftrightarrow> length xs = 1"
| "phase_served (Returned (Some e)) xs \<longleftrightarrow> xs = []"

definition netcat_inv :: "netcat \<Rightarrow> bool" where
  "netcat_inv s \<longleftrightarrow>
     {n. n < next_conn s} = fst ` set (served s) \<union> fst ` set_option (chan s) \<union> closed_conns s
     \<and> fst ` set (served s) \<inter> fst ` set_option (chan s) = {}
     \<and> (fst ` set (served s) \<union> fst ` set_option (chan s)) \<inter> closed_conns s = {}
     \<and> phase_served (main s) (served s)"

lemma netcat_inv_start: "netcat_inv (netcat_start direct relay)"
  by (simp add: netcat_inv_def netcat_start_def)

lemma netcat_inv_goroutines [simp]:
  "netcat_inv (s \<lparr>direct_go := b\<rparr>) = netcat_inv s" "netcat_inv (s \<lparr>relay_go := b\<rparr>) = netcat_inv s"
  by (simp_all add: netcat_inv_def)

lemma netcat_inv_offer: "netcat_inv s \<Longrightarrow> netcat_inv (offer_conn r s)"
proof -
  assume i: "netcat_inv s"
  then have "\<not> next_conn s \<in> fst ` set (served s) \<union> fst ` set_option (chan s) \<union> closed_conns s"
    unfolding netcat_inv_def by (metis less_irrefl mem_Collect_eq)
  moreover have "{n. n < Suc (next_conn s)} = insert (next_conn s) {n. n < next_conn s}" by auto
  ultimately show ?thesis using i by (cases "chan s") (auto simp: netcat_inv_def offer_conn_def Let_def)
qed

lemma netcat_inv_step:
  assumes "netcat_step s s'" and "netcat_inv s"
  shows "netcat_inv s'"
  using assms
proof cases
  case (Take x)
  then show ?thesis using assms(2) by (auto simp: netcat_inv_def)
next
  case (Done x)
  then show ?thesis using assms(2) by (auto simp: netcat_inv_def)
next
  case Ctx
  then show ?thesis using assms(2) by (auto simp: netcat_inv_def)
qed (simp_all add: netcat_inv_offer)

lemma phase_cases: "(m = Waiting \<Longrightarrow> P) \<Longrightarrow> (\<And>x. m = Handling x \<Longrightarrow> P) \<Longrightarrow> (m = Returned None \<Longrightarrow> P)
    \<Longrightarrow> (\<And>e. m = Returned (Some e) \<Longrightarrow> P) \<Longrightarrow> P"
  by (cases m; cases "case m of Returned e \<Rightarrow> e | _ \<Rightarrow> None") auto

interpretation one_shot: step_invariant netcat_step "netcat_start direct relay" netcat_inv for direct relay
  by unfold_locales (fact netcat_inv_start, fact netcat_inv_step)

text \<open>Seen from outside, the mode chooses one connection, or gives up.\<close>

definition netcat_choice :: "netcat \<Rightarrow> (nat \<times> bool) choice" where
  "netcat_choice s =
     (case main s of
        Waiting \<Rightarrow> Undecided
      | Handling x \<Rightarrow> Chosen x
      | Returned None \<Rightarrow> Chosen (hd (served s))
      | Returned (Some e) \<Rightarrow> GaveUp)"

lemma netcat_choice_same: "main s' = main s \<Longrightarrow> served s' = served s \<Longrightarrow> netcat_choice s' = netcat_choice s"
  unfolding netcat_choice_def by presburger

lemma offer_conn_same: "main (offer_conn r s) = main s" "served (offer_conn r s) = served s"
  by (simp_all add: offer_conn_def Let_def)

interpretation netcat_choosing: simulation netcat_step "netcat_start direct relay" netcat_inv netcat_choice settle
  for direct relay
proof
  fix s s'
  assume "netcat_step s s'" "netcat_inv s"
  then show "netcat_choice s' = netcat_choice s \<or> settle (netcat_choice s) (netcat_choice s')"
  proof cases
    case (Take x)
    then show ?thesis by (auto simp: netcat_choice_def intro: settle.intros)
  next
    case (Done x)
    then show ?thesis using \<open>netcat_inv s\<close> by (auto simp: netcat_choice_def netcat_inv_def)
  next
    case Ctx
    then show ?thesis by (auto simp: netcat_choice_def intro: settle.intros)
  qed (intro disjI1 netcat_choice_same; simp add: offer_conn_same)+
qed

lemma one_served:
  assumes "netcat_reach (netcat_start direct relay) s"
  shows "length (served s) \<le> 1 \<and> (main s = Returned None \<longrightarrow> length (served s) = 1)
    \<and> fst ` set (served s) \<inter> closed_conns s = {}"
  using one_shot.inv_reachable [OF assms] by (cases "main s" rule: phase_cases) (auto simp: netcat_inv_def)

text \<open>the netcat mode serves at most one connection, and exactly one when it returns without an
  error; no accepted connection is both served and closed.\<close>

theorem netcat_serves_at_most_one:
  assumes "netcat_reach (netcat_start direct relay) s"
  shows "length (served s) \<le> 1 \<and> (main s = Returned None \<longrightarrow> length (served s) = 1)
    \<and> fst ` set (served s) \<inter> closed_conns s = {}"
  by (rule one_served [OF assms])

text \<open>C19: the netcat mode refines a single choice: from every reachable state, whatever the goroutines
  do, the choice made so far is kept, and the connections that are served are exactly the
  chosen one.\<close>

theorem netcat_refines_choice:
  assumes "netcat_reach (netcat_start direct relay) s" and "netcat_reach s s'"
  shows "reachable settle (netcat_choice s) (netcat_choice s')
    \<and> (netcat_choice s \<noteq> Undecided \<longrightarrow> netcat_choice s' = netcat_choice s)
    \<and> served s' = (case netcat_choice s' of Chosen x \<Rightarrow> [x] | _ \<Rightarrow> [])"
proof -
  have inv: "netcat_inv s" by (rule one_shot.inv_reachable [OF assms(1)])
  have r: "reachable settle (netcat_choice s) (netcat_choice s')"
    by (rule netcat_choosing.abs_reachable [OF assms(2) inv])
  have "phase_served (main s') (served s')" using one_shot.inv_from [OF assms(2) inv] by (simp add: netcat_inv_def)
  then have "served s' = (case netcat_choice s' of Chosen x \<Rightarrow> [x] | _ \<Rightarrow> [])"
    by (cases "main s'" rule: phase_cases) (auto simp: netcat_choice_def length_Suc_conv)
  then show ?thesis using r choice_stays [OF r] by simp
qed

text \<open>a second connection that arrives while the first is being served is lost: it waits in
  the channel, where nobody will take it out, and it is never served nor closed.\<close>

theorem netcat_second_connection_is_stranded:
  assumes "netcat_reach (netcat_start direct relay) s" and "chan s = Some x" and "main s \<noteq> Waiting"
    and "netcat_reach s s'"
  shows "chan s' = Some x \<and> x \<notin> set (served s') \<and> fst x \<notin> closed_conns s'"
proof -
  have "chan s' = Some x \<and> main s' \<noteq> Waiting \<and> netcat_inv s'"
    using assms(4)
  proof induction
    case Start
    show ?case using assms(2,3) one_shot.inv_reachable [OF assms(1)] by simp
  next
    case (Step t t')
    from Step.hyps(2) Step.IH have "chan t' = Some x \<and> main t' \<noteq> Waiting"
      by cases (auto simp: offer_conn_def Let_def)
    then show ?case using netcat_inv_step [OF Step.hyps(2)] Step.IH by simp
  qed
  then show ?thesis unfolding netcat_inv_def by auto
qed

text \<open>without a direct port, a relay client that stops before any client came leaves the netcat
  mode waiting for nothing: no connection can ever be served, and the mode stays as it is
  until its context ends.\<close>

theorem netcat_waits_for_dead_relay:
  assumes "netcat_reach ((netcat_start False True) \<lparr>relay_go := False\<rparr>) s"
  shows "s \<in> {(netcat_start False False), (netcat_start False False) \<lparr>main := Returned (Some CtxCanceled)\<rparr>}"
  using assms
proof induction
  case Start
  then show ?case by (simp add: netcat_start_def)
next
  case (Step s s')
  from Step.hyps(2) Step.IH show ?case by cases (auto simp: netcat_start_def)
qed

text \<open>under a service manager the failure of the server is only logged: the wrapper returns
  what the manager's own loop returns, whatever became of the server.\<close>

theorem service_hides_failure:
  "fst (runServerWrapper None False server_result run_result) = run_result
   \<and> fst (runServerWrapper None True server_result run_result) = server_result"
  by (simp add: runServerWrapper_def)

text \<open>the command that the server prints for its clients names the relay with the single-dash
  option \<^verbatim>\<open>-relay\<close>, which the flag parser of the client reads as a group of short options.\<close>

theorem printed_command_uses_short_option:
  assumes "relay_start opts serverID w = (evs, Some (Inr uri))"
  shows "Stderr (''  ./syncthing-socket client'' @ extraFlags (ro_server opts) @ '' -relay '' @ quote uri @ '' '' @ serverID)
    \<in> set evs"
  using assms by (auto simp: relay_start_def split: option.splits sum.splits)

definition ready :: "start_event \<Rightarrow> bool" where
  "ready ev = (case ev of Announce _ _ \<Rightarrow> True | Notify s \<Rightarrow> HasPrefix s ''READY=1'' | Stderr _ \<Rightarrow> False)"

text \<open>the server is announced, and reports that it is ready, only once it can be reached:
  when the start fails, or while it waits for the relay, neither has happened.\<close>

theorem not_ready_before_connected:
  assumes "runServer_start opts serverID w = (evs, r)" and "ev \<in> set evs" and "ready ev"
  shows "\<exists>uri port. r = Some (Inr (uri, port)) \<and> (uri = None \<longleftrightarrow> relayURI opts = [])"
  using assms
  by (auto simp: runServer_start_def relay_start_def ready_def rule_line_def HasPrefix_def Let_def
      split: option.splits sum.splits prod.splits if_splits)

section \<open>Concrete instances\<close>

lemma netcat_stepI: "netcat_step s s'' \<Longrightarrow> s'' = s' \<Longrightarrow> netcat_step s s'"
  by simp

text \<open>A relayed client is being served when a direct one connects.\<close>

definition sample_serving :: netcat where
  "sample_serving = \<lparr>chan = None, direct_go = True, relay_go = False, next_conn = 1, closed_conns = {},
     main = Handling (0, True), served = [(0, True)]\<rparr>"

definition sample_stranded :: netcat where
  "sample_stranded = sample_serving \<lparr>chan := Some (1, False), direct_go := False, next_conn := 2\<rparr>"

lemma sample_stranded_reach: "netcat_reach (netcat_start True True) sample_stranded"
proof -
  let ?s = "\<lparr>chan = Some (0, True), direct_go = True, relay_go = False, next_conn = 1, closed_conns = {},
     main = Waiting, served = []\<rparr>"
  have "netcat_step (netcat_start True True) ?s"
    by (rule netcat_stepI [OF netcat_step.RelayJoin]) (simp_all add: netcat_start_def offer_conn_def)
  moreover have "netcat_step ?s sample_serving"
    by (rule netcat_stepI [OF netcat_step.Take]) (simp_all add: sample_serving_def)
  moreover have "netcat_step sample_serving sample_stranded"
    by (rule netcat_stepI [OF netcat_step.DirectAccept])
       (simp_all add: sample_serving_def sample_stranded_def offer_conn_def)
  ultimately show ?thesis by (meson reachable.intros)
qed

theorem netcat_serves_at_most_one_witness: "length (served sample_stranded) \<le> 1"
  using netcat_serves_at_most_one [OF sample_stranded_reach] by simp

theorem netcat_refines_choice_witness:
  "netcat_choice sample_stranded = Chosen (0, True) \<and> served sample_stranded = [(0, True)]"
  using netcat_refines_choice [OF sample_stranded_reach reachable.Start]
  by (simp add: netcat_choice_def sample_stranded_def sample_serving_def)

theorem netcat_second_connection_is_stranded_witness:
  "chan (sample_stranded \<lparr>main := Returned None\<rparr>) = Some (1, False)
   \<and> (1, False) \<notin> set (served (sample_stranded \<lparr>main := Returned None\<rparr>))
   \<and> fst (1 :: nat, False) \<notin> closed_conns (sample_stranded \<lparr>main := Returned None\<rparr>)"
proof -
  have "netcat_step sample_stranded (sample_stranded \<lparr>main := Returned None\<rparr>)"
    by (rule netcat_step.Done [of _ "(0, True)"]) (simp add: sample_stranded_def sample_serving_def)
  then have "netcat_reach sample_stranded (sample_stranded \<lparr>main := Returned None\<rparr>)"
    by (meson reachable.intros)
  then show ?thesis
    by (intro netcat_second_connection_is_stranded [OF sample_stranded_reach])
       (simp_all add: sample_stranded_def sample_serving_def)
qed

theorem netcat_waits_for_dead_relay_witness:
  "(netcat_start False True) \<lparr>relay_go := False, main := Returned (Some CtxCanceled)\<rparr>
   \<in> {(netcat_start False False), (netcat_start False False) \<lparr>main := Returned (Some CtxCanceled)\<rparr>}"
proof (rule netcat_waits_for_dead_relay)
  let ?s = "(netcat_start False True) \<lparr>relay_go := False\<rparr>"
  have "netcat_step ?s (?s \<lparr>main := Returned (Some CtxCanceled)\<rparr>)"
    by (rule netcat_step.Ctx) (simp add: netcat_start_def)
  then show "netcat_reach ?s (?s \<lparr>main := Returned (Some CtxCanceled)\<rparr>)"
    by (rule reachable.Step [OF reachable.Start])
qed

definition sample_start :: start_world where
  "sample_start = \<lparr>parse_err = None, listen_result = Inr 0, new_client = None,
     polls = [PollWaiting, PollConnected ''relay://r:443'']\<rparr>"

definition sample_run :: run_opts where
  "sample_run = \<lparr>ro_server = sample_opts, relayURI = ''dynamic+https://relays'', discoveryServers = [''https://d''],
     directPort = 0, announceInterval = 0\<rparr>"

theorem printed_command_uses_short_option_witness:
  "Stderr (''  ./syncthing-socket client'' @ extraFlags sample_opts @ '' -relay '' @ quote ''relay://r:443'' @ '' '' @ ''ID'')
    \<in> set (fst (relay_start sample_run ''ID'' sample_start))"
proof -
  have "relay_start sample_run ''ID'' sample_start =
      (fst (relay_start sample_run ''ID'' sample_start), Some (Inr ''relay://r:443''))"
    by (simp add: relay_start_def sample_start_def)
  from printed_command_uses_short_option [OF this] show ?thesis by (simp add: sample_run_def)
qed

theorem not_ready_before_connected_witness:
  "\<exists>uri port. snd (runServer_start sample_run ''ID'' sample_start) = Some (Inr (uri, port))
     \<and> (uri = None \<longleftrightarrow> relayURI sample_run = [])"
proof (rule not_ready_before_connected)
  let ?r = "runServer_start sample_run ''ID'' sample_start"
  show "?r = (fst ?r, snd ?r)" by simp
  show "Announce [''https://d''] (30 * 60 * 10 ^ 9) \<in> set (fst ?r)"
    by (simp add: runServer_start_def relay_start_def announce_start_def sample_start_def sample_run_def)
  show "ready (Announce [''https://d''] (30 * 60 * 10 ^ 9))" by (simp add: ready_def)
qed

end
