(* ===== verification/Luks_Config.thy ===== *)
theory Luks_Config
  imports Net_Util Otp
begin

text \<open>
  What the LUKS unlock agent reads (\<^verbatim>\<open>luks_agent.go\<close>): systemd's password requests, the
  unlock configuration from \<^verbatim>\<open>luks.conf\<close> or from a token in a LUKS2 header, the output of
  \<^verbatim>\<open>cryptsetup luksDump\<close>, the list of block devices, and the resolver configuration.  The
  file system and the commands that are run are parameters.
\<close>

section \<open>Password requests\<close>

record askRequest =
  ask_path :: string
  ask_socket :: string
  ask_id :: string
  ask_message :: string
  notAfter :: "64 word"

definition cryptsetupIDPrefix :: string where
  "cryptsetupIDPrefix = ''cryptsetup''"

fun ask_lines :: "string list \<Rightarrow> askRequest \<Rightarrow> gerror + askRequest" where
  "ask_lines [] req = Inr req"
| "ask_lines (l # ls) req =
     (let line = TrimSpace l
      in if line = [] \<or> HasPrefix line ''#'' \<or> HasPrefix line ''['' then ask_lines ls req
         else
           let (key, v, found) = Cut line ''=''
           in if \<not> found then ask_lines ls req
              else if TrimSpace key = ''Socket'' then ask_lines ls (req \<lparr>ask_socket := TrimSpace v\<rparr>)
              else if TrimSpace key = ''Id'' then ask_lines ls (req \<lparr>ask_id := TrimSpace v\<rparr>)
              else if TrimSpace key = ''Message'' then ask_lines ls (req \<lparr>ask_message := TrimSpace v\<rparr>)
              else if TrimSpace key = ''NotAfter'' then
                (case ParseUint64 (TrimSpace v) of
                   None \<Rightarrow> Inl (Errorf (''unparseable NotAfter '' @ quote v))
                 | Some n \<Rightarrow> ask_lines ls (req \<lparr>notAfter := of_nat n\<rparr>))
              else ask_lines ls req)"

text \<open>The input is a text and the error with which reading it ends.\<close>

definition parseAskFile :: "string \<Rightarrow> gerror option \<Rightarrow> gerror + askRequest" where
  "parseAskFile input rerr =
     (let (lines, err) = scan_lines input rerr
      in case ask_lines lines \<lparr>ask_path = [], ask_socket = [], ask_id = [], ask_message = [], notAfter = 0\<rparr> of
           Inl e \<Rightarrow> Inl e
         | Inr req \<Rightarrow>
             (case err of
                Some e \<Rightarrow> Inl e
              | None \<Rightarrow> if ask_socket req = [] then Inl (Errorf ''no Socket= in the request'') else Inr req))"

definition expired :: "askRequest \<Rightarrow> 64 word \<Rightarrow> bool" where
  "expired a nowUsec \<longleftrightarrow> notAfter a \<noteq> 0 \<and> notAfter a \<le> nowUsec"

definition wantsCryptsetup :: "askRequest \<Rightarrow> bool" where
  "wantsCryptsetup a \<longleftrightarrow> HasPrefix (ask_id a) cryptsetupIDPrefix"

section \<open>The unlock configuration\<close>

record luksConfig =
  lc_Device :: string
  lc_Seed :: string
  lc_KeyHolderDeviceID :: string
  lc_Role :: string

record luksToken =
  tok_Type :: string
  tok_Version :: int
  tok_Seed :: string
  tok_KeyHolderDeviceID :: string
  tok_Role :: string

definition luksTokenType :: string where
  "luksTokenType = ''syncthing-socket''"

definition luksTokenVersion :: int where
  "luksTokenVersion = 1"

definition token_fields :: "luksToken field list" where
  "token_fields =
     [(''type'', str_field (\<lambda>s r. r \<lparr>tok_Type := s\<rparr>)),
      (''version'', int_field (\<lambda>i r. r \<lparr>tok_Version := i\<rparr>)),
      (''p2p_key_seed'', str_field (\<lambda>s r. r \<lparr>tok_Seed := s\<rparr>)),
      (''key_holder_device_id'', str_field (\<lambda>s r. r \<lparr>tok_KeyHolderDeviceID := s\<rparr>)),
      (''unlock_role'', str_field (\<lambda>s r. r \<lparr>tok_Role := s\<rparr>))]"

text \<open>No configuration for a token that belongs to somebody else.\<close>

definition parseLUKSToken :: "string \<Rightarrow> gerror + luksConfig option" where
  "parseLUKSToken raw =
     (case unmarshal_struct token_fields
             \<lparr>tok_Type = [], tok_Version = 0, tok_Seed = [], tok_KeyHolderDeviceID = [], tok_Role = []\<rparr> raw of
        Inl e \<Rightarrow> Inl e
      | Inr tok \<Rightarrow>
          if tok_Type tok \<noteq> luksTokenType then Inr None
          else if tok_Version tok \<noteq> luksTokenVersion then
            (if tok_Version tok = 0 then
               Inl (Errorf (''this '' @ luksTokenType @ '' token carries no version; re-run syncthing-luks-bind to write one''))
             else
               Inl (Errorf (''this '' @ luksTokenType @ '' token is version '' @ Itoa (tok_Version tok) @
                            '' and this build understands version '' @ Itoa luksTokenVersion)))
          else if tok_Seed tok = [] then
            Inl (Errorf (''the '' @ luksTokenType @ '' token carries no p2p_key_seed''))
          else
            let role = (if tok_Role tok = [] then ''client'' else tok_Role tok)
            in if role \<noteq> ''client'' \<and> role \<noteq> ''server'' then Inl (Errorf (''unknown unlock_role '' @ quote role))
               else Inr (Some \<lparr>lc_Device = [], lc_Seed = tok_Seed tok,
                               lc_KeyHolderDeviceID = tok_KeyHolderDeviceID tok, lc_Role = role\<rparr>))"

fun conf_lines :: "string list \<Rightarrow> luksConfig \<Rightarrow> luksConfig" where
  "conf_lines [] cfg = cfg"
| "conf_lines (l # ls) cfg =
     (let line = TrimSpace l
      in if line = [] \<or> HasPrefix line ''#'' then conf_lines ls cfg
         else
           let (key, v, found) = Cut line ''='';
               val = Trim (TrimSpace v) [CHR 0x22, CHR 0x27]
           in if \<not> found then conf_lines ls cfg
              else if TrimSpace key = ''P2P_KEY_SEED'' then conf_lines ls (cfg \<lparr>lc_Seed := val\<rparr>)
              else if TrimSpace key = ''KEY_HOLDER_DEVICE_ID'' then conf_lines ls (cfg \<lparr>lc_KeyHolderDeviceID := val\<rparr>)
              else if TrimSpace key = ''UNLOCK_ROLE'' then
                conf_lines ls (if val \<noteq> [] then cfg \<lparr>lc_Role := val\<rparr> else cfg)
              else conf_lines ls cfg)"

definition parseLuksConf :: "string \<Rightarrow> gerror option \<Rightarrow> gerror + luksConfig option" where
  "parseLuksConf input rerr =
     (let (lines, err) = scan_lines input rerr;
          cfg = conf_lines lines \<lparr>lc_Device = [], lc_Seed = [], lc_KeyHolderDeviceID = [], lc_Role = ''client''\<rparr>
      in case err of
           Some e \<Rightarrow> Inl e
         | None \<Rightarrow>
             if lc_Seed cfg = [] then Inr None
             else if lc_Role cfg \<noteq> ''client'' \<and> lc_Role cfg \<noteq> ''server'' then
               Inl (Errorf (''unknown UNLOCK_ROLE '' @ quote (lc_Role cfg)))
             else Inr (Some cfg))"

section \<open>Looking for a token\<close>

fun dump_lines :: "string \<Rightarrow> bool \<Rightarrow> string list \<Rightarrow> int list" where
  "dump_lines tokenType inTokens [] = []"
| "dump_lines tokenType inTokens (line # ls) =
     (if \<not> HasPrefix line '' '' \<and> \<not> HasPrefix line [CHR 0x09] then
        dump_lines tokenType (HasPrefix line ''Tokens:'') ls
      else if \<not> inTokens then dump_lines tokenType inTokens ls
      else
        let (idPart, typePart, found) = Cut (TrimSpace line) '':''
        in if \<not> found then dump_lines tokenType inTokens ls
           else if TrimSpace typePart \<noteq> tokenType then dump_lines tokenType inTokens ls
           else (case Atoi (TrimSpace idPart) of
                   None \<Rightarrow> dump_lines tokenType inTokens ls
                 | Some i \<Rightarrow> i # dump_lines tokenType inTokens ls))"

definition tokenIDsFromDump :: "string \<Rightarrow> string \<Rightarrow> int list" where
  "tokenIDsFromDump dump tokenType = dump_lines tokenType False (Split dump (CHR 0x0A))"

definition device_name_ok :: "string \<Rightarrow> bool" where
  "device_name_ok name \<longleftrightarrow>
     \<not> (HasPrefix name ''ram'' \<or> HasPrefix name ''loop'' \<or> HasPrefix name ''zram'' \<or> HasPrefix name ''sr'')"

definition blockDevices :: "string \<Rightarrow> gerror option \<Rightarrow> string list" where
  "blockDevices procPartitions rerr =
     List.map_filter
       (\<lambda>l. let fields = Fields l
            in if length fields \<noteq> 4 \<or> fields ! 0 = ''major'' then None
               else if device_name_ok (fields ! 3) then Some (''/dev/'' @ fields ! 3) else None)
       (fst (scan_lines procPartitions rerr))"

type_synonym runner = "string list \<Rightarrow> gerror + string"

fun scan_tokens :: "runner \<Rightarrow> string \<Rightarrow> int list \<Rightarrow> luksConfig option" where
  "scan_tokens run device [] = None"
| "scan_tokens run device (i # is) =
     (case run [''cryptsetup'', ''token'', ''export'', ''--token-id'', Itoa i, device] of
        Inl e \<Rightarrow> scan_tokens run device is
      | Inr raw \<Rightarrow>
          (case parseLUKSToken raw of
             Inl e \<Rightarrow> scan_tokens run device is
           | Inr None \<Rightarrow> scan_tokens run device is
           | Inr (Some cfg) \<Rightarrow> Some (cfg \<lparr>lc_Device := device\<rparr>)))"

fun scanDevicesForConfig :: "runner \<Rightarrow> string list \<Rightarrow> luksConfig option" where
  "scanDevicesForConfig run [] = None"
| "scanDevicesForConfig run (device # ds) =
     (case run [''cryptsetup'', ''luksDump'', device] of
        Inl e \<Rightarrow> scanDevicesForConfig run ds
      | Inr dump \<Rightarrow>
          (case scan_tokens run device (tokenIDsFromDump dump luksTokenType) of
             Some cfg \<Rightarrow> Some cfg
           | None \<Rightarrow> scanDevicesForConfig run ds))"

text \<open>Files: \<open>None\<close> when a file cannot be opened, else its text and the error that ends reading.\<close>

type_synonym files = "string \<Rightarrow> (string \<times> gerror option) option"

definition luksConfPath :: string where
  "luksConfPath = ''/etc/syncthing-socket/luks.conf''"

definition findLUKSConfig :: "files \<Rightarrow> gerror \<Rightarrow> runner \<Rightarrow> gerror + luksConfig option" where
  "findLUKSConfig fs open_err run =
     (let from_header =
            (case fs ''/proc/partitions'' of
               None \<Rightarrow> Inl (wrap_err ''cannot enumerate block devices'' open_err)
             | Some (input, rerr) \<Rightarrow> Inr (scanDevicesForConfig run (blockDevices input rerr)))
      in case fs luksConfPath of
           None \<Rightarrow> from_header
         | Some (input, rerr) \<Rightarrow>
             (case parseLuksConf input rerr of
                Inl e \<Rightarrow> Inl e
              | Inr (Some cfg) \<Rightarrow> Inr (Some cfg)
              | Inr None \<Rightarrow> from_header))"

section \<open>The resolver\<close>

definition resolvConf :: string where
  "resolvConf = ''/etc/resolv.conf''"

definition resolverSources :: "string list" where
  "resolverSources = [''/run/systemd/resolve/resolv.conf'', ''/run/NetworkManager/resolv.conf'', ''/tmp/net.*.resolv.conf'']"

definition networkdStateFiles :: "string list" where
  "networkdStateFiles = [''/run/systemd/netif/state'', ''/run/systemd/netif/leases/*'']"

definition dnsFromNetworkdState :: "string \<Rightarrow> gerror option \<Rightarrow> string list" where
  "dnsFromNetworkdState input rerr =
     concat (map (\<lambda>l. case CutPrefix (TrimSpace l) ''DNS='' of (v, found) \<Rightarrow> if found then Fields v else [])
       (fst (scan_lines input rerr)))"

definition globAll :: "(string \<Rightarrow> string list) \<Rightarrow> string \<Rightarrow> string list" where
  "globAll glob pattern = (if \<not> ContainsAny pattern ''*?['' then [pattern] else glob pattern)"

text \<open>What \<^verbatim>\<open>ensureResolver\<close> writes, if anything: the argument \<open>writable\<close> tells which contents can be
  written.  A file that cannot be read to its end counts as unreadable for the verbatim copy.\<close>

definition copied_resolver :: "files \<Rightarrow> (string \<Rightarrow> bool) \<Rightarrow> string \<Rightarrow> string option" where
  "copied_resolver fs writable candidate =
     (case fs candidate of
        Some (content, None) \<Rightarrow> if content \<noteq> [] \<and> writable content then Some content else None
      | _ \<Rightarrow> None)"

definition resolver_text :: "string list \<Rightarrow> string" where
  "resolver_text servers = concat (map (\<lambda>s. ''nameserver '' @ s @ [CHR 0x0A]) servers)"

definition built_resolver :: "files \<Rightarrow> (string \<Rightarrow> bool) \<Rightarrow> string \<Rightarrow> string option" where
  "built_resolver fs writable candidate =
     (case fs candidate of
        None \<Rightarrow> None
      | Some (input, rerr) \<Rightarrow>
          let servers = dnsFromNetworkdState input rerr
          in if servers = [] then None
             else if writable (resolver_text servers) then Some (resolver_text servers) else None)"

fun first_some :: "('a \<Rightarrow> 'b option) \<Rightarrow> 'a list \<Rightarrow> 'b option" where
  "first_some f [] = None"
| "first_some f (x # xs) = (case f x of None \<Rightarrow> first_some f xs | Some y \<Rightarrow> Some y)"

definition ensureResolver :: "files \<Rightarrow> (string \<Rightarrow> string list) \<Rightarrow> (string \<Rightarrow> bool) \<Rightarrow> string option" where
  "ensureResolver fs glob writable =
     (if (case fs resolvConf of Some (content, _) \<Rightarrow> content \<noteq> [] | None \<Rightarrow> False) then None
      else case first_some (copied_resolver fs writable) (concat (map (globAll glob) resolverSources)) of
             Some c \<Rightarrow> Some c
           | None \<Rightarrow> first_some (built_resolver fs writable) (concat (map (globAll glob) networkdStateFiles)))"

text \<open>\<^verbatim>\<open>lastLine\<close>: the last line that is not empty.\<close>

definition lastLine :: "string \<Rightarrow> string" where
  "lastLine s = (case find (\<lambda>l. TrimSpace l \<noteq> []) (rev (Split (TrimSpace s) (CHR 0x0A))) of
                   None \<Rightarrow> [] | Some l \<Rightarrow> TrimSpace l)"

section \<open>Requests that systemd writes\<close>

text \<open>The text of a request file.\<close>

definition ask_file :: "string \<Rightarrow> string \<Rightarrow> string \<Rightarrow> nat \<Rightarrow> string" where
  "ask_file sock i msg n =
     unlines [''[Ask]'', ''Message='' @ msg, ''Id='' @ i, ''Socket='' @ sock, ''NotAfter='' @ show_nat n]"

definition value_ok :: "string \<Rightarrow> bool" where
  "value_ok v \<longleftrightarrow> tight v \<and> v \<noteq> [] \<and> CHR 0x0A \<notin> set v \<and> length v < 60000"

lemma value_line:
  assumes "value_ok v" and "tight k" and "k \<noteq> []" and "CHR 0x0A \<notin> set k" and "length k < 100"
  shows "line_ok (k @ CHR ''='' # v)" and "TrimSpace (k @ CHR ''='' # v) = k @ CHR ''='' # v"
proof -
  have "last v \<noteq> CHR 0x0D" using assms(1) by (auto simp: value_ok_def tight_def ascii_space_def)
  then show "line_ok (k @ CHR ''='' # v)"
    using assms by (simp add: line_ok_def value_ok_def MaxScanTokenSize_def)
  show "TrimSpace (k @ CHR ''='' # v) = k @ CHR ''='' # v"
    using assms by (intro TrimSpace_tight) (auto simp: tight_def value_ok_def hd_append)
qed

lemma value_ok_show_nat: "n < 2 ^ 64 \<Longrightarrow> value_ok (show_nat n)"
proof -
  assume n: "n < 2 ^ 64"
  have d: "c \<in> set (show_nat n) \<Longrightarrow> 48 \<le> (of_char c :: nat) \<and> (of_char c :: nat) \<le> 57" for c
    using set_show_nat [of c n] by (auto simp: digit_char_def)
  then have "CHR 0x0A \<notin> set (show_nat n)" by fastforce
  moreover have "tight (show_nat n)"
    using d [of "hd (show_nat n)"] d [of "last (show_nat n)"] by (fastforce simp: tight_def ascii_space_def)
  moreover have "length (show_nat n) \<le> 20"
    using n by (intro length_show_nat) auto
  ultimately show ?thesis by (simp add: value_ok_def)
qed

lemma ask_keys: "tight ''Message''" "tight ''Id''" "tight ''Socket''" "tight ''NotAfter''" "tight ''[Ask]''"
  by (simp_all add: tight_def ascii_space_def)

lemma parseAskFile_ask_file:
  assumes "value_ok sock" and "value_ok i" and "value_ok msg" and "n < 2 ^ 64"
  shows "parseAskFile (ask_file sock i msg n) None =
    Inr \<lparr>ask_path = [], ask_socket = sock, ask_id = i, ask_message = msg, notAfter = of_nat n\<rparr>"
proof -
  note v = value_line [OF assms(3) ask_keys(1)] value_line [OF assms(2) ask_keys(2)] value_line [OF assms(1) ask_keys(3)]
    value_line [OF value_ok_show_nat [OF assms(4)] ask_keys(4)]
  have t: "TrimSpace sock = sock" "TrimSpace i = i" "TrimSpace msg = msg" "TrimSpace (show_nat n) = show_nat n"
    using assms value_ok_show_nat [OF assms(4)] by (simp_all add: TrimSpace_tight value_ok_def)
  have c: "Cut (k @ CHR ''='' # v) ''='' = (k, v, True)" if "CHR ''='' \<notin> set k" for k v
    using that by (rule Cut_append)
  have "scan_lines (ask_file sock i msg n) None =
      ([''[Ask]'', ''Message='' @ msg, ''Id='' @ i, ''Socket='' @ sock, ''NotAfter='' @ show_nat n], None)"
    unfolding ask_file_def by (rule scan_lines_unlines) (use v in \<open>simp add: line_ok_def MaxScanTokenSize_def\<close>)
  moreover have "sock \<noteq> []" using assms(1) by (simp add: value_ok_def)
  ultimately show ?thesis
    using v c [of "''Message''" msg] c [of "''Id''" i] c [of "''Socket''" sock] c [of "''NotAfter''" "show_nat n"]
    by (simp add: parseAskFile_def TrimSpace_tight ask_keys t ParseUint64_show_nat [OF assms(4)])
qed

text \<open>a request that systemd writes is read back field by field.\<close>

theorem ask_file_is_understood:
  assumes "value_ok sock" and "value_ok i" and "value_ok msg" and "n < 2 ^ 64"
  shows "parseAskFile (ask_file sock i msg n) None =
    Inr \<lparr>ask_path = [], ask_socket = sock, ask_id = i, ask_message = msg, notAfter = of_nat n\<rparr>"
  by (rule parseAskFile_ask_file [OF assms])

theorem ask_file_is_understood_witness:
  "parseAskFile (ask_file ''/run/s'' ''cryptsetup:/dev/sda2'' ''Please'' 5) None =
    Inr \<lparr>ask_path = [], ask_socket = ''/run/s'', ask_id = ''cryptsetup:/dev/sda2'', ask_message = ''Please'', notAfter = of_nat 5\<rparr>"
  by (rule ask_file_is_understood) (simp_all add: value_ok_def tight_def ascii_space_def)

section \<open>Tokens\<close>

definition token_json :: "luksToken \<Rightarrow> json" where
  "token_json t =
     JObj [(''type'', JStr (tok_Type t)), (''keyslots'', JArr []), (''version'', JNum (Itoa (tok_Version t))),
           (''p2p_key_seed'', JStr (tok_Seed t)), (''key_holder_device_id'', JStr (tok_KeyHolderDeviceID t)),
           (''unlock_role'', JStr (tok_Role t))]"

lemma find_token_fields [json_fields]:
  "find_field token_fields ''type'' = Some (str_field (\<lambda>s r. r \<lparr>tok_Type := s\<rparr>))"
  "find_field token_fields ''version'' = Some (int_field (\<lambda>i r. r \<lparr>tok_Version := i\<rparr>))"
  "find_field token_fields ''p2p_key_seed'' = Some (str_field (\<lambda>s r. r \<lparr>tok_Seed := s\<rparr>))"
  "find_field token_fields ''key_holder_device_id'' = Some (str_field (\<lambda>s r. r \<lparr>tok_KeyHolderDeviceID := s\<rparr>))"
  "find_field token_fields ''unlock_role'' = Some (str_field (\<lambda>s r. r \<lparr>tok_Role := s\<rparr>))"
  "find_field token_fields ''keyslots'' = None"
  by (simp_all add: find_field_def token_fields_def upper_char_def)

lemma token_json_read:
  assumes "valid_utf8 (tok_Type t)" and "valid_utf8 (tok_Seed t)" and "valid_utf8 (tok_KeyHolderDeviceID t)"
    and "valid_utf8 (tok_Role t)" and "0 \<le> tok_Version t" and "tok_Version t < 2 ^ 63"
  shows "unmarshal_struct token_fields
      \<lparr>tok_Type = [], tok_Version = 0, tok_Seed = [], tok_KeyHolderDeviceID = [], tok_Role = []\<rparr> (json_print (token_json t)) = Inr t"
  unfolding token_json_def
proof (rule unmarshal_struct_print)
  have v: "Itoa (tok_Version t) = show_nat (nat (tok_Version t))" "Atoi (Itoa (tok_Version t)) = Some (tok_Version t)"
    using assms(5,6) by (simp_all add: Itoa_def Atoi_show_nat)
  show "json_ok (JObj [(''type'', JStr (tok_Type t)), (''keyslots'', JArr []), (''version'', JNum (Itoa (tok_Version t))),
      (''p2p_key_seed'', JStr (tok_Seed t)), (''key_holder_device_id'', JStr (tok_KeyHolderDeviceID t)),
      (''unlock_role'', JStr (tok_Role t))])"
    using assms by (simp add: v(1) nat_lit_show_nat valid_utf8_ascii is_ascii_def)
  show "json_depth (JObj [(''type'', JStr (tok_Type t)), (''keyslots'', JArr []), (''version'', JNum (Itoa (tok_Version t))),
      (''p2p_key_seed'', JStr (tok_Seed t)), (''key_holder_device_id'', JStr (tok_KeyHolderDeviceID t)),
      (''unlock_role'', JStr (tok_Role t))]) \<le> maxNestingDepth"
    by (simp add: maxNestingDepth_def)
  show "assign_members token_fields [(''type'', JStr (tok_Type t)), (''keyslots'', JArr []), (''version'', JNum (Itoa (tok_Version t))),
      (''p2p_key_seed'', JStr (tok_Seed t)), (''key_holder_device_id'', JStr (tok_KeyHolderDeviceID t)),
      (''unlock_role'', JStr (tok_Role t))]
      \<lparr>tok_Type = [], tok_Version = 0, tok_Seed = [], tok_KeyHolderDeviceID = [], tok_Role = []\<rparr> = Some t"
    by (simp add: json_fields int_field_def v(2))
qed

text \<open>a token in a LUKS2 header is used exactly when it is ours, has the version this program
  understands, carries a seed and names a known role; its seed and key holder are then taken
  as they are.  A foreign token is passed over without an error, and one of ours that cannot
  be used is an error.\<close>

theorem token_is_used_or_refused:
  assumes "valid_utf8 (tok_Type t)" and "valid_utf8 (tok_Seed t)" and "valid_utf8 (tok_KeyHolderDeviceID t)"
    and "valid_utf8 (tok_Role t)" and "0 \<le> tok_Version t" and "tok_Version t < 2 ^ 63"
  shows "(parseLUKSToken (json_print (token_json t)) = Inr None \<longleftrightarrow> tok_Type t \<noteq> luksTokenType)
    \<and> (\<forall>cfg. parseLUKSToken (json_print (token_json t)) = Inr (Some cfg) \<longleftrightarrow>
         tok_Type t = luksTokenType \<and> tok_Version t = 1 \<and> tok_Seed t \<noteq> []
         \<and> tok_Role t \<in> {[], ''client'', ''server''}
         \<and> cfg = \<lparr>lc_Device = [], lc_Seed = tok_Seed t, lc_KeyHolderDeviceID = tok_KeyHolderDeviceID t,
                  lc_Role = (if tok_Role t = [] then ''client'' else tok_Role t)\<rparr>)"
  unfolding parseLUKSToken_def token_json_read [OF assms]
  by (auto simp: luksTokenVersion_def Let_def)

theorem token_is_used_or_refused_witness:
  "parseLUKSToken (json_print (token_json \<lparr>tok_Type = ''syncthing-socket'', tok_Version = 1, tok_Seed = ''s'',
      tok_KeyHolderDeviceID = [], tok_Role = []\<rparr>)) =
    Inr (Some \<lparr>lc_Device = [], lc_Seed = ''s'', lc_KeyHolderDeviceID = [], lc_Role = ''client''\<rparr>)"
  using token_is_used_or_refused [of "\<lparr>tok_Type = ''syncthing-socket'', tok_Version = 1, tok_Seed = ''s'',
      tok_KeyHolderDeviceID = [], tok_Role = []\<rparr>"]
  by (simp add: luksTokenType_def valid_utf8_ascii is_ascii_def)

section \<open>Which configuration is found\<close>

definition usable :: "luksConfig \<Rightarrow> bool" where
  "usable cfg \<longleftrightarrow> lc_Seed cfg \<noteq> [] \<and> lc_Role cfg \<in> {''client'', ''server''}"

lemma parseLUKSToken_usable: "parseLUKSToken raw = Inr (Some cfg) \<Longrightarrow> usable cfg"
  by (auto simp: parseLUKSToken_def usable_def Let_def split: sum.splits if_splits)

lemma parseLuksConf_usable: "parseLuksConf input e = Inr (Some cfg) \<Longrightarrow> usable cfg"
  by (auto simp: parseLuksConf_def usable_def Let_def split: option.splits if_splits prod.splits)

lemma scan_tokens_Some:
  "scan_tokens run device ids = Some cfg \<Longrightarrow>
   \<exists>i\<in>set ids. \<exists>raw c. run [''cryptsetup'', ''token'', ''export'', ''--token-id'', Itoa i, device] = Inr raw
     \<and> parseLUKSToken raw = Inr (Some c) \<and> cfg = c \<lparr>lc_Device := device\<rparr>"
proof (induction ids)
  case (Cons i ids)
  then show ?case by (auto split: sum.splits option.splits)
qed simp

lemma scanDevices_Some:
  "scanDevicesForConfig run ds = Some cfg \<Longrightarrow>
   \<exists>pre device post dump. ds = pre @ device # post
     \<and> (\<forall>d\<in>set pre. \<forall>dump. run [''cryptsetup'', ''luksDump'', d] = Inr dump \<longrightarrow>
          scan_tokens run d (tokenIDsFromDump dump luksTokenType) = None)
     \<and> run [''cryptsetup'', ''luksDump'', device] = Inr dump
     \<and> scan_tokens run device (tokenIDsFromDump dump luksTokenType) = Some cfg"
proof (induction ds)
  case (Cons d ds)
  show ?case
  proof (cases "\<exists>dump. run [''cryptsetup'', ''luksDump'', d] = Inr dump \<and> scan_tokens run d (tokenIDsFromDump dump luksTokenType) \<noteq> None")
    case True
    then have "\<exists>dump. d # ds = [] @ d # ds \<and> run [''cryptsetup'', ''luksDump'', d] = Inr dump
        \<and> scan_tokens run d (tokenIDsFromDump dump luksTokenType) = Some cfg"
      using Cons.prems by (auto split: sum.splits option.splits)
    then show ?thesis by fastforce
  next
    case False
    then have "scanDevicesForConfig run ds = Some cfg"
      using Cons.prems by (auto split: sum.splits option.splits)
    from Cons.IH [OF this] obtain pre device post dump where h: "ds = pre @ device # post"
        "\<forall>d\<in>set pre. \<forall>dump. run [''cryptsetup'', ''luksDump'', d] = Inr dump \<longrightarrow>
          scan_tokens run d (tokenIDsFromDump dump luksTokenType) = None"
        "run [''cryptsetup'', ''luksDump'', device] = Inr dump"
        "scan_tokens run device (tokenIDsFromDump dump luksTokenType) = Some cfg" by blast
    show ?thesis
      by (intro exI [of _ "d # pre"] exI [of _ device] exI [of _ post] exI [of _ dump]) (use h False in auto)
  qed
qed simp

lemma findLUKSConfig_usable:
  assumes "findLUKSConfig fs open_err run = Inr (Some cfg)" shows "usable cfg"
proof -
  consider (conf) input e where "parseLuksConf input e = Inr (Some cfg)"
    | (header) ds where "scanDevicesForConfig run ds = Some cfg"
    using assms by (auto simp: findLUKSConfig_def Let_def split: option.splits sum.splits prod.splits)
  then show ?thesis
  proof cases
    case header
    then obtain device ids where "scan_tokens run device ids = Some cfg" by (blast dest: scanDevices_Some)
    then show ?thesis by (auto simp: usable_def dest!: scan_tokens_Some parseLUKSToken_usable)
  qed (rule parseLuksConf_usable)
qed

text \<open>C31: the configuration that the agent works with is always usable and comes from where it
  should: from \<^verbatim>\<open>luks.conf\<close>, which names no device, or from a token of the first block device
  that carries a usable one, and then it names that device.\<close>

theorem found_config_is_usable:
  assumes "findLUKSConfig fs open_err run = Inr (Some cfg)"
  shows "lc_Seed cfg \<noteq> [] \<and> lc_Role cfg \<in> {''client'', ''server''}
    \<and> ((\<exists>input e. fs luksConfPath = Some (input, e) \<and> parseLuksConf input e = Inr (Some cfg))
       \<or> (\<exists>input e dump i raw c pre post. fs ''/proc/partitions'' = Some (input, e)
            \<and> blockDevices input e = pre @ lc_Device cfg # post
            \<and> (\<forall>d\<in>set pre. \<forall>dump. run [''cryptsetup'', ''luksDump'', d] = Inr dump \<longrightarrow>
                 scan_tokens run d (tokenIDsFromDump dump luksTokenType) = None)
            \<and> run [''cryptsetup'', ''luksDump'', lc_Device cfg] = Inr dump
            \<and> i \<in> set (tokenIDsFromDump dump luksTokenType)
            \<and> run [''cryptsetup'', ''token'', ''export'', ''--token-id'', Itoa i, lc_Device cfg] = Inr raw
            \<and> parseLUKSToken raw = Inr (Some c) \<and> cfg = c \<lparr>lc_Device := lc_Device cfg\<rparr>))"
proof -
  consider (conf) input e where "fs luksConfPath = Some (input, e)" "parseLuksConf input e = Inr (Some cfg)"
    | (header) input e where "fs ''/proc/partitions'' = Some (input, e)"
        "scanDevicesForConfig run (blockDevices input e) = Some cfg"
    using assms by (auto simp: findLUKSConfig_def Let_def split: option.splits sum.splits prod.splits)
  then show ?thesis
  proof cases
    case conf
    then show ?thesis using parseLuksConf_usable [OF conf(2)] by (auto simp: usable_def)
  next
    case header
    from scanDevices_Some [OF header(2)] obtain pre device post dump where h: "blockDevices input e = pre @ device # post"
        "\<forall>d\<in>set pre. \<forall>dump. run [''cryptsetup'', ''luksDump'', d] = Inr dump \<longrightarrow>
          scan_tokens run d (tokenIDsFromDump dump luksTokenType) = None"
        "run [''cryptsetup'', ''luksDump'', device] = Inr dump"
        "scan_tokens run device (tokenIDsFromDump dump luksTokenType) = Some cfg" by blast
    from scan_tokens_Some [OF h(4)] obtain i raw c where t: "i \<in> set (tokenIDsFromDump dump luksTokenType)"
        "run [''cryptsetup'', ''token'', ''export'', ''--token-id'', Itoa i, device] = Inr raw"
        "parseLUKSToken raw = Inr (Some c)" "cfg = c \<lparr>lc_Device := device\<rparr>" by blast
    have u: "lc_Seed cfg \<noteq> [] \<and> lc_Role cfg \<in> {''client'', ''server''}" "lc_Device cfg = device"
      using parseLUKSToken_usable [OF t(3)] t(4) by (auto simp: usable_def)
    show ?thesis
      by (rule conjI [OF conjunct1 [OF u(1)]], rule conjI [OF conjunct2 [OF u(1)]], rule disjI2,
          intro exI conjI, rule header(1), (unfold u(2)), (rule h t)+)
  qed
qed

definition sample_files :: files where
  "sample_files p =
     (if p = luksConfPath then Some (unlines [''# unlock'', ''P2P_KEY_SEED=s'', ''UNLOCK_ROLE=server''], None) else None)"

lemma sample_conf:
  "parseLuksConf (unlines [''# unlock'', ''P2P_KEY_SEED=s'', ''UNLOCK_ROLE=server'']) None =
    Inr (Some \<lparr>lc_Device = [], lc_Seed = ''s'', lc_KeyHolderDeviceID = [], lc_Role = ''server''\<rparr>)"
proof -
  have s: "scan_lines (unlines [''# unlock'', ''P2P_KEY_SEED=s'', ''UNLOCK_ROLE=server'']) None =
      ([''# unlock'', ''P2P_KEY_SEED=s'', ''UNLOCK_ROLE=server''], None)"
    by (rule scan_lines_unlines) (simp add: line_ok_def MaxScanTokenSize_def)
  show ?thesis
    unfolding parseLuksConf_def s
    by (simp add: TrimSpace_tight tight_def ascii_space_def Cut_char Trim_def)
qed

theorem found_config_is_usable_witness:
  "lc_Role \<lparr>lc_Device = [], lc_Seed = ''s'', lc_KeyHolderDeviceID = [], lc_Role = ''server''\<rparr> \<in> {''client'', ''server''}"
proof -
  have "findLUKSConfig sample_files EOF (\<lambda>_. Inl EOF) =
      Inr (Some \<lparr>lc_Device = [], lc_Seed = ''s'', lc_KeyHolderDeviceID = [], lc_Role = ''server''\<rparr>)"
    by (simp add: findLUKSConfig_def sample_files_def sample_conf del: unlines_simps)
  from found_config_is_usable [OF this] show ?thesis by blast
qed

section \<open>The dump of a header\<close>

definition token_line :: "int \<times> string \<Rightarrow> string" where
  "token_line t = (case t of (i, ty) \<Rightarrow> ''  '' @ Itoa i @ '': '' @ ty)"

definition token_ok :: "int \<times> string \<Rightarrow> bool" where
  "token_ok t \<longleftrightarrow> (case t of (i, ty) \<Rightarrow> 0 \<le> i \<and> i < 2 ^ 63 \<and> tight ty \<and> ty \<noteq> [] \<and> CHR 0x0A \<notin> set ty)"

lemma show_nat_chars:
  "tight (show_nat n)" "CHR '':'' \<notin> set (show_nat n)" "CHR 0x0A \<notin> set (show_nat n)"
proof -
  have d: "c \<in> set (show_nat n) \<Longrightarrow> 48 \<le> (of_char c :: nat) \<and> (of_char c :: nat) \<le> 57" for c
    using set_show_nat [of c n] by (auto simp: digit_char_def)
  then show "CHR '':'' \<notin> set (show_nat n)" "CHR 0x0A \<notin> set (show_nat n)" by fastforce+
  show "tight (show_nat n)"
    using d [of "hd (show_nat n)"] d [of "last (show_nat n)"] by (fastforce simp: tight_def ascii_space_def)
qed

lemma dump_token_line:
  assumes "token_ok (i, ty)"
  shows "dump_lines t True (token_line (i, ty) # ls) = (if ty = t then [i] else []) @ dump_lines t True ls"
proof -
  have v: "0 \<le> i" "i < 2 ^ 63" "tight ty" "ty \<noteq> []" using assms by (simp_all add: token_ok_def)
  let ?n = "show_nat (nat i)"
  have sp: "ascii_space (CHR '' '')" by (simp add: ascii_space_def)
  have "tight (?n @ CHR '':'' # CHR '' '' # ty)"
    using v(3,4) show_nat_chars(1) [of "nat i"] by (auto simp: tight_def hd_append)
  then have t: "TrimSpace (token_line (i, ty)) = ?n @ CHR '':'' # CHR '' '' # ty"
    using v(1) by (simp add: token_line_def Itoa_def TrimSpace_blank sp TrimSpace_tight)
  have "Cut (TrimSpace (token_line (i, ty))) '':'' = (?n, CHR '' '' # ty, True)"
    unfolding t by (rule Cut_append [OF show_nat_chars(2)])
  moreover have "TrimSpace (CHR '' '' # ty) = ty" "TrimSpace ?n = ?n" "Atoi ?n = Some i"
    using v show_nat_chars(1) by (simp_all add: TrimSpace_blank sp TrimSpace_tight Atoi_show_nat)
  moreover have "HasPrefix (token_line (i, ty)) '' ''" by (simp add: token_line_def)
  ultimately show ?thesis by simp
qed

lemma dump_token_lines:
  "list_all token_ok toks \<Longrightarrow>
   dump_lines t True (map token_line toks @ ls) = map fst (filter (\<lambda>p. snd p = t) toks) @ dump_lines t True ls"
proof (induction toks)
  case (Cons p toks)
  then show ?case using dump_token_line [of "fst p" "snd p" t] by (cases p) simp
qed simp

text \<open>A section of the dump whose heading is not the one of the tokens.\<close>

definition other_lines :: "string list \<Rightarrow> bool" where
  "other_lines ls \<longleftrightarrow> list_all (\<lambda>l. \<not> HasPrefix l ''Tokens:'') ls"

lemma dump_other_lines: "other_lines ls \<Longrightarrow> dump_lines t False (ls @ ls') = dump_lines t False ls'"
  by (induction ls) (auto simp: other_lines_def)

text \<open>the token numbers of a header are read off its dump: of all the tokens that are listed
  under their heading, exactly those of the wanted type, in order, whatever other sections
  come before and after.\<close>

theorem tokens_are_found_in_dump:
  assumes "list_all token_ok toks" and "other_lines before" and "other_lines (heading # after)"
    and "\<not> HasPrefix heading '' ''" and "\<not> HasPrefix heading [CHR 0x09]"
    and "list_all (\<lambda>l. CHR 0x0A \<notin> set l) (before @ heading # after)"
  shows "tokenIDsFromDump (Join (before @ [''Tokens:''] @ map token_line toks @ heading # after) [CHR 0x0A]) t =
    map fst (filter (\<lambda>p. snd p = t) toks)"
proof -
  have nl: "CHR 0x0A \<notin> set (token_line p)" if "p \<in> set toks" for p
    using that assms(1) show_nat_chars(3)
    by (auto simp: list_all_iff token_line_def token_ok_def Itoa_def split: prod.splits)
  have "Split (Join (before @ [''Tokens:''] @ map token_line toks @ heading # after) [CHR 0x0A]) (CHR 0x0A) =
      before @ [''Tokens:''] @ map token_line toks @ heading # after"
    using assms(6) nl by (intro Split_Join) (auto simp: list_all_iff)
  moreover have "dump_lines t False (''Tokens:'' # map token_line toks @ heading # after) =
      map fst (filter (\<lambda>p. snd p = t) toks) @ dump_lines t True (heading # after)"
  proof -
    have "dump_lines t False (''Tokens:'' # ls) = dump_lines t True ls" for ls by simp
    then show ?thesis by (simp only: dump_token_lines [OF assms(1)])
  qed
  moreover have "dump_lines t True (heading # after) = dump_lines t False after"
    using assms(3-5) by (simp add: other_lines_def)
  moreover have "dump_lines t False after = []"
    using dump_other_lines [of after t "[]"] assms(3) by (simp add: other_lines_def)
  ultimately show ?thesis
    using dump_other_lines [OF assms(2), of t] by (simp add: tokenIDsFromDump_def)
qed

theorem tokens_are_found_in_dump_witness:
  "tokenIDsFromDump (Join ([''LUKS header information''] @ [''Tokens:''] @
      map token_line [(0, ''clevis''), (1, ''syncthing-socket'')] @ ''Digests:'' # [''  0: pbkdf2'']) [CHR 0x0A]) ''syncthing-socket'' = [1]"
  by (subst tokens_are_found_in_dump) (simp_all add: token_ok_def other_lines_def tight_def ascii_space_def)

section \<open>The resolver\<close>

lemma first_some_Some: "first_some f xs = Some y \<Longrightarrow> \<exists>x\<in>set xs. f x = Some y"
  by (induction xs) (auto split: option.splits)

text \<open>the agent never harms a resolver configuration: it writes only when there is none or an
  empty one, and what it writes is not empty.\<close>

theorem resolver_is_kept:
  assumes "ensureResolver fs glob writable = Some content"
  shows "content \<noteq> [] \<and> writable content \<and> (\<forall>old e. fs resolvConf = Some (old, e) \<longrightarrow> old = [])"
proof -
  have "resolver_text servers \<noteq> []" if "servers \<noteq> []" for servers
    using that by (cases servers) (simp_all add: resolver_text_def)
  then have "content \<noteq> [] \<and> writable content"
    using assms
    by (auto simp: ensureResolver_def copied_resolver_def built_resolver_def Let_def
        dest!: first_some_Some split: option.splits if_splits)
  then show ?thesis using assms by (auto simp: ensureResolver_def split: if_splits)
qed

theorem resolver_is_kept_witness:
  "\<exists>fs content. ensureResolver fs (\<lambda>_. []) (\<lambda>_. True) = Some content \<and> content \<noteq> [] \<and> fs resolvConf = None"
proof -
  let ?fs = "\<lambda>p. if p = ''/run/systemd/resolve/resolv.conf'' then Some (''nameserver 1.1.1.1'', None) else None"
  have e: "ensureResolver ?fs (\<lambda>_. []) (\<lambda>_. True) = Some ''nameserver 1.1.1.1''"
    by (simp add: ensureResolver_def resolvConf_def resolverSources_def globAll_def ContainsAny_def copied_resolver_def)
  moreover have "''nameserver 1.1.1.1'' \<noteq> []" using resolver_is_kept [OF e] by blast
  ultimately show ?thesis by (intro exI [of _ ?fs] exI [of _ "''nameserver 1.1.1.1''"]) (simp add: resolvConf_def)
qed

end
