(* ===== verification/Luks_Agent.thy ===== *)
theory Luks_Agent
  imports Luks_Config
begin

text \<open>
  The LUKS unlock agent (\<^verbatim>\<open>luks_agent_linux.go\<close> and the transfer of \<^verbatim>\<open>luks_agent.go\<close>): a loop
  that looks for password requests, fetches the passphrase with a subprocess, tests it, and
  delivers it to the socket of the request.  One turn of the loop is a function of what the
  system shows during that turn.
\<close>

section \<open>The system during one turn\<close>

text \<open>How the subprocess of a transfer ends: with its output, or with an error, what it wrote to
  standard error, and whether the time limit was the reason.\<close>

datatype transfer_end = Output string | Failed gerror string bool

record agent_world =
  entries :: "string list option"
  clock :: "(64 word \<times> 64 word) option"
  fs :: files
  open_err :: gerror
  glob_matches :: "string \<Rightarrow> string list"
  can_write :: "string \<Rightarrow> bool"
  gone :: "string \<Rightarrow> bool"
  cmd_runner :: runner
  self_exe :: "gerror + string"
  transfer :: "string \<Rightarrow> string list \<Rightarrow> transfer_end"
  test_passphrase :: "string \<Rightarrow> string \<Rightarrow> bool"
  sock_err :: "gerror option"
  send_err :: "string \<Rightarrow> gerror option"

definition askPasswordDir :: string where
  "askPasswordDir = ''/run/systemd/ask-password''"

text \<open>Seconds and nanoseconds of the monotonic clock, in unsigned 64-bit arithmetic.\<close>

definition monotonicUsec :: "(64 word \<times> 64 word) option \<Rightarrow> 64 word option" where
  "monotonicUsec ts = (case ts of None \<Rightarrow> None | Some (sec, nsec) \<Rightarrow> Some (sec * 1000000 + nsec div 1000))"

section \<open>Fetching and checking the passphrase\<close>

definition transfer_args :: "luksConfig \<Rightarrow> string list option" where
  "transfer_args cfg =
     (let args = [lc_Role cfg, ''--seed'', lc_Seed cfg, ''--log-level'', ''error'']
      in if lc_Role cfg = ''server'' then
           Some (args @ (if lc_KeyHolderDeviceID cfg \<noteq> [] then [''--authorized-clients'', lc_KeyHolderDeviceID cfg] else []) @
                 [''--announce-interval'', ''1m0s''])
         else if lc_Role cfg = ''client'' then
           Some (args @ (if lc_KeyHolderDeviceID cfg \<noteq> [] then [lc_KeyHolderDeviceID cfg] else []))
         else None)"

definition fetchPassphrase :: "gerror + string \<Rightarrow> (string list \<Rightarrow> transfer_end) \<Rightarrow> luksConfig \<Rightarrow> gerror + string" where
  "fetchPassphrase self run cfg =
     (case self of
        Inl e \<Rightarrow> Inl e
      | Inr exe \<Rightarrow>
          (case transfer_args cfg of
             None \<Rightarrow> Inl (Errorf (''unknown unlock role '' @ quote (lc_Role cfg)))
           | Some args \<Rightarrow>
               (case run (exe # args) of
                  Output out \<Rightarrow> Inr out
                | Failed err stderr timedOut \<Rightarrow>
                    if timedOut then Inl (Errorf ''gave up after 5m0s waiting for the key holder'')
                    else if lastLine stderr \<noteq> [] then Inl (Errorf (err_msg err @ '': '' @ lastLine stderr))
                    else Inl err)))"

definition verifyPassphrase :: "(string \<Rightarrow> string \<Rightarrow> bool) \<Rightarrow> string \<Rightarrow> string \<Rightarrow> bool" where
  "verifyPassphrase test device passphrase = (if device = [] then True else test device passphrase)"

text \<open>The error, or the datagram that reached the socket.\<close>

definition replyToAsk :: "agent_world \<Rightarrow> string \<Rightarrow> string \<Rightarrow> gerror + string" where
  "replyToAsk w socketPath password =
     (case sock_err w of
        Some e \<Rightarrow> Inl (wrap_err ''cannot create a reply socket'' e)
      | None \<Rightarrow> (case send_err w socketPath of
                   Some e \<Rightarrow> Inl (wrap_err (''cannot send to '' @ socketPath) e)
                 | None \<Rightarrow> Inr (''+'' @ password)))"

section \<open>Pending requests\<close>

fun scan_entries :: "agent_world \<Rightarrow> 64 word \<Rightarrow> string list \<Rightarrow> string set \<Rightarrow> askRequest list \<times> string set" where
  "scan_entries w now [] answered = ([], answered)"
| "scan_entries w now (name # names) answered =
     (let path = askPasswordDir @ ''/'' @ name;
          skip = scan_entries w now names answered;
          give_up = scan_entries w now names (insert path answered)
      in if \<not> HasPrefix name ''ask.'' then skip
         else if path \<in> answered then skip
         else case fs w path of
                None \<Rightarrow> skip
              | Some (input, rerr) \<Rightarrow>
                  (case parseAskFile input rerr of
                     Inl e \<Rightarrow> give_up
                   | Inr req0 \<Rightarrow>
                       let req = req0 \<lparr>ask_path := path\<rparr>
                       in if expired req now then give_up
                          else if \<not> wantsCryptsetup req then give_up
                          else (case skip of (reqs, answered') \<Rightarrow> (req # reqs, answered'))))"

definition pendingRequests :: "agent_world \<Rightarrow> string set \<Rightarrow> askRequest list option \<times> string set" where
  "pendingRequests w answered =
     (case entries w of
        None \<Rightarrow> (None, answered)
      | Some names \<Rightarrow>
          (case monotonicUsec (clock w) of
             None \<Rightarrow> (None, answered)
           | Some now \<Rightarrow>
               (case scan_entries w now names answered of
                  (reqs, answered') \<Rightarrow> (Some reqs, {p \<in> answered'. \<not> gone w p}))))"

section \<open>The loop\<close>

datatype agent_effect =
    WroteResolver string
  | SaidRejected string | SaidRequesting string | SaidWrong nat string | SaidDelivered string
  | Sent string string string

text \<open>Checking the resolver may write \<^verbatim>\<open>/etc/resolv.conf\<close>, which later checks see.\<close>

definition resolver_turn :: "agent_world \<Rightarrow> agent_effect list \<times> agent_world" where
  "resolver_turn w =
     (case ensureResolver (fs w) (glob_matches w) (can_write w) of
        None \<Rightarrow> ([], w)
      | Some c \<Rightarrow> ([WroteResolver c], w \<lparr>fs := (fs w)(resolvConf \<mapsto> (c, None))\<rparr>))"

text \<open>One request: what is done for it, and the datagram if one was delivered.\<close>

definition answer_request :: "agent_world \<Rightarrow> luksConfig \<Rightarrow> bool \<Rightarrow> askRequest \<Rightarrow> agent_effect list \<times> string option" where
  "answer_request w cfg delivered req =
     (let pre = (if delivered then [SaidRejected (lc_Device cfg)] else []) @ [SaidRequesting (lc_Device cfg)]
      in case fetchPassphrase (self_exe w) (transfer w (ask_path req)) cfg of
           Inl e \<Rightarrow> (pre, None)
         | Inr passphrase \<Rightarrow>
             if passphrase = [] then (pre, None)
             else if \<not> verifyPassphrase (test_passphrase w) (lc_Device cfg) passphrase then
               (pre @ [SaidWrong (length passphrase) (lc_Device cfg)], None)
             else (case replyToAsk w (ask_socket req) passphrase of
                     Inl e \<Rightarrow> (pre, None)
                   | Inr msg \<Rightarrow>
                       (pre @ [Sent (ask_path req) (ask_socket req) msg, SaidDelivered (lc_Device cfg)], Some msg)))"

text \<open>The requests of one turn, with the set of answered ones and the flag \<open>delivered\<close>.\<close>

fun answer_requests :: "agent_world \<Rightarrow> luksConfig \<Rightarrow> askRequest list \<Rightarrow> string set \<times> bool \<Rightarrow>
    agent_effect list \<times> string set \<times> bool" where
  "answer_requests w cfg [] st = ([], st)"
| "answer_requests w cfg (req # reqs) (answered, delivered) =
     (case resolver_turn w of (wrote, w') \<Rightarrow>
      case answer_request w' cfg delivered req of (evs, sent) \<Rightarrow>
      case answer_requests w' cfg reqs
             (if sent = None then (answered, delivered) else (insert (ask_path req) answered, True)) of
        (evs', st') \<Rightarrow> (wrote @ evs @ evs', st'))"

definition agent_turn :: "agent_world \<Rightarrow> string set \<times> bool \<Rightarrow> agent_effect list \<times> string set \<times> bool" where
  "agent_turn w st =
     (case st of (answered, delivered) \<Rightarrow>
        (case pendingRequests w answered of
           (None, answered') \<Rightarrow> ([], answered', delivered)
         | (Some [], answered') \<Rightarrow> ([], answered', delivered)
         | (Some reqs, answered') \<Rightarrow>
             (case findLUKSConfig (fs w) (open_err w) (cmd_runner w) of
                Inl e \<Rightarrow> ([], answered', delivered)
              | Inr None \<Rightarrow> ([], answered' \<union> ask_path ` set reqs, delivered)
              | Inr (Some cfg) \<Rightarrow> answer_requests w cfg reqs (answered', delivered))))"

text \<open>Elsewhere than on Linux (\<^verbatim>\<open>luks_agent_other.go\<close>) there is no agent.\<close>

definition runLUKSAgent_other :: "gerror option" where
  "runLUKSAgent_other = Some (Errorf ''the LUKS password agent is only available on Linux'')"

text \<open>\<^verbatim>\<open>runLUKSAgent\<close> never returns; this is its behaviour over any number of turns.\<close>

fun runLUKSAgent :: "agent_world list \<Rightarrow> string set \<times> bool \<Rightarrow> agent_effect list \<times> string set \<times> bool" where
  "runLUKSAgent [] st = ([], st)"
| "runLUKSAgent (w # ws) st =
     (case agent_turn w st of (evs, st') \<Rightarrow> (case runLUKSAgent ws st' of (evs', st'') \<Rightarrow> (evs @ evs', st'')))"

section \<open>What is pending\<close>

text \<open>A request that may be answered: its file, in the directory of requests, reads as this request,
  which cryptsetup made and which is still open.\<close>

definition answerable :: "agent_world \<Rightarrow> 64 word \<Rightarrow> string set \<Rightarrow> askRequest \<Rightarrow> bool" where
  "answerable w now answered req \<longleftrightarrow>
     ask_path req \<notin> answered
     \<and> (\<exists>name. HasPrefix name ''ask.'' \<and> ask_path req = askPasswordDir @ ''/'' @ name)
     \<and> (\<exists>input e req0. fs w (ask_path req) = Some (input, e) \<and> parseAskFile input e = Inr req0
          \<and> req = req0 \<lparr>ask_path := ask_path req\<rparr>)
     \<and> \<not> expired req now \<and> wantsCryptsetup req"

lemma answerable_antimono: "answerable w now B req \<Longrightarrow> A \<subseteq> B \<Longrightarrow> answerable w now A req"
  by (auto simp: answerable_def)

text \<open>The path of an entry, and the three things that can happen to it.\<close>

abbreviation entry_path :: "string \<Rightarrow> string" where
  "entry_path name \<equiv> askPasswordDir @ ''/'' @ name"

lemma scan_entries_cases:
  obtains (skip) "scan_entries w now (name # names) A = scan_entries w now names A"
  | (give_up) "scan_entries w now (name # names) A = scan_entries w now names (insert (entry_path name) A)"
  | (pending) req where "ask_path req = entry_path name" and "answerable w now A req"
      and "scan_entries w now (name # names) A =
        (req # fst (scan_entries w now names A), snd (scan_entries w now names A))"
proof (cases "\<exists>input e req0. HasPrefix name ''ask.'' \<and> entry_path name \<notin> A \<and> fs w (entry_path name) = Some (input, e)
    \<and> parseAskFile input e = Inr req0 \<and> \<not> expired (req0 \<lparr>ask_path := entry_path name\<rparr>) now
    \<and> wantsCryptsetup (req0 \<lparr>ask_path := entry_path name\<rparr>)")
  case True
  then obtain input e req0 where h: "HasPrefix name ''ask.''" "entry_path name \<notin> A"
      "fs w (entry_path name) = Some (input, e)" "parseAskFile input e = Inr req0"
      "\<not> expired (req0 \<lparr>ask_path := entry_path name\<rparr>) now" "wantsCryptsetup (req0 \<lparr>ask_path := entry_path name\<rparr>)"
    by blast
  show ?thesis
  proof (rule pending [of "req0 \<lparr>ask_path := entry_path name\<rparr>"])
    show "answerable w now A (req0 \<lparr>ask_path := entry_path name\<rparr>)"
      unfolding answerable_def using h by auto
    show "scan_entries w now (name # names) A = (req0 \<lparr>ask_path := entry_path name\<rparr> #
        fst (scan_entries w now names A), snd (scan_entries w now names A))"
      using h by (simp add: Let_def split_beta)
  qed simp
next
  case False
  then have "scan_entries w now (name # names) A \<in>
      {scan_entries w now names A, scan_entries w now names (insert (entry_path name) A)}"
  proof (cases "HasPrefix name ''ask.'' \<and> entry_path name \<notin> A")
    case ask: True
    show ?thesis
    proof (cases "fs w (entry_path name)")
      case (Some ie)
      then obtain input e where f: "fs w (entry_path name) = Some (input, e)" by (cases ie) auto
      show ?thesis
      proof (cases "parseAskFile input e")
        case (Inr req0)
        then have "expired (req0 \<lparr>ask_path := entry_path name\<rparr>) now
            \<or> \<not> wantsCryptsetup (req0 \<lparr>ask_path := entry_path name\<rparr>)"
          using False ask f by blast
        then show ?thesis using ask f Inr by (elim disjE) (simp_all add: Let_def)
      qed (use ask f in \<open>simp add: Let_def\<close>)
    qed (use ask in \<open>simp add: Let_def\<close>)
  next
    case False
    then have "scan_entries w now (name # names) A = scan_entries w now names A" by (simp add: Let_def)
    then show ?thesis by blast
  qed
  then show ?thesis using skip give_up by blast
qed

declare scan_entries.simps(2) [simp del]

lemma scan_entries_answerable:
  "req \<in> set (fst (scan_entries w now names A)) \<Longrightarrow> answerable w now A req"
proof (induction names arbitrary: A)
  case (Cons name names)
  show ?case
  proof (rule scan_entries_cases [of w now name names A])
    assume "scan_entries w now (name # names) A = scan_entries w now names (insert (entry_path name) A)"
    then have "answerable w now (insert (entry_path name) A) req" using Cons.prems by (simp add: Cons.IH)
    then show ?case by (rule answerable_antimono) blast
  next
    fix r assume r: "answerable w now A r" "scan_entries w now (name # names) A =
        (r # fst (scan_entries w now names A), snd (scan_entries w now names A))"
    then show ?case using Cons.prems Cons.IH [of A] by (cases "req = r") simp_all
  qed (use Cons.prems in \<open>simp add: Cons.IH\<close>)
qed simp

lemma scan_entries_keeps: "p \<in> A \<Longrightarrow> p \<in> snd (scan_entries w now names A)"
proof (induction names arbitrary: A)
  case (Cons name names)
  show ?case
    by (rule scan_entries_cases [of w now name names A]) (use Cons in \<open>auto\<close>)
qed simp

lemma scan_entries_grows: "p \<in> snd (scan_entries w now names A) \<Longrightarrow> p \<in> A \<or> p \<in> entry_path ` set names"
proof (induction names arbitrary: A)
  case (Cons name names)
  show ?case
    by (rule scan_entries_cases [of w now name names A])
      (use Cons.prems Cons.IH [of A] Cons.IH [of "insert (entry_path name) A"] in \<open>auto\<close>)
qed simp

lemma scan_entries_paths: "req \<in> set (fst (scan_entries w now names A)) \<Longrightarrow> ask_path req \<in> entry_path ` set names"
proof (induction names arbitrary: A)
  case (Cons name names)
  show ?case
    by (rule scan_entries_cases [of w now name names A])
      (use Cons.prems Cons.IH [of A] Cons.IH [of "insert (entry_path name) A"] in \<open>auto\<close>)
qed simp

text \<open>When no name is listed twice, the pending requests have different files, none of them answered.\<close>

lemma scan_entries_distinct:
  "distinct names \<Longrightarrow> distinct (map ask_path (fst (scan_entries w now names A)))
    \<and> ask_path ` set (fst (scan_entries w now names A)) \<inter> snd (scan_entries w now names A) = {}"
proof (induction names arbitrary: A)
  case (Cons name names)
  have new: "entry_path name \<notin> entry_path ` set names" using Cons.prems by auto
  have IH: "distinct (map ask_path (fst (scan_entries w now names B)))"
    "ask_path ` set (fst (scan_entries w now names B)) \<inter> snd (scan_entries w now names B) = {}" for B
    using Cons by auto
  show ?case
  proof (rule scan_entries_cases [of w now name names A])
    fix req assume r: "ask_path req = entry_path name" "answerable w now A req"
      "scan_entries w now (name # names) A =
        (req # fst (scan_entries w now names A), snd (scan_entries w now names A))"
    have "entry_path name \<notin> ask_path ` set (fst (scan_entries w now names A))"
    proof
      assume "entry_path name \<in> ask_path ` set (fst (scan_entries w now names A))"
      then obtain q where "q \<in> set (fst (scan_entries w now names A))" "ask_path q = entry_path name" by auto
      then show False using scan_entries_paths [of q w now names A] new by simp
    qed
    moreover have "entry_path name \<notin> snd (scan_entries w now names A)"
      using r new scan_entries_grows by (metis answerable_def)
    ultimately show ?thesis using IH [of A] r(1) unfolding r(3) by auto
  qed (use IH in auto)
qed simp

lemma pendingRequests_Some:
  assumes "pendingRequests w A = (Some reqs, A')"
  obtains names now where "entries w = Some names" and "monotonicUsec (clock w) = Some now"
    and "reqs = fst (scan_entries w now names A)" and "A' = {p \<in> snd (scan_entries w now names A). \<not> gone w p}"
  using assms by (auto simp: pendingRequests_def split: option.splits prod.splits)

section \<open>What is sent\<close>

text \<open>The datagram for a request does not depend on what was delivered before, nor on the resolver.\<close>

definition reply_for :: "agent_world \<Rightarrow> luksConfig \<Rightarrow> askRequest \<Rightarrow> string option" where
  "reply_for w cfg req = snd (answer_request w cfg False req)"

lemma snd_answer_request [simp]: "snd (answer_request w cfg d req) = reply_for w cfg req"
  unfolding reply_for_def answer_request_def by (simp add: Let_def split: sum.splits)

lemma replyToAsk_fs [simp]: "replyToAsk (w \<lparr>fs := f\<rparr>) s passphrase = replyToAsk w s passphrase"
  by (simp add: replyToAsk_def split: option.split)

lemma answer_request_resolver [simp]: "answer_request (snd (resolver_turn w)) cfg d req = answer_request w cfg d req"
  by (cases "ensureResolver (fs w) (glob_matches w) (can_write w)")
    (simp_all add: resolver_turn_def answer_request_def Let_def split: sum.split)

lemma reply_for_resolver [simp]: "reply_for (snd (resolver_turn w)) cfg req = reply_for w cfg req"
  using snd_answer_request answer_request_resolver by metis

lemma resolver_turn_silent: "Sent p s m \<notin> set (fst (resolver_turn w))"
  by (simp add: resolver_turn_def split: option.splits)

lemma answer_request_sent:
  "Sent p s m \<in> set (fst (answer_request w cfg d req)) \<longleftrightarrow>
   p = ask_path req \<and> s = ask_socket req \<and> reply_for w cfg req = Some m"
  unfolding reply_for_def answer_request_def by (auto simp: Let_def split: sum.splits)

lemma reply_for_Some:
  assumes "reply_for w cfg req = Some m"
  obtains exe args passphrase where "self_exe w = Inr exe" and "transfer_args cfg = Some args"
    and "transfer w (ask_path req) (exe # args) = Output passphrase" and "passphrase \<noteq> []"
    and "lc_Device cfg = [] \<or> test_passphrase w (lc_Device cfg) passphrase" and "m = CHR ''+'' # passphrase"
  using assms unfolding reply_for_def answer_request_def
  by (auto simp: Let_def fetchPassphrase_def verifyPassphrase_def replyToAsk_def
      split: sum.splits if_splits option.splits transfer_end.splits)

lemma answer_requests_Cons:
  "answer_requests w cfg (req # reqs) (A, d) =
    (let r = answer_requests (snd (resolver_turn w)) cfg reqs
           (if reply_for w cfg req = None then (A, d) else (insert (ask_path req) A, True))
     in (fst (resolver_turn w) @ fst (answer_request w cfg d req) @ fst r, snd r))"
  by (simp add: split_beta Let_def)

declare answer_requests.simps(2) [simp del]

lemma answer_requests_sent:
  "Sent p s m \<in> set (fst (answer_requests w cfg reqs st)) \<longleftrightarrow>
   (\<exists>req\<in>set reqs. p = ask_path req \<and> s = ask_socket req \<and> reply_for w cfg req = Some m)"
proof (induction reqs arbitrary: w st)
  case (Cons req reqs)
  obtain A d where st: "st = (A, d)" by (cases st)
  show ?case
    unfolding st answer_requests_Cons by (simp add: Let_def Cons.IH resolver_turn_silent answer_request_sent)
qed simp

lemma answer_requests_answered:
  "fst (snd (answer_requests w cfg reqs (A, d))) = A \<union> {ask_path req |req. req \<in> set reqs \<and> reply_for w cfg req \<noteq> None}"
proof (induction reqs arbitrary: w A d)
  case (Cons req reqs)
  show ?case unfolding answer_requests_Cons by (auto simp: Let_def Cons.IH)
qed simp

lemma agent_turn_sent:
  "Sent p s m \<in> set (fst (agent_turn w (A, d))) \<longleftrightarrow>
   (\<exists>reqs A' cfg req. pendingRequests w A = (Some reqs, A')
      \<and> findLUKSConfig (fs w) (open_err w) (cmd_runner w) = Inr (Some cfg)
      \<and> req \<in> set reqs \<and> p = ask_path req \<and> s = ask_socket req \<and> reply_for w cfg req = Some m)"
proof -
  obtain r A' where r: "pendingRequests w A = (r, A')" by (cases "pendingRequests w A")
  show ?thesis
  proof (cases r)
    case (Some reqs)
    show ?thesis
    proof (cases reqs)
      case (Cons q qs)
      then show ?thesis using r Some
        by (auto simp: agent_turn_def answer_requests_sent list.set(1) simp del: list.set(2) split: sum.splits option.splits)
    qed (use r Some in \<open>auto simp: agent_turn_def\<close>)
  qed (use r in \<open>auto simp: agent_turn_def\<close>)
qed


text \<open>A machine with one request, a configuration file, and a key holder that delivers.\<close>

definition sample_ask :: string where
  "sample_ask = askPasswordDir @ ''/ask.x''"

definition sample_agent :: agent_world where
  "sample_agent = \<lparr>entries = Some [''sck.x'', ''ask.x''], clock = Some (1, 0),
     fs = sample_files(sample_ask \<mapsto> (ask_file ''/s'' ''cryptsetup:/dev/sda'' ''Please'' 0, None),
                       resolvConf \<mapsto> (''nameserver x'', None)),
     open_err = EOF, glob_matches = (\<lambda>_. []), can_write = (\<lambda>_. True), gone = (\<lambda>_. False),
     cmd_runner = (\<lambda>_. Inl EOF), self_exe = Inr ''/proc/self'', transfer = (\<lambda>_ _. Output ''pw''),
     test_passphrase = (\<lambda>_ _. True), sock_err = None, send_err = (\<lambda>_. None)\<rparr>"

abbreviation sample_request :: askRequest where
  "sample_request \<equiv> \<lparr>ask_path = sample_ask, ask_socket = ''/s'', ask_id = ''cryptsetup:/dev/sda'',
     ask_message = ''Please'', notAfter = 0\<rparr>"

abbreviation sample_cfg :: luksConfig where
  "sample_cfg \<equiv> \<lparr>lc_Device = [], lc_Seed = ''s'', lc_KeyHolderDeviceID = [], lc_Role = ''server''\<rparr>"

lemma sample_pending: "pendingRequests sample_agent {} = (Some [sample_request], {})"
proof -
  have a: "parseAskFile (ask_file ''/s'' ''cryptsetup:/dev/sda'' ''Please'' 0) None =
      Inr \<lparr>ask_path = [], ask_socket = ''/s'', ask_id = ''cryptsetup:/dev/sda'', ask_message = ''Please'', notAfter = of_nat 0\<rparr>"
    by (rule parseAskFile_ask_file) (simp_all add: value_ok_def tight_def ascii_space_def)
  have ne: "sample_ask \<noteq> resolvConf" by (simp add: sample_ask_def askPasswordDir_def resolvConf_def)
  have f: "fs sample_agent sample_ask = Some (ask_file ''/s'' ''cryptsetup:/dev/sda'' ''Please'' 0, None)"
    using ne by (simp add: sample_agent_def)
  have "scan_entries sample_agent n [''sck.x'', ''ask.x''] {} = ([sample_request], {})" for n
    using f a by (simp add: scan_entries.simps HasPrefix_def sample_ask_def [symmetric] expired_def
        wantsCryptsetup_def cryptsetupIDPrefix_def)
  moreover have "entries sample_agent = Some [''sck.x'', ''ask.x'']" "clock sample_agent = Some (1, 0)"
    by (simp_all add: sample_agent_def)
  ultimately show ?thesis by (simp add: pendingRequests_def monotonicUsec_def)
qed

lemma sample_config:
  "findLUKSConfig (fs sample_agent) (open_err sample_agent) (cmd_runner sample_agent) =
    Inr (Some sample_cfg)"
proof -
  have "luksConfPath \<noteq> resolvConf" "luksConfPath \<noteq> sample_ask"
    by (simp_all add: luksConfPath_def resolvConf_def sample_ask_def askPasswordDir_def)
  then have "fs sample_agent luksConfPath = sample_files luksConfPath" by (simp add: sample_agent_def)
  then show ?thesis by (simp add: findLUKSConfig_def sample_files_def sample_conf del: unlines_simps)
qed

lemma sample_reply: "reply_for sample_agent sample_cfg sample_request = Some ''+pw''"
  unfolding reply_for_def answer_request_def
  by (simp add: sample_agent_def fetchPassphrase_def transfer_args_def verifyPassphrase_def replyToAsk_def)

lemma sample_sent: "Sent sample_ask ''/s'' ''+pw'' \<in> set (fst (agent_turn sample_agent ({}, False)))"
  unfolding agent_turn_sent
  by (rule exI [of _ "[sample_request]"], rule exI [of _ "{}"], rule exI [of _ sample_cfg], rule exI [of _ sample_request])
    (simp add: sample_pending sample_config sample_reply)


section \<open>Each request is answered at most once\<close>

fun is_reply :: "string \<Rightarrow> agent_effect \<Rightarrow> bool" where
  "is_reply p (Sent q s m) = (q = p)"
| "is_reply p _ = False"

definition replies :: "string \<Rightarrow> agent_effect list \<Rightarrow> nat" where
  "replies p evs = length (filter (is_reply p) evs)"

lemma replies_append [simp]: "replies p (xs @ ys) = replies p xs + replies p ys"
  by (simp add: replies_def)

lemma replies_Nil [simp]: "replies p [] = 0"
  by (simp add: replies_def)

lemma replies_resolver [simp]: "replies p (fst (resolver_turn w)) = 0"
  by (simp add: replies_def resolver_turn_def split: option.splits)

lemma replies_answer_request:
  "replies p (fst (answer_request w cfg d req)) = (if ask_path req = p \<and> reply_for w cfg req \<noteq> None then 1 else 0)"
  unfolding reply_for_def answer_request_def by (auto simp: replies_def Let_def split: sum.splits)

lemma replies_answer_requests:
  "distinct (map ask_path reqs) \<Longrightarrow> replies p (fst (answer_requests w cfg reqs st)) =
    (if \<exists>req\<in>set reqs. ask_path req = p \<and> reply_for w cfg req \<noteq> None then 1 else 0)"
proof (induction reqs arbitrary: w st)
  case (Cons req reqs)
  obtain A d where st: "st = (A, d)" by (cases st)
  have "\<forall>q\<in>set reqs. ask_path q \<noteq> ask_path req" "distinct (map ask_path reqs)"
    using Cons.prems by (simp_all add: image_iff) metis
  then show ?case
    unfolding st answer_requests_Cons by (auto simp: Let_def Cons.IH replies_answer_request)
qed simp

text \<open>One turn: a file that was answered stays so while it exists and gets no reply; a file that gets
  a reply gets one and is answered.\<close>

definition distinct_entries :: "agent_world \<Rightarrow> bool" where
  "distinct_entries w \<longleftrightarrow> (case entries w of None \<Rightarrow> True | Some names \<Rightarrow> distinct names)"

lemma pendingRequests_keeps: "p \<in> A \<Longrightarrow> \<not> gone w p \<Longrightarrow> p \<in> snd (pendingRequests w A)"
  using scan_entries_keeps [of p A w] by (simp add: pendingRequests_def split_beta split: option.splits)

lemma agent_turn_replies:
  assumes "distinct_entries w"
  shows "replies p (fst (agent_turn w (A, d))) \<le> (if p \<in> A then 0 else 1)"
    and "\<not> gone w p \<Longrightarrow> p \<in> A \<or> replies p (fst (agent_turn w (A, d))) = 1 \<Longrightarrow> p \<in> fst (snd (agent_turn w (A, d)))"
proof -
  obtain r A' where r: "pendingRequests w A = (r, A')" by (cases "pendingRequests w A")
  have keep: "p \<in> A \<Longrightarrow> \<not> gone w p \<Longrightarrow> p \<in> A'" using pendingRequests_keeps [of p A w] r by simp
  have "replies p (fst (agent_turn w (A, d))) \<le> (if p \<in> A then 0 else 1) \<and>
    (\<not> gone w p \<longrightarrow> p \<in> A \<or> replies p (fst (agent_turn w (A, d))) = 1 \<longrightarrow> p \<in> fst (snd (agent_turn w (A, d))))"
  proof (cases "\<exists>reqs cfg. r = Some reqs \<and> reqs \<noteq> [] \<and> findLUKSConfig (fs w) (open_err w) (cmd_runner w) = Inr (Some cfg)")
    case True
    then obtain reqs cfg where c: "r = Some reqs" "reqs \<noteq> []" "findLUKSConfig (fs w) (open_err w) (cmd_runner w) = Inr (Some cfg)"
      by blast
    have t: "agent_turn w (A, d) = answer_requests w cfg reqs (A', d)"
      using c r by (cases reqs) (simp_all add: agent_turn_def)
    from r c(1) obtain names now where n: "entries w = Some names" "reqs = fst (scan_entries w now names A)"
      using pendingRequests_Some [of w A reqs A'] by blast
    have "distinct (map ask_path reqs)"
      using assms n scan_entries_distinct [of names w now A] by (simp add: distinct_entries_def)
    moreover have "p \<notin> A" if "req \<in> set reqs" "ask_path req = p" for req
      using scan_entries_answerable [of req w now names A] that n(2) by (simp add: answerable_def)
    ultimately show ?thesis
      using keep unfolding t answer_requests_answered by (auto simp: replies_answer_requests)
  next
    case False
    then show ?thesis using r keep
      by (auto simp: agent_turn_def split: option.splits list.splits sum.splits)
  qed
  then show "replies p (fst (agent_turn w (A, d))) \<le> (if p \<in> A then 0 else 1)"
    and "\<not> gone w p \<Longrightarrow> p \<in> A \<or> replies p (fst (agent_turn w (A, d))) = 1 \<Longrightarrow> p \<in> fst (snd (agent_turn w (A, d)))"
    by blast+
qed

lemma runLUKSAgent_replies:
  assumes "\<forall>w\<in>set ws. distinct_entries w \<and> \<not> gone w p"
  shows "replies p (fst (runLUKSAgent ws (A, d))) \<le> (if p \<in> A then 0 else 1)"
  using assms
proof (induction ws arbitrary: A d)
  case (Cons w ws)
  obtain evs A' d' where t: "agent_turn w (A, d) = (evs, A', d')" by (metis prod_cases3)
  have h: "replies p evs \<le> (if p \<in> A then 0 else 1)" "p \<in> A \<or> replies p evs = 1 \<Longrightarrow> p \<in> A'"
    using agent_turn_replies [of w p A d] t Cons.prems by auto
  have "replies p (fst (runLUKSAgent ws (A', d'))) \<le> (if p \<in> A' then 0 else 1)"
    using Cons by simp
  moreover have "replies p (fst (runLUKSAgent (w # ws) (A, d))) = replies p evs + replies p (fst (runLUKSAgent ws (A', d')))"
    using t by (simp add: split_beta)
  ultimately show ?case using h by (cases "p \<in> A"; cases "replies p evs = 1") (auto split: if_splits)
qed simp

text \<open>C12: over any run, the agent answers a request file at most once while the file exists.\<close>

theorem request_answered_at_most_once:
  assumes "\<forall>w\<in>set ws. distinct_entries w \<and> \<not> gone w p"
  shows "length (filter (is_reply p) (fst (runLUKSAgent ws ({}, False)))) \<le> 1"
  using runLUKSAgent_replies [OF assms, of "{}" False] by (simp add: replies_def)

lemma sample_world: "distinct_entries sample_agent" "gone sample_agent p = False"
  by (simp_all add: sample_agent_def distinct_entries_def)

theorem request_answered_at_most_once_witness:
  "length (filter (is_reply sample_ask) (fst (runLUKSAgent [sample_agent, sample_agent] ({}, False)))) \<le> 1"
  by (rule request_answered_at_most_once) (simp add: sample_world)

section \<open>Open requests are retried, and served when the key holder delivers\<close>

text \<open>a turn in which the machine is configured leaves a pending request unanswered, so that the
  next turn tries it again, exactly when no passphrase was sent for it.\<close>

theorem unserved_request_stays_pending:
  assumes "pendingRequests w answered = (Some reqs, A')" and "req \<in> set reqs" and "distinct_entries w"
    and "findLUKSConfig (fs w) (open_err w) (cmd_runner w) = Inr (Some cfg)"
  shows "ask_path req \<in> fst (snd (agent_turn w (answered, delivered))) \<longleftrightarrow>
    (\<exists>s m. Sent (ask_path req) s m \<in> set (fst (agent_turn w (answered, delivered))))"
proof -
  have t: "agent_turn w (answered, delivered) = answer_requests w cfg reqs (A', delivered)"
    using assms by (cases reqs) (simp_all add: agent_turn_def)
  from assms(1) obtain names now where n: "entries w = Some names" "reqs = fst (scan_entries w now names answered)"
      "A' = {p \<in> snd (scan_entries w now names answered). \<not> gone w p}" by (rule pendingRequests_Some)
  have "ask_path req \<notin> A'"
    using assms(2,3) n scan_entries_distinct [of names w now answered] by (auto simp: distinct_entries_def)
  then show ?thesis unfolding t answer_requests_answered answer_requests_sent by fastforce
qed

theorem unserved_request_stays_pending_witness:
  "ask_path sample_request \<in> fst (snd (agent_turn sample_agent ({}, False))) \<longleftrightarrow>
    (\<exists>s m. Sent (ask_path sample_request) s m \<in> set (fst (agent_turn sample_agent ({}, False))))"
  by (rule unserved_request_stays_pending [OF sample_pending _ sample_world(1) sample_config]) simp

text \<open>C13: when the key holder delivers the passphrase that opens the device, every pending request
  is served in the same turn; the arguments of the transfer are never refused, because a configuration
  that is found has one of the two roles.\<close>

theorem pending_requests_are_served:
  assumes "pendingRequests w answered = (Some reqs, A')" and "req \<in> set reqs"
    and "findLUKSConfig (fs w) (open_err w) (cmd_runner w) = Inr (Some cfg)" and "self_exe w = Inr exe"
    and "\<And>argv. transfer w (ask_path req) argv = Output passphrase" and "passphrase \<noteq> []"
    and "test_passphrase w (lc_Device cfg) passphrase" and "sock_err w = None" and "send_err w (ask_socket req) = None"
  shows "Sent (ask_path req) (ask_socket req) (CHR ''+'' # passphrase) \<in> set (fst (agent_turn w (answered, delivered)))
    \<and> ask_path req \<in> fst (snd (agent_turn w (answered, delivered)))"
proof -
  have t: "agent_turn w (answered, delivered) = answer_requests w cfg reqs (A', delivered)"
    using assms by (cases reqs) (simp_all add: agent_turn_def)
  have "usable cfg" using assms(3) by (rule findLUKSConfig_usable)
  then obtain args where "transfer_args cfg = Some args" by (auto simp: usable_def transfer_args_def)
  then have "reply_for w cfg req = Some (CHR ''+'' # passphrase)"
    unfolding reply_for_def answer_request_def
    using assms(4-) by (simp add: fetchPassphrase_def verifyPassphrase_def replyToAsk_def)
  then show ?thesis
    unfolding t answer_requests_answered answer_requests_sent using assms(2) by auto
qed

theorem pending_requests_are_served_witness:
  "Sent (ask_path sample_request) (ask_socket sample_request) (CHR ''+'' # ''pw'')
      \<in> set (fst (agent_turn sample_agent ({}, False)))
    \<and> ask_path sample_request \<in> fst (snd (agent_turn sample_agent ({}, False)))"
  by (rule pending_requests_are_served [OF sample_pending _ sample_config, where exe = "''/proc/self''"])
    (simp_all add: sample_agent_def)

end
