(* ===== verification/Cli.thy ===== *)
theory Cli
  imports Flags Identity Server Client Luks_Agent
begin

text \<open>
  The command line (\<^verbatim>\<open>Execute\<close> of \<^verbatim>\<open>main.go\<close>): the flags of every command, what a command
  checks before it starts, and the options with which it starts the server, the client or the
  agent.  A command yields the sequence of its actions.
\<close>

section \<open>Flags\<close>

record ServerFlags =
  serverCert :: string
  serverKey :: string
  serverSeed :: string
  serverSocks :: bool
  serverShell :: bool
  serverCommand :: string
  serverProxyProtocol :: bool
  serverRelay :: string
  serverDiscovery :: string
  serverForward :: string
  serverReverseForward :: string
  serverDirectPort :: int
  serverAuthorizedClients :: string
  serverLogLevel :: string
  serverLogFormat :: string
  serverTOTP :: bool
  serverTOTPSecret :: string
  serverAnnounceInterval :: int
  serverHelp :: bool

record ClientFlags =
  clientCert :: string
  clientKey :: string
  clientSeed :: string
  clientSocks :: string
  clientShell :: bool
  clientReverseForward :: string
  clientRelay :: string
  clientDiscovery :: string
  clientTryDirect :: bool
  clientLogLevel :: string
  clientLogFormat :: string
  clientTOTP :: string
  clientHelp :: bool

record IdFlags =
  idSeed :: string
  idHelp :: bool

definition DefaultAnnounceInterval :: int where
  "DefaultAnnounceInterval = 30 * 60 * 10 ^ 9"

definition DefaultDiscoveryURL :: string where
  "DefaultDiscoveryURL = ''https://discovery-lookup.syncthing.net/v2/''"

definition server_defaults :: ServerFlags where
  "server_defaults = \<lparr>serverCert = [], serverKey = [], serverSeed = [], serverSocks = False, serverShell = False,
     serverCommand = [], serverProxyProtocol = False, serverRelay = ''dynamic+https://relays.syncthing.net/endpoint'',
     serverDiscovery = ''https://discovery-announce-v4.syncthing.net/v2/?nolookup,https://discovery-announce-v6.syncthing.net/v2/?nolookup'',
     serverForward = [], serverReverseForward = [], serverDirectPort = 0, serverAuthorizedClients = [],
     serverLogLevel = ''info'', serverLogFormat = ''auto'', serverTOTP = False, serverTOTPSecret = [],
     serverAnnounceInterval = DefaultAnnounceInterval, serverHelp = False\<rparr>"

definition server_flags :: "ServerFlags flag_set" where
  "server_flags =
     [(''cert'', FString (\<lambda>v f. f \<lparr>serverCert := v\<rparr>)), (''key'', FString (\<lambda>v f. f \<lparr>serverKey := v\<rparr>)),
      (''seed'', FString (\<lambda>v f. f \<lparr>serverSeed := v\<rparr>)), (''socks'', FBool (\<lambda>v f. f \<lparr>serverSocks := v\<rparr>)),
      (''shell'', FBool (\<lambda>v f. f \<lparr>serverShell := v\<rparr>)), (''command'', FString (\<lambda>v f. f \<lparr>serverCommand := v\<rparr>)),
      (''proxy-protocol'', FBool (\<lambda>v f. f \<lparr>serverProxyProtocol := v\<rparr>)), (''relay'', FString (\<lambda>v f. f \<lparr>serverRelay := v\<rparr>)),
      (''discovery'', FString (\<lambda>v f. f \<lparr>serverDiscovery := v\<rparr>)), (''forward'', FString (\<lambda>v f. f \<lparr>serverForward := v\<rparr>)),
      (''reverse-forward'', FString (\<lambda>v f. f \<lparr>serverReverseForward := v\<rparr>)),
      (''direct-port'', FInt (\<lambda>v f. f \<lparr>serverDirectPort := v\<rparr>)),
      (''authorized-clients'', FString (\<lambda>v f. f \<lparr>serverAuthorizedClients := v\<rparr>)),
      (''log-level'', FString (\<lambda>v f. f \<lparr>serverLogLevel := v\<rparr>)), (''log-format'', FString (\<lambda>v f. f \<lparr>serverLogFormat := v\<rparr>)),
      (''totp'', FBool (\<lambda>v f. f \<lparr>serverTOTP := v\<rparr>)), (''totp-secret'', FString (\<lambda>v f. f \<lparr>serverTOTPSecret := v\<rparr>)),
      (''announce-interval'', FDuration (\<lambda>v f. f \<lparr>serverAnnounceInterval := v\<rparr>)),
      (''help'', FBool (\<lambda>v f. f \<lparr>serverHelp := v\<rparr>))]"

definition client_defaults :: ClientFlags where
  "client_defaults = \<lparr>clientCert = [], clientKey = [], clientSeed = [], clientSocks = [], clientShell = False,
     clientReverseForward = [], clientRelay = [], clientDiscovery = DefaultDiscoveryURL, clientTryDirect = True,
     clientLogLevel = ''info'', clientLogFormat = ''auto'', clientTOTP = [], clientHelp = False\<rparr>"

definition client_flags :: "ClientFlags flag_set" where
  "client_flags =
     [(''cert'', FString (\<lambda>v f. f \<lparr>clientCert := v\<rparr>)), (''key'', FString (\<lambda>v f. f \<lparr>clientKey := v\<rparr>)),
      (''seed'', FString (\<lambda>v f. f \<lparr>clientSeed := v\<rparr>)), (''socks'', FString (\<lambda>v f. f \<lparr>clientSocks := v\<rparr>)),
      (''shell'', FBool (\<lambda>v f. f \<lparr>clientShell := v\<rparr>)),
      (''reverse-forward'', FString (\<lambda>v f. f \<lparr>clientReverseForward := v\<rparr>)),
      (''relay'', FString (\<lambda>v f. f \<lparr>clientRelay := v\<rparr>)), (''discovery'', FString (\<lambda>v f. f \<lparr>clientDiscovery := v\<rparr>)),
      (''direct'', FBool (\<lambda>v f. f \<lparr>clientTryDirect := v\<rparr>)), (''log-level'', FString (\<lambda>v f. f \<lparr>clientLogLevel := v\<rparr>)),
      (''log-format'', FString (\<lambda>v f. f \<lparr>clientLogFormat := v\<rparr>)),
      (''totp-passcode'', FString (\<lambda>v f. f \<lparr>clientTOTP := v\<rparr>)), (''help'', FBool (\<lambda>v f. f \<lparr>clientHelp := v\<rparr>))]"

definition id_flags :: "IdFlags flag_set" where
  "id_flags = [(''seed'', FString (\<lambda>v f. f \<lparr>idSeed := v\<rparr>)), (''help'', FBool (\<lambda>v f. f \<lparr>idHelp := v\<rparr>))]"

section \<open>Surroundings and actions\<close>

text \<open>Certificates on disk and in memory, random secrets, and how the server, the client, the
  installation and the agent end.\<close>

record cli_world =
  cli_lib :: cert_lib
  cli_zone :: zone
  cli_uni :: "string \<Rightarrow> string"
  cli_exists :: "string \<Rightarrow> bool"
  cli_load :: "string \<Rightarrow> string \<Rightarrow> gerror + tls_cert"
  cli_new :: "string \<Rightarrow> string \<Rightarrow> gerror + tls_cert"
  cli_memory :: "string \<Rightarrow> gerror + tls_cert"
  cli_totp :: "gerror + string"
  server_end :: "gerror option"
  client_end :: "gerror option"
  cli_service :: service_calls
  agent_end :: "gerror option"

datatype cli_action =
    SetupProxy | SetupLogging string string | ReserveStdout | ShowTOTP string
  | StartServer tls_cert run_opts | StartClient tls_cert ClientOptions | StartAgent | Installed "string list"
  | Say string | ShowHelp | Panic | CExit nat

definition exit_on :: "gerror option \<Rightarrow> cli_action list" where
  "exit_on e = (case e of None \<Rightarrow> [] | Some _ \<Rightarrow> [CExit 1])"

definition loadOrGenerateCert :: "cli_world \<Rightarrow> string \<Rightarrow> string \<Rightarrow> gerror + tls_cert" where
  "loadOrGenerateCert w certPath keyPath =
     (if cli_exists w certPath \<and> cli_exists w keyPath then cli_load w certPath keyPath else cli_new w certPath keyPath)"

text \<open>The certificate of a command; \<open>None\<close> when only one of the two files is named.\<close>

definition command_cert :: "cli_world \<Rightarrow> string \<Rightarrow> string \<Rightarrow> string \<Rightarrow> string \<Rightarrow> string \<Rightarrow> (gerror + tls_cert) option" where
  "command_cert w seed sfx certPath keyPath memoryName =
     (if seed \<noteq> [] then Some (GenerateDeterministicCert (cli_lib w) (cli_zone w) (seed @ sfx))
      else if certPath \<noteq> [] \<and> keyPath \<noteq> [] then Some (loadOrGenerateCert w certPath keyPath)
      else if certPath = [] \<and> keyPath = [] then Some (cli_memory w memoryName)
      else None)"

section \<open>The server command\<close>

definition comma_list :: "string \<Rightarrow> string list" where
  "comma_list s = filter (\<lambda>x. x \<noteq> []) (map TrimSpace (Split s (CHR '','')))"

fun parse_ids :: "(string \<Rightarrow> string) \<Rightarrow> string list \<Rightarrow> gerror + device_id list" where
  "parse_ids uni [] = Inr []"
| "parse_ids uni (s # ss) =
     (case DeviceIDFromString uni s of
        Inl e \<Rightarrow> Inl e
      | Inr i \<Rightarrow> (case parse_ids uni ss of Inl e \<Rightarrow> Inl e | Inr ids \<Rightarrow> Inr (i # ids)))"

definition server_modes :: "ServerFlags \<Rightarrow> bool list" where
  "server_modes f = [serverSocks f, serverShell f, serverCommand f \<noteq> [], serverForward f \<noteq> [], serverReverseForward f \<noteq> []]"

definition modes_on :: "bool list \<Rightarrow> nat" where
  "modes_on ms = length (filter id ms)"

definition server_options :: "ServerFlags \<Rightarrow> device_id list \<Rightarrow> string \<Rightarrow> run_opts" where
  "server_options f ids secret =
     \<lparr>ro_server = \<lparr>isSocks = serverSocks f, isShell = serverShell f, isCommand = serverCommand f,
        so_reverseForward = serverReverseForward f, forwardAddr = serverForward f, proxyProtocol = serverProxyProtocol f,
        authorizedClients = ids, totpSecret = secret\<rparr>,
      relayURI = serverRelay f, discoveryServers = comma_list (serverDiscovery f),
      directPort = serverDirectPort f, announceInterval = serverAnnounceInterval f\<rparr>"

text \<open>The part after the certificate.\<close>

definition start_server :: "cli_world \<Rightarrow> ServerFlags \<Rightarrow> tls_cert \<Rightarrow> cli_action list" where
  "start_server w f cert =
     (case parse_ids (cli_uni w) (comma_list (serverAuthorizedClients f)) of
        Inl e \<Rightarrow> [CExit 1]
      | Inr ids \<Rightarrow>
          (case (if serverTOTP f \<and> serverTOTPSecret f = [] then cli_totp w else Inr (serverTOTPSecret f)) of
             Inl e \<Rightarrow> [CExit 1]
           | Inr secret \<Rightarrow>
               (if secret \<noteq> [] then [ShowTOTP secret] else []) @
               StartServer cert (server_options f ids secret) # exit_on (server_end w)))"

definition server_command :: "cli_world \<Rightarrow> ServerFlags \<Rightarrow> string list \<Rightarrow> cli_action list" where
  "server_command w f args =
     SetupLogging (serverLogLevel f) (serverLogFormat f) #
     (if modes_on (server_modes f) > 1 then [CExit 1]
      else
        (if modes_on (server_modes f) = 0 then [ReserveStdout] else []) @
        (case command_cert w (serverSeed f) CertSuffixServer (serverCert f) (serverKey f) ''syncthing-socket-server'' of
           None \<Rightarrow> [CExit 1]
         | Some (Inl e) \<Rightarrow> [CExit 1]
         | Some (Inr cert) \<Rightarrow> start_server w f cert))"

section \<open>The client command\<close>

definition client_modes :: "ClientFlags \<Rightarrow> bool list" where
  "client_modes f = [clientSocks f \<noteq> [], clientShell f, clientReverseForward f \<noteq> []]"

text \<open>The target names the server and, after an at sign, the relay.\<close>

definition parse_target :: "ClientFlags \<Rightarrow> string \<Rightarrow> string \<times> string" where
  "parse_target f target =
     (case Cut target ''@'' of
        (serverID, relay, True) \<Rightarrow> (serverID, relay)
      | (_, _, False) \<Rightarrow> (target, clientRelay f))"

text \<open>The identifier that the seed stands for; \<open>None\<close> is the panic of an empty list of certificates.\<close>

definition derived_id :: "cli_world \<Rightarrow> string \<Rightarrow> string option" where
  "derived_id w seed =
     (case GenerateDeterministicCert (cli_lib w) (cli_zone w) (seed @ CertSuffixServer) of
        Inl e \<Rightarrow> None
      | Inr c \<Rightarrow> (case Certificate c of [] \<Rightarrow> None | der # _ \<Rightarrow> Some (DeviceID_String (NewDeviceID (cl_sha256 (cli_lib w)) der))))"

definition client_options :: "ClientFlags \<Rightarrow> string \<Rightarrow> string \<Rightarrow> ClientOptions" where
  "client_options f serverID relay =
     \<lparr>ServerID = serverID, RelayURI = relay, DiscoveryServer = clientDiscovery f, TryDirect = clientTryDirect f,
      Socks = clientSocks f, Shell = clientShell f, co_ReverseForward = clientReverseForward f, TOTPPasscode = clientTOTP f\<rparr>"

definition start_client :: "cli_world \<Rightarrow> ClientFlags \<Rightarrow> string \<Rightarrow> string \<Rightarrow> cli_action list" where
  "start_client w f serverID relay =
     (case command_cert w (clientSeed f) CertSuffixClient (clientCert f) (clientKey f) ''syncthing-socket-client'' of
        None \<Rightarrow> [CExit 1]
      | Some (Inl e) \<Rightarrow> [CExit 1]
      | Some (Inr cert) \<Rightarrow> StartClient cert (client_options f serverID relay) # exit_on (client_end w))"

definition client_command :: "cli_world \<Rightarrow> ClientFlags \<Rightarrow> string list \<Rightarrow> cli_action list" where
  "client_command w f args =
     SetupLogging (clientLogLevel f) (clientLogFormat f) #
     (if modes_on (client_modes f) > 1 then [CExit 1]
      else
        (if modes_on (client_modes f) = 0 then [ReserveStdout] else []) @
        (if clientSeed f = [] \<and> args = [] then [CExit 1]
         else
           let target = (if args = [] then [] else hd args);
               (serverID, relay) = parse_target f target
           in if clientSeed f = [] then start_client w f serverID relay
              else case derived_id w (clientSeed f) of
                     None \<Rightarrow> [Panic]
                   | Some derivedID \<Rightarrow> start_client w f (if serverID = [] then derivedID else serverID) relay))"

section \<open>The other commands\<close>

definition id_command :: "cli_world \<Rightarrow> IdFlags \<Rightarrow> string list \<Rightarrow> cli_action list" where
  "id_command w f args =
     (if idSeed f = [] then [CExit 1]
      else
        let gen = (\<lambda>sfx. GenerateDeterministicCert (cli_lib w) (cli_zone w) (idSeed f @ sfx));
            show_id = (\<lambda>c. DeviceID_String (NewDeviceID (cl_sha256 (cli_lib w)) (hd (Certificate c))))
        in case gen CertSuffixServer of
             Inl e \<Rightarrow> [CExit 1]
           | Inr sc \<Rightarrow>
               (case gen CertSuffixClient of
                  Inl e \<Rightarrow> [CExit 1]
                | Inr cc \<Rightarrow> [Say (''Server ID: '' @ show_id sc @ [CHR 0x0A]), Say (''Client ID: '' @ show_id cc @ [CHR 0x0A])]))"

definition install_command :: "cli_world \<Rightarrow> string list \<Rightarrow> cli_action list" where
  "install_command w args =
     (case runInstallService (cli_service w) args of
        Inl e \<Rightarrow> [Say (err_msg e @ [CHR 0x0A]), CExit 1]
      | Inr argv \<Rightarrow> [Installed argv])"

definition agent_command :: "cli_world \<Rightarrow> cli_action list" where
  "agent_command w = SetupLogging ''info'' ''text'' # StartAgent # exit_on (agent_end w)"

text \<open>A command as the command library runs it: flags first, then help, then the number of arguments.\<close>

definition with_flags ::
  "'r flag_set \<Rightarrow> 'r \<Rightarrow> ('r \<Rightarrow> bool) \<Rightarrow> nat option \<Rightarrow> ('r \<Rightarrow> string list \<Rightarrow> cli_action list) \<Rightarrow> string list \<Rightarrow> cli_action list" where
  "with_flags table defaults help max_args run args =
     (case parseArgs table args defaults [] of
        Inl e \<Rightarrow> [CExit 1]
      | Inr (f, pos) \<Rightarrow>
          if help f then [ShowHelp]
          else if (case max_args of None \<Rightarrow> False | Some n \<Rightarrow> n < length pos) then [CExit 1]
          else run f pos)"

text \<open>The command line after the program's name, for the five commands of the program; the rest
  (the help texts, the version and the completion scripts) is the command library's.\<close>

definition Execute :: "cli_world \<Rightarrow> string \<Rightarrow> string list \<Rightarrow> cli_action list option" where
  "Execute w cmd args =
     map_option (Cons SetupProxy)
       (if cmd = ''server'' then Some (with_flags server_flags server_defaults serverHelp None (server_command w) args)
        else if cmd = ''client'' then Some (with_flags client_flags client_defaults clientHelp (Some 1) (client_command w) args)
        else if cmd = ''id'' then Some (with_flags id_flags \<lparr>idSeed = [], idHelp = False\<rparr> idHelp None (id_command w) args)
        else if cmd = ''install-service'' then Some (install_command w args)
        else if cmd = ''luks-agent'' then
          Some (with_flags [(''help'', FBool (\<lambda>v f. v))] False id (Some 0) (\<lambda>f pos. agent_command w) args)
        else None)"

section \<open>Reading flags\<close>

definition flag_name :: "string \<Rightarrow> bool" where
  "flag_name name \<longleftrightarrow> name \<noteq> [] \<and> CHR ''='' \<notin> set name \<and> hd name \<noteq> CHR ''-''"

lemma Cut_none: "c \<notin> set s \<Longrightarrow> Cut s [c] = (s, [], False)"
  by (simp add: Cut_char)

lemma parse_long_value:
  assumes "map_of table name = Some fl" and "takes_value fl" and "flag_name name"
  shows "parseArgs table ((CHR ''-'' # CHR ''-'' # name) # v # args) r pos =
    (case set_flag name fl v r of Inl e \<Rightarrow> Inl e | Inr r' \<Rightarrow> parseArgs table args r' pos)"
proof -
  have "hd name \<noteq> CHR ''=''" using assms(3) by (metis flag_name_def hd_in_set)
  then have "parseLongArg table (CHR ''-'' # CHR ''-'' # name) (v # args) r = map_sum id (Pair args) (set_flag name fl v r)"
    using assms by (simp add: parseLongArg_def flag_name_def Cut_none)
  then show ?thesis
    using assms(3) by (subst parseArgs.simps) (simp add: flag_name_def split: sum.splits)
qed

lemma parse_string_flag:
  assumes "map_of table name = Some (FString put)" and "flag_name name"
  shows "parseArgs table ((CHR ''-'' # CHR ''-'' # name) # v # args) r pos = parseArgs table args (put v r) pos"
  using parse_long_value [OF assms(1) _ assms(2)] by (simp add: set_flag_def)

lemma parse_positional: "s = [] \<or> hd s \<noteq> CHR ''-'' \<Longrightarrow> parseArgs table (s # args) r pos = parseArgs table args r (pos @ [s])"
  by (cases s) (simp_all add: parseArgs.simps)

lemma minute: "ParseDuration ''1m0s'' = Some 60000000000"
proof -
  have p: "duration_part ''1m0s'' = Some (60000000000, ''0s'')" "duration_part ''0s'' = Some (0, [])"
    by (simp_all add: duration_part_def is_dec_def dec_value_def unit_value_def)
  show ?thesis by (simp add: ParseDuration_def p)
qed

lemma server_flag_of:
  "map_of server_flags ''seed'' = Some (FString (\<lambda>v f. f \<lparr>serverSeed := v\<rparr>))"
  "map_of server_flags ''log-level'' = Some (FString (\<lambda>v f. f \<lparr>serverLogLevel := v\<rparr>))"
  "map_of server_flags ''authorized-clients'' = Some (FString (\<lambda>v f. f \<lparr>serverAuthorizedClients := v\<rparr>))"
  "map_of server_flags ''announce-interval'' = Some (FDuration (\<lambda>v f. f \<lparr>serverAnnounceInterval := v\<rparr>))"
  by (simp_all add: server_flags_def)

lemma client_flag_of:
  "map_of client_flags ''seed'' = Some (FString (\<lambda>v f. f \<lparr>clientSeed := v\<rparr>))"
  "map_of client_flags ''log-level'' = Some (FString (\<lambda>v f. f \<lparr>clientLogLevel := v\<rparr>))"
  by (simp_all add: client_flags_def)

lemma flag_names:
  "flag_name ''seed''" "flag_name ''log-level''" "flag_name ''authorized-clients''" "flag_name ''announce-interval''"
  by (simp_all add: flag_name_def)

lemma parse_server_args:
  "parseArgs server_flags [''--seed'', s, ''--log-level'', ''error'', ''--authorized-clients'', k, ''--announce-interval'', ''1m0s'']
     server_defaults [] =
   Inr (server_defaults \<lparr>serverSeed := s, serverLogLevel := ''error'', serverAuthorizedClients := k,
          serverAnnounceInterval := 60000000000\<rparr>, [])"
  by (simp add: parse_string_flag [OF server_flag_of(1) flag_names(1)] parse_string_flag [OF server_flag_of(2) flag_names(2)]
      parse_string_flag [OF server_flag_of(3) flag_names(3)] parse_long_value [OF server_flag_of(4) _ flag_names(4)]
      set_flag_def minute)

lemma parse_client_args:
  assumes "k = [] \<or> hd k \<noteq> CHR ''-''"
  shows "parseArgs client_flags [''--seed'', s, ''--log-level'', ''error'', k] client_defaults [] =
      Inr (client_defaults \<lparr>clientSeed := s, clientLogLevel := ''error''\<rparr>, [k])"
    and "parseArgs client_flags [''--seed'', s, ''--log-level'', ''error''] client_defaults [] =
      Inr (client_defaults \<lparr>clientSeed := s, clientLogLevel := ''error''\<rparr>, [])"
  using assms
  by (simp_all add: parse_string_flag [OF client_flag_of(1) flag_names(1)] parse_string_flag [OF client_flag_of(2) flag_names(2)]
      parse_positional)

lemma server_default_fields [simp]:
  "serverHelp server_defaults = False" "serverCert server_defaults = []" "serverKey server_defaults = []"
  "serverSocks server_defaults = False" "serverShell server_defaults = False" "serverCommand server_defaults = []"
  "serverForward server_defaults = []" "serverReverseForward server_defaults = []" "serverTOTP server_defaults = False"
  "serverTOTPSecret server_defaults = []" "serverAuthorizedClients server_defaults = []"
  "serverLogLevel server_defaults = ''info''" "serverLogFormat server_defaults = ''auto''"
  by (simp_all add: server_defaults_def)

lemma client_default_fields [simp]:
  "clientHelp client_defaults = False" "clientSocks client_defaults = []" "clientShell client_defaults = False"
  "clientReverseForward client_defaults = []" "clientRelay client_defaults = []"
  "clientLogLevel client_defaults = ''info''" "clientLogFormat client_defaults = ''auto''"
  by (simp_all add: client_defaults_def)

section \<open>What the agent starts\<close>

lemma comma_list_one: "CHR '','' \<notin> set k \<Longrightarrow> TrimSpace k \<noteq> [] \<Longrightarrow> comma_list k = [TrimSpace k]"
  by (simp add: comma_list_def Split_single)

lemma comma_list_Nil [simp]: "comma_list [] = []"
  by (simp add: comma_list_def TrimSpace_tight tight_def)

text \<open>the agent of a waiting machine starts a server that admits nobody but the configured key
  holder: the arguments of the transfer are read back as the identity that the seed stands for,
  a list of one authorized client, the plain mode with its reserved output, and an
  announcement every minute.\<close>

lemma agent_server_options:
  assumes "transfer_args cfg = Some (cmd # args)" and "lc_Role cfg = ''server''" and "lc_Seed cfg \<noteq> []"
    and "CHR '','' \<notin> set (lc_KeyHolderDeviceID cfg)" and "TrimSpace (lc_KeyHolderDeviceID cfg) \<noteq> []"
    and "lc_KeyHolderDeviceID cfg \<noteq> []"
    and "DeviceIDFromString (cli_uni w) (TrimSpace (lc_KeyHolderDeviceID cfg)) = Inr keyHolder"
    and "GenerateDeterministicCert (cli_lib w) (cli_zone w) (lc_Seed cfg @ ''server'') = Inr cert"
  shows "\<exists>opts. Execute w cmd args = Some ([SetupProxy, SetupLogging ''error'' ''auto'', ReserveStdout, StartServer cert opts]
      @ exit_on (server_end w))
    \<and> authorizedClients (ro_server opts) = [keyHolder] \<and> announceInterval opts = 60 * 10 ^ 9
    \<and> \<not> isSocks (ro_server opts) \<and> \<not> isShell (ro_server opts) \<and> isCommand (ro_server opts) = []
    \<and> forwardAddr (ro_server opts) = [] \<and> so_reverseForward (ro_server opts) = []"
proof -
  let ?k = "lc_KeyHolderDeviceID cfg"
  let ?f = "server_defaults \<lparr>serverSeed := lc_Seed cfg, serverLogLevel := ''error'', serverAuthorizedClients := ?k,
      serverAnnounceInterval := 60000000000\<rparr>"
  have a: "cmd = ''server''" "args = [''--seed'', lc_Seed cfg, ''--log-level'', ''error'', ''--authorized-clients'', ?k,
      ''--announce-interval'', ''1m0s'']"
    using assms(1,2,6) by (auto simp: transfer_args_def Let_def)
  have i: "parse_ids (cli_uni w) (comma_list ?k) = Inr [keyHolder]"
    using assms(4,5,7) by (simp add: comma_list_one)
  have e: "Execute w cmd args = Some ([SetupProxy, SetupLogging ''error'' ''auto'', ReserveStdout,
      StartServer cert (server_options ?f [keyHolder] [])] @ exit_on (server_end w))"
    using assms(3,8) unfolding a
    by (simp add: Execute_def with_flags_def parse_server_args server_command_def start_server_def i
         server_modes_def modes_on_def command_cert_def CertSuffixServer_def)
  show ?thesis
    by (rule exI [of _ "server_options ?f [keyHolder] []"]) (use e in \<open>simp add: server_options_def \<close>)
qed

text \<open>the agent of a machine that dials out starts a client for the configured key holder, or
  for the server that the seed stands for when none is configured.\<close>

theorem agent_client_dials_key_holder:
  assumes "transfer_args cfg = Some (cmd # args)" and "lc_Role cfg = ''client''" and "lc_Seed cfg \<noteq> []"
    and "lc_KeyHolderDeviceID cfg = [] \<or> hd (lc_KeyHolderDeviceID cfg) \<noteq> CHR ''-''"
    and "CHR ''@'' \<notin> set (lc_KeyHolderDeviceID cfg)"
    and "GenerateDeterministicCert (cli_lib w) (cli_zone w) (lc_Seed cfg @ ''client'') = Inr cert"
    and "derived_id w (lc_Seed cfg) = Some derivedID"
  shows "\<exists>opts. Execute w cmd args = Some ([SetupProxy, SetupLogging ''error'' ''auto'', ReserveStdout, StartClient cert opts]
      @ exit_on (client_end w))
    \<and> ServerID opts = (if lc_KeyHolderDeviceID cfg = [] then derivedID else lc_KeyHolderDeviceID cfg)
    \<and> RelayURI opts = [] \<and> client_service_of opts = PipeClient"
proof -
  let ?k = "lc_KeyHolderDeviceID cfg"
  let ?f = "client_defaults \<lparr>clientSeed := lc_Seed cfg, clientLogLevel := ''error''\<rparr>"
  let ?o = "client_options ?f (if ?k = [] then derivedID else ?k) []"
  have a: "cmd = ''client''" "args = [''--seed'', lc_Seed cfg, ''--log-level'', ''error''] @ (if ?k = [] then [] else [?k])"
    using assms(1,2) by (auto simp: transfer_args_def Let_def)
  have p: "parse_target ?f ?k = (?k, [])" "parse_target ?f [] = ([], [])"
    using assms(5) by (simp_all add: parse_target_def Cut_none )
  have "Execute w cmd args = Some ([SetupProxy, SetupLogging ''error'' ''auto'', ReserveStdout, StartClient cert ?o]
      @ exit_on (client_end w))"
    using assms(3,6,7) parse_client_args [OF assms(4)] p unfolding a
    by (cases "?k = []") (simp_all add: Execute_def with_flags_def client_command_def start_client_def
         client_modes_def modes_on_def command_cert_def CertSuffixClient_def)
  then show ?thesis
    by (intro exI [of _ ?o]) (simp add: client_options_def  client_service_of_def)
qed


section \<open>Modes, lists and printed commands\<close>

definition option_modes :: "server_opts \<Rightarrow> bool list" where
  "option_modes so = [isSocks so, isShell so, isCommand so \<noteq> [], forwardAddr so \<noteq> [], so_reverseForward so \<noteq> []]"

text \<open>whatever the command line is, a server that starts has at most one mode, and its output
  was reserved for the payload when it has none.\<close>

theorem server_has_at_most_one_mode:
  assumes "Execute w ''server'' args = Some acts" and "StartServer cert opts \<in> set acts"
  shows "modes_on (option_modes (ro_server opts)) \<le> 1
    \<and> (modes_on (option_modes (ro_server opts)) = 0 \<longleftrightarrow> ReserveStdout \<in> set acts)"
proof -
  obtain f pos where f: "acts = SetupProxy # server_command w f pos"
    using assms by (auto simp: Execute_def with_flags_def split: sum.splits if_splits)
  obtain c where one: "\<not> modes_on (server_modes f) > 1" and s: "StartServer cert opts \<in> set (start_server w f c)"
    and acts: "set (server_command w f pos) = {SetupLogging (serverLogLevel f) (serverLogFormat f)}
      \<union> (if modes_on (server_modes f) = 0 then {ReserveStdout} else {}) \<union> set (start_server w f c)"
    using assms(2) unfolding f
    by (auto simp: server_command_def exit_on_def split: if_splits option.splits sum.splits)
  have m: "option_modes (ro_server opts) = server_modes f" and "ReserveStdout \<notin> set (start_server w f c)"
    using s by (auto simp: start_server_def option_modes_def server_modes_def server_options_def exit_on_def
        split: sum.splits if_splits option.splits)
  then show ?thesis unfolding m f using one acts by auto
qed

text \<open>The command that the server prints for its clients is refused by the client: a single dash
  introduces shorthands, and there is none for the relay.\<close>

lemma printed_command_is_refused: "Execute w ''client'' (''-relay'' # args) = Some [SetupProxy, CExit 1]"
  by (simp add: Execute_def with_flags_def parseArgs.simps HasPrefix_def)

text \<open>A list of authorized clients that holds separators only admits everybody.\<close>

lemma separators_admit_everybody: "comma_list '',''  = [] \<and> authorized sha [] certs"
  by (simp add: comma_list_def authorized_def TrimSpace_tight tight_def)

section \<open>Samples\<close>

definition sample_cli :: cli_world where
  "sample_cli = \<lparr>cli_lib = \<lparr>cl_sha256 = (\<lambda>_. replicate 32 7), cl_public = id, cl_create = (\<lambda>rnd t p pub priv. Inr pub)\<rparr>,
     cli_zone = utc_zone, cli_uni = id, cli_exists = (\<lambda>_. False), cli_load = (\<lambda>_ _. Inl EOF), cli_new = (\<lambda>_ _. Inl EOF),
     cli_memory = (\<lambda>_. Inl EOF), cli_totp = Inl EOF, server_end = None, client_end = None,
     cli_service = \<lparr>svc_new = None, svc_install = None, svc_start = None\<rparr>, agent_end = None\<rparr>"

definition sample_key_holder :: string where
  "sample_key_holder = ''A4DQOBY-HA4DQOC-BYHA4DQ-OBYHA4E-DQOBYHA-4DQOBYB-HA4DQOB-YHA4DQA''"

definition sample_unlock :: "string \<Rightarrow> luksConfig" where
  "sample_unlock role = \<lparr>lc_Device = [], lc_Seed = ''s'', lc_KeyHolderDeviceID = sample_key_holder, lc_Role = role\<rparr>"

lemma sample_key_holder_id: "DeviceIDFromString id sample_key_holder = Inr (replicate 32 7)"
proof -
  have "DeviceID_String (replicate 32 7) = sample_key_holder" by code_simp
  then show ?thesis using DeviceIDFromString_String [of "replicate 32 7" id] by (simp add: DeviceIDLength_def)
qed

lemma sample_certs:
  "GenerateDeterministicCert (cli_lib sample_cli) (cli_zone sample_cli) s =
    Inr \<lparr>Certificate = [replicate 32 7], PrivateKey = replicate 32 7\<rparr>"
  by (simp add: GenerateDeterministicCert_def sample_cli_def Let_def)

lemma sample_ends: "exit_on (server_end sample_cli) = []" "exit_on (client_end sample_cli) = []"
  "cl_sha256 (cli_lib sample_cli) b = replicate 32 7"
  by (simp_all add: sample_cli_def exit_on_def)

theorem agent_client_dials_key_holder_witness:
  "\<exists>acts cert opts. Execute sample_cli ''client'' [''--seed'', ''s'', ''--log-level'', ''error'', sample_key_holder] = Some acts
    \<and> StartClient cert opts \<in> set acts \<and> ServerID opts = sample_key_holder"
proof -
  have a: "transfer_args (sample_unlock ''client'') = Some [''client'', ''--seed'', ''s'', ''--log-level'', ''error'', sample_key_holder]"
    by (simp add: transfer_args_def sample_unlock_def sample_key_holder_def)
  have d: "\<exists>i. derived_id sample_cli ''s'' = Some i"
    using sample_certs by (simp add: derived_id_def)
  then obtain i where i: "derived_id sample_cli (lc_Seed (sample_unlock ''client'')) = Some i"
    by (auto simp: sample_unlock_def)
  have "lc_KeyHolderDeviceID (sample_unlock ''client'') = sample_key_holder" by (simp add: sample_unlock_def)
  then show ?thesis
    using agent_client_dials_key_holder [OF a _ _ _ _ sample_certs i]
    by (auto simp: sample_unlock_def sample_key_holder_def sample_ends)
qed


theorem server_has_at_most_one_mode_witness:
  "modes_on (option_modes (ro_server (server_options (server_defaults \<lparr>serverSeed := ''s''\<rparr>) [] []))) \<le> 1"
proof -
  have "Execute sample_cli ''server'' [''--seed'', ''s''] =
      Some [SetupProxy, SetupLogging ''info'' ''auto'', ReserveStdout,
        StartServer \<lparr>Certificate = [replicate 32 7], PrivateKey = replicate 32 7\<rparr> (server_options (server_defaults \<lparr>serverSeed := ''s''\<rparr>) [] [])]"
    using parse_string_flag [OF server_flag_of(1) flag_names(1), of "''s''" "[]"] sample_certs
    by (simp add: Execute_def with_flags_def server_command_def start_server_def
        server_modes_def modes_on_def command_cert_def CertSuffixServer_def exit_on_def sample_cli_def)
  from server_has_at_most_one_mode [OF this] show ?thesis by auto
qed

end
