(* ===== verification/Mobile.thy ===== *)
theory Mobile
  imports Cli
begin

text \<open>
  The bridge for the phone application (\<^verbatim>\<open>mobile/mobile.go\<close>): unlocking through a client run
  whose standard input is a pipe, the categories of errors, and the status that is derived from
  the discovery record.  Times are nanoseconds.
\<close>

section \<open>Unlocking\<close>

record mobile_world =
  mw_pipe :: "gerror option"
  mw_lib :: cert_lib
  mw_zone :: zone
  mw_client :: client_world

text \<open>The passphrase is written by a goroutine of its own, so its place among the effects of the
  client is not determined; standard input is restored in any case.\<close>

datatype mobile_effect = StdinPiped | PassphraseFed string | ClientDid client_effect | StdinRestored

definition unlock_options :: "string \<Rightarrow> ClientOptions" where
  "unlock_options serverDeviceID = \<lparr>ServerID = serverDeviceID, RelayURI = [], DiscoveryServer = DefaultDiscoveryURL,
     TryDirect = True, Socks = [], Shell = False, co_ReverseForward = [], TOTPPasscode = []\<rparr>"

text \<open>The pipe that stands in for standard input is no terminal, so the client never asks for a
  one-time password there.\<close>

definition piped_stdin :: "client_link \<Rightarrow> stdin_state" where
  "piped_stdin l = \<lparr>is_terminal = False, read_line = Inl EOF\<rparr>"

definition UnlockLUKS :: "mobile_world \<Rightarrow> string \<Rightarrow> string \<Rightarrow> string \<Rightarrow> gerror option \<times> mobile_effect list" where
  "UnlockLUKS w passphrase p2pKeySeed serverDeviceID =
     (case mw_pipe w of
        Some e \<Rightarrow> (Some (wrap_err ''failed to create pipe'' e), [])
      | None \<Rightarrow>
          (case GenerateDeterministicCert (mw_lib w) (mw_zone w) (p2pKeySeed @ CertSuffixClient) of
             Inl e \<Rightarrow> (Some (wrap_err ''failed to generate cert'' e), [StdinPiped, PassphraseFed passphrase, StdinRestored])
           | Inr cert \<Rightarrow>
               (case RunClient ((mw_client w) \<lparr>cw_stdin := piped_stdin\<rparr>) (unlock_options serverDeviceID) of
                  (err, evs) \<Rightarrow>
                    (case err of
                       None \<Rightarrow> None
                     | Some e \<Rightarrow> if Contains (err_msg e) ''EOF'' then None else Some (wrap_err ''client failed'' e),
                     [StdinPiped, PassphraseFed passphrase] @ map ClientDid evs @ [StdinRestored]))))"

text \<open>The categories of errors.\<close>

definition ErrServerOffline :: string where "ErrServerOffline = ''SERVER_OFFLINE''"
definition ErrServerUnreachable :: string where "ErrServerUnreachable = ''SERVER_UNREACHABLE''"
definition ErrWrongDevice :: string where "ErrWrongDevice = ''WRONG_DEVICE''"
definition ErrNoNetwork :: string where "ErrNoNetwork = ''NO_NETWORK''"
definition ErrRejected :: string where "ErrRejected = ''REJECTED''"
definition ErrUnknown :: string where "ErrUnknown = ''UNKNOWN''"

definition ClassifyUnlockError :: "(string \<Rightarrow> string) \<Rightarrow> string \<Rightarrow> string" where
  "ClassifyUnlockError uni msg =
     (let m = ToLower uni msg
      in if Contains m ''not found in discovery'' then ErrServerOffline
         else if Contains m ''invitation from relay'' \<or> Contains m ''join session'' \<or> Contains m ''not found'' then ErrServerUnreachable
         else if Contains m ''security mismatch'' then ErrWrongDevice
         else if Contains m ''discovery lookup failed'' \<or> Contains m ''no such host'' \<or> Contains m ''dial tcp''
           \<or> Contains m ''network is unreachable'' \<or> Contains m ''timeout'' \<or> Contains m ''deadline exceeded'' then ErrNoNetwork
         else if Contains m ''authentication failed'' \<or> Contains m ''unauthorized'' then ErrRejected
         else ErrUnknown)"

section \<open>Status\<close>

definition StatusWaiting :: string where [simp]: "StatusWaiting = ''WAITING''"
definition StatusStale :: string where [simp]: "StatusStale = ''STALE''"
definition StatusAbsent :: string where [simp]: "StatusAbsent = ''ABSENT''"
definition StatusNoNetwork :: string where [simp]: "StatusNoNetwork = ''NO_NETWORK''"

record ServerStatus =
  State :: string
  AgeSeconds :: int

definition freshRecordAge :: int where
  "freshRecordAge = 150 * 10 ^ 9"

text \<open>\<^verbatim>\<open>time.Since\<close> saturates at the ends of 64-bit integers.\<close>

definition time_since :: "int \<Rightarrow> int \<Rightarrow> int" where
  "time_since now t = max (- (2 ^ 63)) (min (2 ^ 63 - 1) (now - t))"

definition checkAgainst ::
  "(string \<Rightarrow> int option) \<Rightarrow> (string \<Rightarrow> gerror + response) \<Rightarrow> int \<Rightarrow> string \<Rightarrow> string \<Rightarrow> gerror + ServerStatus" where
  "checkAgainst parse_time get now discoveryURL serverDeviceID =
     (if TrimSpace serverDeviceID = [] then Inl (Errorf ''no device ID to look up'')
      else case LookupRecord parse_time get serverDeviceID discoveryURL of
             Inl e \<Rightarrow> Inr \<lparr>State = StatusNoNetwork, AgeSeconds = -1\<rparr>
           | Inr None \<Rightarrow> Inr \<lparr>State = StatusAbsent, AgeSeconds = -1\<rparr>
           | Inr (Some record) \<Rightarrow>
               (case Seen record of
                  None \<Rightarrow> Inr \<lparr>State = StatusStale, AgeSeconds = -1\<rparr>
                | Some seen \<Rightarrow>
                    let age = max 0 (time_since now seen)
                    in Inr \<lparr>State = (if age \<le> freshRecordAge then StatusWaiting else StatusStale), AgeSeconds = age div 10 ^ 9\<rparr>))"

definition CheckServerStatus ::
  "(string \<Rightarrow> int option) \<Rightarrow> (string \<Rightarrow> gerror + response) \<Rightarrow> int \<Rightarrow> string \<Rightarrow> gerror + ServerStatus" where
  "CheckServerStatus parse_time get now serverDeviceID = checkAgainst parse_time get now DefaultDiscoveryURL serverDeviceID"

section \<open>Properties\<close>

lemma client_addresses_stdin: "client_addresses (w \<lparr>cw_stdin := sin\<rparr>) opts i = client_addresses w opts i"
  by (simp add: client_addresses_def)

text \<open>the phone says that a machine is waiting exactly when discovery has a dated record of it that
  is at most two and a half minutes old, so a machine that announces itself every minute may
  miss one announcement; an unreachable discovery server and an unknown machine are told apart.\<close>

theorem status_follows_the_record:
  assumes "TrimSpace i \<noteq> []"
  shows "\<exists>st. checkAgainst parse_time get now url i = Inr st
    \<and> (State st = ''WAITING'' \<longleftrightarrow>
        (\<exists>r seen. LookupRecord parse_time get i url = Inr (Some r) \<and> Seen r = Some seen \<and> now - seen \<le> 150 * 10 ^ 9))
    \<and> (State st = ''NO_NETWORK'' \<longleftrightarrow> (\<exists>e. LookupRecord parse_time get i url = Inl e))
    \<and> (State st = ''ABSENT'' \<longleftrightarrow> LookupRecord parse_time get i url = Inr None)
    \<and> -1 \<le> AgeSeconds st \<and> (AgeSeconds st < 2 ^ 63)"
proof (cases "LookupRecord parse_time get i url")
  case (Inr r)
  note r = this
  show ?thesis
  proof (cases r)
    case (Some rec)
    show ?thesis
    proof (cases "Seen rec")
      case seen: (Some seen)
      define age where "age = max 0 (time_since now seen)"
      have a: "age \<le> 2 ^ 63 - 1" "0 \<le> age" by (simp_all add: age_def time_since_def)
      have "age div 1000000000 \<le> age" using zdiv_mono2 [of age 1 1000000000] a(2) by simp
      then have b: "0 \<le> age div 10 ^ 9" "age div 10 ^ 9 < 2 ^ 63"
        using a by (simp_all add: pos_imp_zdiv_nonneg_iff)
      have "age \<le> freshRecordAge \<longleftrightarrow> now - seen \<le> 150 * 10 ^ 9" by (auto simp: age_def time_since_def freshRecordAge_def)
      then show ?thesis
        using assms r Some seen b by (simp add: checkAgainst_def Let_def flip: age_def)
    qed (use assms r Some in \<open>simp add: checkAgainst_def\<close>)
  qed (use assms r in \<open>simp add: checkAgainst_def\<close>)
qed (use assms in \<open>simp add: checkAgainst_def\<close>)


theorem status_follows_the_record_witness:
  "\<exists>st. checkAgainst (\<lambda>_. None) (\<lambda>_. Inl EOF) 0 ''https://d'' ''ID'' = Inr st
    \<and> (State st = ''NO_NETWORK'' \<longleftrightarrow> (\<exists>e. LookupRecord (\<lambda>_. None :: int option) (\<lambda>_. Inl EOF) ''ID'' ''https://d'' = Inl e))"
  using status_follows_the_record [of "''ID''" "\<lambda>_. None" "\<lambda>_. Inl EOF" 0 "''https://d''"]
  by (auto simp: TrimSpace_tight tight_def ascii_space_def)

definition sample_phone :: mobile_world where
  "sample_phone = \<lparr>mw_pipe = None, mw_lib = sample_cert_lib, mw_zone = utc_zone,
     mw_client = sample_client_world
       \<lparr>cw_get := (\<lambda>_. Inr \<lparr>StatusCode = 200, Body = announce_body [''relay://r:443'']\<rparr>),
        cw_race := (\<lambda>_. Inr (sample_cert_peer [7] []))\<rparr>\<rparr>"


end
