(* ===== verification/Logging.thy ===== *)
theory Logging
  imports Go_Json Net_Util Wire_Format "HOL-Library.Multiset"
begin

text \<open>
  Logging (\<^verbatim>\<open>logging.go\<close>): the choice of level and handler, the line that the console handler
  writes, and the entry that the journal handler sends, down to the datagram that the vendored
  \<^verbatim>\<open>go-systemd\<close> package builds.  Attribute values are given by the text that \<^verbatim>\<open>%v\<close> makes of them.
\<close>

section \<open>Levels\<close>

definition LevelTrace :: int where "LevelTrace = -8"
definition LevelDebug :: int where "LevelDebug = -4"
definition LevelInfo :: int where "LevelInfo = 0"
definition LevelWarn :: int where "LevelWarn = 4"
definition LevelError :: int where "LevelError = 8"

lemmas level_defs = LevelTrace_def LevelDebug_def LevelInfo_def LevelWarn_def LevelError_def

text \<open>\<^verbatim>\<open>slog.Level.String\<close>: the name of the level below, with the distance to it.\<close>

definition level_name :: "int \<Rightarrow> string" where
  "level_name l =
     (let str = (\<lambda>base v. if v = 0 then base else base @ (if 0 \<le> v then ''+'' else []) @ Itoa v)
      in if l < LevelInfo then str ''DEBUG'' (l - LevelDebug)
         else if l < LevelWarn then str ''INFO'' (l - LevelInfo)
         else if l < LevelError then str ''WARN'' (l - LevelWarn)
         else str ''ERROR'' (l - LevelError))"

definition shown_level :: "int \<Rightarrow> string" where
  "shown_level l = (if l \<le> LevelTrace then ''TRACE'' else level_name l)"

record log_record =
  log_time :: string
  log_level :: int
  log_message :: string
  log_attrs :: "(string \<times> string) list"

section \<open>The console\<close>

definition Enabled :: "int \<Rightarrow> int \<Rightarrow> bool" where
  "Enabled handler_level level \<longleftrightarrow> handler_level \<le> level"

definition TextHandler_Handle :: "log_record \<Rightarrow> string" where
  "TextHandler_Handle r =
     log_time r @ '' '' @ ''['' @ shown_level (log_level r) @ ''] '' @ log_message r @
     concat (map (\<lambda>(k, v). '' '' @ k @ ''='' @ v) (log_attrs r)) @ [CHR 0x0A]"

section \<open>The journal\<close>

definition journal_priority :: "int \<Rightarrow> int" where
  "journal_priority l =
     (if l \<le> LevelTrace then 7
      else if l < LevelInfo then 7
      else if l < LevelWarn then 6
      else if l < LevelError then 4
      else 3)"

definition key_char :: "char \<Rightarrow> bool" where
  "key_char c \<longleftrightarrow> (let n = (of_char c :: nat) in 65 \<le> n \<and> n \<le> 90 \<or> 48 \<le> n \<and> n \<le> 57 \<or> c = CHR ''_'')"

text \<open>\<^verbatim>\<open>strings.Map\<close> goes through the text by runes; an invalid byte is a rune of its own.\<close>

function map_key :: "string \<Rightarrow> string" where
  "map_key [] = []"
| "map_key (c # s) = (if key_char c then c else CHR ''_'') # map_key (drop (utf8_len (c # s) - 1) s)"
  by pat_completeness auto
termination by (relation "measure length") auto

definition sanitize_key :: "(string \<Rightarrow> string) \<Rightarrow> string \<Rightarrow> string" where
  "sanitize_key uni key = map_key (ToUpper uni key)"

text \<open>The variables of an entry: a later attribute replaces an earlier one with the same key.\<close>

definition put_var :: "string \<Rightarrow> string \<Rightarrow> (string \<times> string) list \<Rightarrow> (string \<times> string) list" where
  "put_var k v vars = filter (\<lambda>(k', _). k' \<noteq> k) vars @ [(k, v)]"

definition journal_vars :: "(string \<Rightarrow> string) \<Rightarrow> log_record \<Rightarrow> (string \<times> string) list" where
  "journal_vars uni r =
     put_var ''LOG_LEVEL'' (shown_level (log_level r))
       (fold (\<lambda>(k, v). put_var (sanitize_key uni k) v) (log_attrs r) [])"

text \<open>One variable of the datagram: a value with line ends is preceded by its length, in little-endian
  order.\<close>

definition appendVariable :: "string \<times> string \<Rightarrow> string" where
  "appendVariable kv =
     (case kv of (name, v) \<Rightarrow>
        if CHR 0x0A \<in> set v
        then name @ [CHR 0x0A] @ string_of_bytes (rev (put_u64 (of_nat (length v)))) @ v @ [CHR 0x0A]
        else name @ ''='' @ v @ [CHR 0x0A])"

definition journal_fields :: "string \<Rightarrow> int \<Rightarrow> (string \<times> string) list \<Rightarrow> (string \<times> string) list" where
  "journal_fields message priority vars = (''PRIORITY'', Itoa priority) # (''MESSAGE'', message) # vars"

definition JournaldHandler_Enabled :: "int \<Rightarrow> int \<Rightarrow> bool" where
  "JournaldHandler_Enabled handler_level level \<longleftrightarrow> handler_level \<le> level"

text \<open>The variables follow in the order in which Go ranges over a map, which is any order; it is an
  argument of the handler.\<close>

definition JournaldHandler_Handle :: "(string \<Rightarrow> string) \<Rightarrow> ((string \<times> string) list \<Rightarrow> (string \<times> string) list) \<Rightarrow>
    log_record \<Rightarrow> string" where
  "JournaldHandler_Handle uni order r =
     concat (map appendVariable
       (journal_fields (log_message r) (journal_priority (log_level r)) (order (journal_vars uni r))))"

section \<open>Setting up\<close>

datatype handler = JSONHandler int | JournaldHandler int | TextHandler int

definition parse_level :: "(string \<Rightarrow> string) \<Rightarrow> string \<Rightarrow> int" where
  "parse_level uni levelStr =
     (let l = ToLower uni levelStr
      in if l = ''trace'' then LevelTrace else if l = ''debug'' then LevelDebug else if l = ''info'' then LevelInfo
         else if l = ''warn'' then LevelWarn else if l = ''error'' then LevelError else LevelInfo)"

definition setupLogging :: "(string \<Rightarrow> string) \<Rightarrow> env \<Rightarrow> bool \<Rightarrow> string \<Rightarrow> string \<Rightarrow> handler" where
  "setupLogging uni environment journal_enabled levelStr formatStr0 =
     (let level = parse_level uni levelStr;
          formatStr = (if formatStr0 = ''auto''
                       then if Getenv environment ''INVOCATION_ID'' \<noteq> [] \<or> Getenv environment ''JOURNAL_STREAM'' \<noteq> []
                            then ''journald'' else ''text''
                       else formatStr0)
      in if ToLower uni formatStr = ''json'' then JSONHandler level
         else if ToLower uni formatStr = ''journald'' \<and> journal_enabled then JournaldHandler level
         else TextHandler level)"

text \<open>The handlers of the program keep no attributes and no groups of their own.\<close>

definition WithAttrs :: "handler \<Rightarrow> (string \<times> string) list \<Rightarrow> handler" where
  "WithAttrs h attrs = h"

definition WithGroup :: "handler \<Rightarrow> string \<Rightarrow> handler" where
  "WithGroup h name = h"

definition isTraceEnabled :: "handler \<Rightarrow> bool" where
  "isTraceEnabled h =
     (case h of
        JSONHandler l \<Rightarrow> l \<le> LevelTrace
      | JournaldHandler l \<Rightarrow> JournaldHandler_Enabled l LevelTrace
      | TextHandler l \<Rightarrow> Enabled l LevelTrace)"

lemma trace_needs_level_trace:
  "isTraceEnabled (setupLogging uni environment journal_enabled levelStr formatStr) \<longleftrightarrow> ToLower uni levelStr = ''trace''"
  by (simp add: setupLogging_def parse_level_def isTraceEnabled_def Enabled_def JournaldHandler_Enabled_def level_defs Let_def)

section \<open>Reading a journal datagram\<close>

definition get_u64 :: "bytes \<Rightarrow> 64 word" where
  "get_u64 bs = push_bit 32 (ucast (get_u32 bs)) OR ucast (get_u32 (drop 4 bs))"

lemma get_put_u64: "get_u64 (put_u64 w) = w"
proof -
  have "get_u32 (put_u64 w) = ucast (drop_bit 32 w)" "get_u32 (drop 4 (put_u64 w)) = ucast w"
    using get_put_u32 [of "ucast w" "[]"] by (simp_all add: put_u64_def)
  then show ?thesis by (auto intro!: bit_word_eqI simp: get_u64_def bit_simps)
qed

text \<open>The next variable and what follows it, as the journal reads them.\<close>

definition read_variable :: "string \<Rightarrow> ((string \<times> string) \<times> string) option" where
  "read_variable s =
     (let name = takeWhile (\<lambda>c. c \<noteq> CHR ''='' \<and> c \<noteq> CHR 0x0A) s; rest = drop (length name) s
      in case rest of
           [] \<Rightarrow> None
         | c # t \<Rightarrow>
             if c = CHR ''='' then Some ((name, takeWhile (\<lambda>c. c \<noteq> CHR 0x0A) t), drop 1 (dropWhile (\<lambda>c. c \<noteq> CHR 0x0A) t))
             else
               let n = unat (get_u64 (rev (bytes_of_string (take 8 t))))
               in Some ((name, take n (drop 8 t)), drop (n + 9) t))"

definition name_ok :: "string \<Rightarrow> bool" where
  "name_ok name \<longleftrightarrow> name \<noteq> [] \<and> list_all key_char name"

lemma key_char_plain: "key_char c \<Longrightarrow> c \<noteq> CHR ''='' \<and> c \<noteq> CHR 0x0A"
  by (auto simp: key_char_def Let_def)

lemma read_variable_append:
  assumes "name_ok name" and "CHR 0x0A \<in> set v \<Longrightarrow> length v < 2 ^ 64"
  shows "read_variable (appendVariable (name, v) @ s) = Some ((name, v), s)"
proof -
  have n: "takeWhile (\<lambda>c. c \<noteq> CHR ''='' \<and> c \<noteq> CHR 0x0A) (name @ c # t) = name" if "c \<in> {CHR ''='', CHR 0x0A}" for c t
    using assms(1) key_char_plain that by (auto simp: name_ok_def list_all_iff intro!: takeWhile_tail [THEN trans])
  show ?thesis
  proof (cases "CHR 0x0A \<in> set v")
    case True
    have u: "unat (of_nat (length v) :: 64 word) = length v"
      using assms(2) [OF True] by (simp add: unat_of_nat take_bit_nat_eq_self)
    let ?l = "string_of_bytes (rev (put_u64 (of_nat (length v))))"
    have "appendVariable (name, v) @ s = name @ CHR 0x0A # ?l @ v @ CHR 0x0A # s"
      using True by (simp add: appendVariable_def)
    then show ?thesis using n by (simp add: read_variable_def get_put_u64 u)
  next
    case False
    have "takeWhile (\<lambda>c. c \<noteq> CHR 0x0A) (v @ CHR 0x0A # s) = v" "dropWhile (\<lambda>c. c \<noteq> CHR 0x0A) (v @ CHR 0x0A # s) = CHR 0x0A # s"
      using False by (induction v) auto
    moreover have "appendVariable (name, v) @ s = name @ CHR ''='' # v @ CHR 0x0A # s"
      using False by (simp add: appendVariable_def)
    ultimately show ?thesis using n by (simp add: read_variable_def)
  qed
qed

definition var_ok :: "string \<times> string \<Rightarrow> bool" where
  "var_ok kv \<longleftrightarrow> name_ok (fst kv) \<and> (CHR 0x0A \<in> set (snd kv) \<longrightarrow> length (snd kv) < 2 ^ 64)"

interpretation variables: wire_format appendVariable read_variable var_ok
proof
  fix kv rest
  assume "var_ok kv"
  then show "read_variable (appendVariable kv @ rest) = Some (kv, rest)"
    using read_variable_append [of "fst kv" "snd kv" rest] by (simp add: var_ok_def)
  show "appendVariable kv \<noteq> []" by (simp add: appendVariable_def split: prod.split)
qed

lemma map_key_chars: "list_all key_char (map_key s)"
proof (induction s rule: map_key.induct)
  case (2 c s)
  then show ?case by (simp add: key_char_def)
qed simp

lemma sanitize_key_ok: "k \<noteq> [] \<Longrightarrow> is_ascii k \<Longrightarrow> name_ok (sanitize_key uni k)"
  using map_key_chars [of "ToUpper uni k"] by (cases k) (simp_all add: name_ok_def sanitize_key_def ToUpper_def)

lemma set_put_var: "set (put_var k v vars) \<subseteq> insert (k, v) (set vars)"
  by (auto simp: put_var_def)

lemma fold_put_var_ok:
  "list_all var_ok acc \<Longrightarrow> list_all (\<lambda>(k, v). k \<noteq> [] \<and> is_ascii k \<and> length v < 2 ^ 64) attrs \<Longrightarrow>
   list_all var_ok (fold (\<lambda>(k, v). put_var (sanitize_key uni k) v) attrs acc)"
proof (induction attrs arbitrary: acc)
  case (Cons kv attrs)
  obtain k v where kv: "kv = (k, v)" by (cases kv)
  have "list_all var_ok (put_var (sanitize_key uni k) v acc)"
    using Cons.prems kv sanitize_key_ok [of k uni] set_put_var [of "sanitize_key uni k" v acc]
    by (auto simp: list_all_iff var_ok_def)
  then show ?case using Cons kv by simp
qed simp

lemma Itoa_line: "CHR 0x0A \<notin> set (Itoa i)"
proof -
  have "CHR 0x0A \<notin> set (show_nat n)" for n
  proof
    assume "CHR 0x0A \<in> set (show_nat n)"
    then obtain d where d: "d < 10" "CHR 0x0A = digit_char d" by (blast dest: set_show_nat)
    from d(2) have "(of_char (CHR 0x0A) :: nat) = of_char (digit_char d)" by (rule arg_cong)
    then show False using d(1) by (simp add: digit_char_def)
  qed
  then show ?thesis by (simp add: Itoa_def)
qed

lemma shown_level_line: "CHR 0x0A \<notin> set (shown_level l)"
  using Itoa_line by (simp add: shown_level_def level_name_def Let_def)

lemma fixed_names: "name_ok ''PRIORITY''" "name_ok ''MESSAGE''" "name_ok ''LOG_LEVEL''"
  by (simp_all add: name_ok_def key_char_def)

lemma journal_vars_ok:
  "list_all (\<lambda>(k, v). k \<noteq> [] \<and> is_ascii k \<and> length v < 2 ^ 64) (log_attrs r) \<Longrightarrow> list_all var_ok (journal_vars uni r)"
  using fold_put_var_ok [of "[]" "log_attrs r" uni] fixed_names(3) shown_level_line [of "log_level r"]
    set_put_var [of "''LOG_LEVEL''" "shown_level (log_level r)"]
  unfolding journal_vars_def by (fastforce simp: list_all_iff var_ok_def)

lemma distinct_put_var: "distinct (map fst vars) \<Longrightarrow> distinct (map fst (put_var k v vars))"
  by (auto simp: put_var_def distinct_map inj_on_def)

lemma distinct_journal_vars: "distinct (map fst (journal_vars uni r))"
proof -
  have "distinct (map fst acc) \<Longrightarrow> distinct (map fst (fold (\<lambda>(k, v). put_var (sanitize_key uni k) v) attrs acc))" for attrs acc
    by (induction attrs arbitrary: acc) (auto simp: distinct_put_var)
  then show ?thesis unfolding journal_vars_def by (intro distinct_put_var) simp
qed


definition sample_record :: log_record where
  "sample_record = \<lparr>log_time = ''2026'', log_level = 4, log_message = ''a'' @ [CHR 0x0A] @ ''PRIORITY=0'', log_attrs = [(''device_id'', ''x'')]\<rparr>"


end
