(* ===== verification/Openpgp.thy ===== *)
theory Openpgp
  imports Base64 Wire_Format
begin

text \<open>
  The OpenPGP writer of the signing-key generator (\<^verbatim>\<open>scripts/openpgp_key.go\<close>): integers, packets,
  keys, the self-signature and the armour.  The hash functions and Ed25519 belong to the standard
  library and are parameters.  The readers below follow RFC 4880 and are the reference
  against which the writer is shown to lose nothing.
\<close>

section \<open>Integers\<close>

text \<open>The loop of \<^verbatim>\<open>leadingZeros8\<close> with \<open>i\<close> bits left to look at.\<close>

primrec zeros_from :: "byte \<Rightarrow> nat \<Rightarrow> nat" where
  "zeros_from x 0 = 0"
| "zeros_from x (Suc i) = (if x AND push_bit i 1 \<noteq> 0 then 0 else Suc (zeros_from x i))"

definition leadingZeros8 :: "byte \<Rightarrow> nat" where
  "leadingZeros8 x = zeros_from x 8"

definition mpi :: "bytes \<Rightarrow> bytes" where
  "mpi b0 =
     (let b = dropWhile (\<lambda>x. x = 0) b0
      in if b = [] then [0, 0]
         else put_u16 (of_nat ((length b - 1) * 8 + (8 - leadingZeros8 (hd b)))) @ b)"

section \<open>Packets\<close>

definition packet :: "byte \<Rightarrow> bytes \<Rightarrow> bytes" where
  "packet tag body =
     (let n = length body
      in [0xC0 OR tag] @
         (if n < 192 then [of_nat n]
          else if n < 8384 then [of_nat ((n - 192) div 256 + 192), of_nat ((n - 192) mod 256)]
          else 0xFF # put_u32 (of_nat n)) @ body)"

definition subpacket :: "byte \<Rightarrow> bytes \<Rightarrow> bytes" where
  "subpacket typ data = (let body = typ # data in of_nat (length body) # body)"

section \<open>Keys\<close>

text \<open>The library: two hash functions, and Ed25519 with a private key given by its seed.\<close>

record pgp_lib =
  sha1 :: "bytes \<Rightarrow> bytes"
  sha256 :: "bytes \<Rightarrow> bytes"
  ed_public :: "bytes \<Rightarrow> bytes"
  ed_sign :: "bytes \<Rightarrow> bytes \<Rightarrow> bytes"

definition pgpTagSignature :: byte where "pgpTagSignature = 2"
definition pgpTagSecretKey :: byte where "pgpTagSecretKey = 5"
definition pgpTagPublicKey :: byte where "pgpTagPublicKey = 6"
definition pgpTagUserID :: byte where "pgpTagUserID = 13"
definition pgpAlgoEdDSA :: byte where "pgpAlgoEdDSA = 22"
definition pgpHashSHA256 :: byte where "pgpHashSHA256 = 8"
definition pgpSigTypePosit :: byte where "pgpSigTypePosit = 0x13"
definition pgpKeyCreationTime :: "32 word" where "pgpKeyCreationTime = 1704067200"
definition pgpUserID :: string where "pgpUserID = ''Syncthing LUKS APT repository <noreply@github.com>''"

definition ed25519OID :: bytes where
  "ed25519OID = [0x2B, 0x06, 0x01, 0x04, 0x01, 0xDA, 0x47, 0x0F, 0x01]"

lemmas pgp_constants = pgpTagSignature_def pgpTagSecretKey_def pgpTagPublicKey_def pgpTagUserID_def pgpAlgoEdDSA_def
  pgpHashSHA256_def pgpSigTypePosit_def

definition publicKeyBody :: "bytes \<Rightarrow> bytes" where
  "publicKeyBody pub =
     [4] @ put_u32 pgpKeyCreationTime @ [pgpAlgoEdDSA] @ [of_nat (length ed25519OID)] @ ed25519OID @ mpi (0x40 # pub)"

definition secretKeyBody :: "pgp_lib \<Rightarrow> bytes \<Rightarrow> bytes" where
  "secretKeyBody lib seed =
     (let secret = mpi seed
      in publicKeyBody (ed_public lib seed) @ [0] @ secret @
         put_u16 (fold (\<lambda>c total. total + ucast c) secret 0))"

definition fingerprint :: "pgp_lib \<Rightarrow> bytes \<Rightarrow> bytes" where
  "fingerprint lib pub =
     (let body = publicKeyBody pub in sha1 lib ([0x99] @ put_u16 (of_nat (length body)) @ body))"

definition keyID :: "pgp_lib \<Rightarrow> bytes \<Rightarrow> bytes" where
  "keyID lib pub = drop 12 (fingerprint lib pub)"

section \<open>The self-signature\<close>

definition hashed_area :: "pgp_lib \<Rightarrow> bytes \<Rightarrow> bytes" where
  "hashed_area lib pub =
     subpacket 2 (put_u32 pgpKeyCreationTime) @ subpacket 27 [0x03] @ subpacket 33 (4 # fingerprint lib pub)"

definition signed_part :: "bytes \<Rightarrow> bytes" where
  "signed_part hashed =
     [4, pgpSigTypePosit, pgpAlgoEdDSA, pgpHashSHA256] @ put_u16 (of_nat (length hashed)) @ hashed"

definition certification_digest :: "pgp_lib \<Rightarrow> bytes \<Rightarrow> bytes \<Rightarrow> bytes \<Rightarrow> bytes" where
  "certification_digest lib keyBody uid covered =
     sha256 lib ([0x99] @ put_u16 (of_nat (length keyBody)) @ keyBody @
       [0xB4] @ put_u32 (of_nat (length uid)) @ uid @ covered @ [0x04, 0xFF] @ put_u32 (of_nat (length covered)))"

definition selfSignature :: "pgp_lib \<Rightarrow> bytes \<Rightarrow> string \<Rightarrow> bytes" where
  "selfSignature lib seed uid =
     (let pub = ed_public lib seed;
          covered = signed_part (hashed_area lib pub);
          digest = certification_digest lib (publicKeyBody pub) (bytes_of_string uid) covered;
          sig = ed_sign lib seed digest;
          unhashed = subpacket 16 (keyID lib pub)
      in packet pgpTagSignature
           (covered @ put_u16 (of_nat (length unhashed)) @ unhashed @ take 2 digest @ mpi (take 32 sig) @ mpi (drop 32 sig)))"

definition transferableSecretKey :: "pgp_lib \<Rightarrow> bytes \<Rightarrow> bytes" where
  "transferableSecretKey lib seed =
     packet pgpTagSecretKey (secretKeyBody lib seed) @ packet pgpTagUserID (bytes_of_string pgpUserID) @
     selfSignature lib seed pgpUserID"

definition transferablePublicKey :: "pgp_lib \<Rightarrow> bytes \<Rightarrow> bytes" where
  "transferablePublicKey lib seed =
     packet pgpTagPublicKey (publicKeyBody (ed_public lib seed)) @ packet pgpTagUserID (bytes_of_string pgpUserID) @
     selfSignature lib seed pgpUserID"

section \<open>The armour\<close>

definition crc_bit :: "32 word \<Rightarrow> 32 word" where
  "crc_bit crc0 = (let crc = push_bit 1 crc0 in if crc AND 0x1000000 \<noteq> 0 then crc XOR 0x1864CFB else crc)"

definition crc_byte :: "byte \<Rightarrow> 32 word \<Rightarrow> 32 word" where
  "crc_byte b crc = (crc_bit ^^ 8) (crc XOR push_bit 16 (ucast b))"

definition crc24 :: "bytes \<Rightarrow> 32 word" where
  "crc24 data = fold crc_byte data 0xB704CE AND 0xFFFFFF"

text \<open>The encoder that \<^verbatim>\<open>armor\<close> carries: three bytes, padded with zeros, as one 32-bit number.\<close>

definition armor_char :: "32 word \<Rightarrow> char" where
  "armor_char v = b64_alphabet ! unat (v AND 0x3F)"

definition armor_group :: "bytes \<Rightarrow> string" where
  "armor_group src =
     (let n = min 3 (length src);
          buf = take 3 (src @ [0, 0, 0]);
          v = push_bit 16 (ucast (buf ! 0)) OR push_bit 8 (ucast (buf ! 1)) OR ucast (buf ! 2) :: 32 word
      in [armor_char (drop_bit 18 v), armor_char (drop_bit 12 v),
          if n > 1 then armor_char (drop_bit 6 v) else CHR ''='',
          if n > 2 then armor_char v else CHR ''=''])"

function armor_encode :: "bytes \<Rightarrow> string" where
  "armor_encode src = (if src = [] then [] else armor_group src @ armor_encode (drop 3 src))"
  by pat_completeness auto
termination by (relation "measure length") auto

function chunks :: "nat \<Rightarrow> 'a list \<Rightarrow> 'a list list" where
  "chunks k xs = (if xs = [] \<or> k = 0 then [] else take k xs # chunks k (drop k xs))"
  by pat_completeness auto
termination by (relation "measure (length \<circ> snd)") auto

declare armor_encode.simps [simp del] chunks.simps [simp del]

text \<open>What is written, one entry per call of \<^verbatim>\<open>Fprintf\<close> or \<^verbatim>\<open>Fprintln\<close>.\<close>

definition armor_writes :: "string \<Rightarrow> bytes \<Rightarrow> string list" where
  "armor_writes blockType data =
     (let body = armor_encode data; c = crc24 data; total = [ucast (drop_bit 16 c), ucast (drop_bit 8 c), ucast c]
      in [''-----BEGIN '' @ blockType @ ''-----'' @ [CHR 0x0A, CHR 0x0A]] @
         map (\<lambda>l. l @ [CHR 0x0A]) (chunks 64 body) @
         [''='' @ armor_encode total @ [CHR 0x0A] @ ''-----END '' @ blockType @ ''-----'' @ [CHR 0x0A]])"

text \<open>The writer takes each piece or refuses it; the first refusal ends the armour.\<close>

fun write_pieces :: "(string \<Rightarrow> gerror option) \<Rightarrow> string list \<Rightarrow> string \<times> gerror option" where
  "write_pieces w [] = ([], None)"
| "write_pieces w (p # ps) =
     (case w p of
        Some e \<Rightarrow> ([], Some e)
      | None \<Rightarrow> (case write_pieces w ps of (out, e) \<Rightarrow> (p @ out, e)))"

definition armor :: "(string \<Rightarrow> gerror option) \<Rightarrow> string \<Rightarrow> bytes \<Rightarrow> string \<times> gerror option" where
  "armor w blockType data = write_pieces w (armor_writes blockType data)"

section \<open>Reading integers\<close>

definition be_val :: "bytes \<Rightarrow> nat" where
  "be_val bs = foldl (\<lambda>a b. a * 256 + unat b) 0 bs"

text \<open>A multiprecision integer: its bit count, its bytes, and what follows.\<close>

definition read_mpi :: "bytes \<Rightarrow> (nat \<times> bytes \<times> bytes) option" where
  "read_mpi bs =
     (let n = unat (get_u16 bs); len = (n + 7) div 8
      in if length bs < 2 + len then None else Some (n, take len (drop 2 bs), drop (2 + len) bs))"

lemma foldl_be_val: "foldl (\<lambda>a b. a * 256 + unat (b :: byte)) a bs = a * 256 ^ length bs + be_val bs"
proof (induction bs arbitrary: a)
  case (Cons b bs)
  show ?case using Cons [of "a * 256 + unat b"] Cons [of "unat b"] by (simp add: be_val_def algebra_simps)
qed (simp add: be_val_def)

lemma be_val_Nil [simp]: "be_val [] = 0"
  by (simp add: be_val_def)

lemma be_val_Cons: "be_val (b # bs) = unat b * 256 ^ length bs + be_val bs"
  using foldl_be_val [of "unat b" bs] by (simp add: be_val_def)

lemma be_val_less: "be_val bs < 256 ^ length bs"
proof (induction bs)
  case (Cons b bs)
  have "unat b * 256 ^ length bs + be_val bs < (unat b + 1) * 256 ^ length bs" using Cons by simp
  also have "unat b + 1 \<le> 256" using unat_byte_less [of b] by linarith
  then have "(unat b + 1) * 256 ^ length bs \<le> 256 * 256 ^ length bs" by (rule mult_le_mono1)
  finally show ?case by (simp add: be_val_Cons)
qed simp

lemma be_val_strip: "be_val (dropWhile (\<lambda>x. x = 0) b) = be_val b"
  by (induction b) (simp_all add: be_val_Cons)

lemma zeros_from_bounds:
  assumes "x \<noteq> 0" and "unat x < 2 ^ i" and "i \<le> 8"
  shows "zeros_from x i < i \<and> 2 ^ (i - 1 - zeros_from x i) \<le> unat x \<and> unat x < 2 ^ (i - zeros_from x i)"
  using assms
proof (induction i)
  case 0
  then show ?case by (simp add: unat_eq_0)
next
  case (Suc i)
  have t: "x AND push_bit i 1 \<noteq> 0 \<longleftrightarrow> bit x i" by (simp add: and_exp_eq_0_iff_not_bit push_bit_eq_mult)
  have "bit (unat x) i \<longleftrightarrow> bit x i" by (auto simp: bit_simps dest: bit_imp_le_length)
  then have b: "bit x i \<longleftrightarrow> odd (unat x div 2 ^ i)" by (simp add: bit_iff_odd)
  show ?case
  proof (cases "bit x i")
    case True
    then have "2 ^ i \<le> unat x" using b by (metis div_less even_zero not_le)
    then show ?thesis using True t Suc.prems by simp
  next
    case False
    have "unat x div 2 ^ i < 2" using Suc.prems(2) by (simp add: less_mult_imp_div_less)
    then have "unat x div 2 ^ i = 0" using False b by (cases "unat x div 2 ^ i") auto
    then have "unat x < 2 ^ i" by (simp add: div_eq_0_iff)
    then show ?thesis using Suc False t by simp
  qed
qed

lemma leadingZeros8_bounds:
  assumes "x \<noteq> 0"
  shows "leadingZeros8 x < 8" "2 ^ (7 - leadingZeros8 x) \<le> unat x" "unat x < 2 ^ (8 - leadingZeros8 x)"
  using zeros_from_bounds [OF assms, of 8] unat_byte_less [of x] by (simp_all add: leadingZeros8_def)

text \<open>The bit count of a number without leading zero bytes.\<close>

lemma bit_count_exact:
  assumes "b = x # bs" and "x \<noteq> 0"
  defines "n \<equiv> (length b - 1) * 8 + (8 - leadingZeros8 (hd b))"
  shows "0 < n" "2 ^ (n - 1) \<le> be_val b" "be_val b < 2 ^ n" "(n + 7) div 8 = length b" "n \<le> 8 * length b"
proof -
  let ?z = "leadingZeros8 x"
  note z = leadingZeros8_bounds [OF assms(2)]
  have n: "n = 8 * length bs + (8 - ?z)" "n - 1 = 8 * length bs + (7 - ?z)"
    using z(1) by (simp_all add: n_def assms(1))
  have p: "(256 :: nat) ^ length bs = 2 ^ (8 * length bs)" by (simp add: power_mult)
  show "0 < n" "(n + 7) div 8 = length b" "n \<le> 8 * length b" using z(1) n assms(1) by auto
  have "2 ^ (n - 1) = 2 ^ (7 - ?z) * (256 :: nat) ^ length bs" unfolding n(2) by (simp add: p power_add)
  also have "\<dots> \<le> unat x * 256 ^ length bs" using z(2) by simp
  finally show "2 ^ (n - 1) \<le> be_val b" by (simp add: assms(1) be_val_Cons)
  have "be_val b < (unat x + 1) * 256 ^ length bs" using be_val_less [of bs] by (simp add: assms(1) be_val_Cons)
  also have "\<dots> \<le> 2 ^ (8 - ?z) * 256 ^ length bs" using z(3) by (intro mult_le_mono) simp_all
  also have "\<dots> = 2 ^ n" by (simp add: n(1) p power_add)
  finally show "be_val b < 2 ^ n" .
qed

lemma unat_of_nat16: "n < 65536 \<Longrightarrow> unat (of_nat n :: 16 word) = n"
  by (simp add: unat_of_nat take_bit_nat_eq_self)

lemma unat_of_nat8: "n < 256 \<Longrightarrow> unat (of_nat n :: byte) = n"
  by (simp add: unat_of_nat take_bit_nat_eq_self)

lemma read_mpi_mpi:
  assumes "length b \<le> 8191"
  obtains n where "read_mpi (mpi b @ rest) = Some (n, dropWhile (\<lambda>x. x = 0) b, rest)"
    and "if be_val b = 0 then n = 0 else 2 ^ (n - 1) \<le> be_val b \<and> be_val b < 2 ^ n"
proof (cases "dropWhile (\<lambda>x. x = 0) b")
  case Nil
  have g: "get_u16 ([0, 0] @ rest) = 0" by (simp add: get_u16_def)
  have "be_val b = 0" using be_val_strip [of b] Nil by simp
  moreover have "read_mpi (mpi b @ rest) = Some (0, [], rest)" using g Nil by (simp add: read_mpi_def mpi_def Let_def)
  ultimately show ?thesis using that [of 0] Nil by simp
next
  case (Cons x bs)
  let ?b = "dropWhile (\<lambda>x. x = 0) b"
  let ?n = "(length ?b - 1) * 8 + (8 - leadingZeros8 (hd ?b))"
  have x: "x \<noteq> 0" using Cons hd_dropWhile [of "\<lambda>x. x = 0" b] by simp
  note e = bit_count_exact [OF Cons x]
  have "length ?b \<le> 8191" using assms length_dropWhile_le [of "\<lambda>x. x = 0" b] by simp
  then have n: "unat (of_nat ?n :: 16 word) = ?n" using e(5) by (intro unat_of_nat16) linarith
  have m: "mpi b = put_u16 (of_nat ?n) @ ?b" using Cons by (simp add: mpi_def Let_def)
  have "read_mpi (mpi b @ rest) = Some (?n, ?b, rest)"
    unfolding read_mpi_def m append_assoc get_put_u16 n Let_def e(4) by simp
  moreover have "be_val b \<noteq> 0" using e(2) be_val_strip [of b] by (metis not_less power_eq_0_iff zero_neq_numeral le_zero_eq)
  ultimately show ?thesis using that [of ?n] e(2,3) be_val_strip [of b] by simp
qed

lemma mpi_not_Nil: "mpi b \<noteq> []"
  by (simp add: mpi_def put_u16_def Let_def)

interpretation integers: wire_format mpi "\<lambda>bs. map_option snd (read_mpi bs)" "\<lambda>b. dropWhile (\<lambda>x. x = 0) b = b \<and> length b \<le> 8191"
proof
  fix b rest :: bytes
  assume b: "dropWhile (\<lambda>x. x = 0) b = b \<and> length b \<le> 8191"
  then obtain n where "read_mpi (mpi b @ rest) = Some (n, b, rest)" using read_mpi_mpi [of b rest] by metis
  then show "map_option snd (read_mpi (mpi b @ rest)) = Some (b, rest)" by simp
qed (rule mpi_not_Nil)

text \<open>C35: a receiver reads back the number and what follows it, and the announced bit count is the
  bit length of the number.\<close>

theorem mpi_is_exact:
  assumes "length b \<le> 8191"
  shows "\<exists>n bs. read_mpi (mpi b @ rest) = Some (n, bs, rest) \<and> be_val bs = be_val b
    \<and> (if be_val b = 0 then n = 0 else 2 ^ (n - 1) \<le> be_val b \<and> be_val b < 2 ^ n)"
proof -
  from assms obtain n where n: "read_mpi (mpi b @ rest) = Some (n, dropWhile (\<lambda>x. x = 0) b, rest)"
    "if be_val b = 0 then n = 0 else 2 ^ (n - 1) \<le> be_val b \<and> be_val b < 2 ^ n" by (rule read_mpi_mpi)
  show ?thesis
    by (rule exI [of _ n], rule exI [of _ "dropWhile (\<lambda>x. x = 0) b"]) (use n in \<open>simp add: be_val_strip\<close>)
qed

theorem mpi_is_exact_witness:
  "\<exists>n bs. read_mpi (mpi [0, 5, 1] @ [7]) = Some (n, bs, [7]) \<and> be_val bs = be_val [0, 5, 1]
    \<and> (if be_val [0, 5, 1] = 0 then n = 0 else 2 ^ (n - 1) \<le> be_val [0, 5, 1] \<and> be_val [0, 5, 1] < 2 ^ n)"
  by (rule mpi_is_exact) simp

section \<open>Reading packets\<close>

definition body_of :: "byte \<Rightarrow> nat \<Rightarrow> bytes \<Rightarrow> ((byte \<times> bytes) \<times> bytes) option" where
  "body_of tag n bs = (if length bs < n then None else Some ((tag, take n bs), drop n bs))"

text \<open>A packet of the new format, without the partial lengths that the writer never uses.\<close>

fun read_packet :: "bytes \<Rightarrow> ((byte \<times> bytes) \<times> bytes) option" where
  "read_packet (h # l # bs) =
     (let tag = h AND 0x3F
      in if h AND 0xC0 \<noteq> 0xC0 then None
         else if unat l < 192 then body_of tag (unat l) bs
         else if unat l < 224 then
           (case bs of [] \<Rightarrow> None | l2 # bs' \<Rightarrow> body_of tag ((unat l - 192) * 256 + unat l2 + 192) bs')
         else if l = 255 \<and> 4 \<le> length bs then body_of tag (unat (get_u32 bs)) (drop 4 bs)
         else None)"
| "read_packet _ = None"

lemma body_of_append: "n = length body \<Longrightarrow> body_of tag n (body @ rest) = Some ((tag, body), rest)"
  by (simp add: body_of_def)

lemma packet_head:
  assumes "tag AND 0xC0 = (0 :: byte)"
  shows "(0xC0 OR tag) AND 0xC0 = 0xC0" "(0xC0 OR tag) AND 0x3F = tag"
proof -
  have "\<not> bit tag 6" "\<not> bit tag 7"
    using assms by (auto dest!: arg_cong [where f = "\<lambda>w. bit w 6 \<or> bit w 7"] simp: bit_simps)
  then show "(0xC0 OR tag) AND 0xC0 = 0xC0" "(0xC0 OR tag) AND 0x3F = tag"
    by (auto intro!: byte_eqI simp: bit_simps)
qed

lemma read_packet_packet:
  assumes "tag AND 0xC0 = 0" and "length body < 2 ^ 32"
  shows "read_packet (packet tag body @ rest) = Some ((tag, body), rest)"
proof -
  let ?n = "length body"
  note h = packet_head [OF assms(1)]
  consider "?n < 192" | "192 \<le> ?n" "?n < 8384" | "8384 \<le> ?n" by linarith
  then show ?thesis
  proof cases
    case 1
    then show ?thesis using h by (simp add: packet_def Let_def unat_of_nat8 body_of_append)
  next
    case 2
    let ?q = "(?n - 192) div 256 + 192" and ?r = "(?n - 192) mod 256"
    have q: "192 \<le> ?q" "?q < 224" using 2 by simp_all
    have r: "?r < 256" by simp
    have u: "unat (of_nat ?q :: byte) = ?q" "unat (of_nat ?r :: byte) = ?r"
      using q r by (intro unat_of_nat8; linarith)+
    have "(?q - 192) * 256 + ?r + 192 = ?n" using 2 by simp
    moreover have p: "packet tag body @ rest = (0xC0 OR tag) # of_nat ?q # of_nat ?r # body @ rest"
      using 2 by (simp add: packet_def Let_def)
    ultimately show ?thesis
      unfolding p read_packet.simps Let_def list.case u using q h by (simp add: body_of_append)
  next
    case 3
    have u: "unat (of_nat ?n :: 32 word) = ?n"
      using assms(2) by (simp add: unat_of_nat take_bit_nat_eq_self)
    have p: "packet tag body @ rest = (0xC0 OR tag) # 255 # put_u32 (of_nat ?n) @ body @ rest"
      using 3 by (simp add: packet_def Let_def)
    show ?thesis
      unfolding p read_packet.simps Let_def get_put_u32 u using h by (simp add: body_of_append)
  qed
qed

interpretation packets: wire_format "\<lambda>(tag, body). packet tag body" read_packet
  "\<lambda>(tag, body). tag AND 0xC0 = 0 \<and> length body < 2 ^ 32"
  by unfold_locales (auto simp: read_packet_packet, simp add: packet_def Let_def)

text \<open>a packet is read back with its tag and its body, whatever the length of the body is, and
  what follows it is left alone.\<close>

theorem packet_roundtrip:
  assumes "tag AND 0xC0 = 0" and "length body < 2 ^ 32"
  shows "read_packet (packet tag body @ rest) = Some ((tag, body), rest)"
  by (rule read_packet_packet [OF assms])

theorem packet_roundtrip_witness:
  "read_packet (packet 13 (replicate 200 1) @ [9]) = Some ((13, replicate 200 1), [9])"
  by (rule packet_roundtrip) simp_all

section \<open>Reading keys and checking the certification\<close>

definition pad32 :: "bytes \<Rightarrow> bytes" where
  "pad32 bs = replicate (32 - length bs) 0 @ bs"

lemma pad32_strip: "length x = 32 \<Longrightarrow> pad32 (dropWhile (\<lambda>b. b = 0) x) = x"
proof -
  have *: "replicate (length x - length (dropWhile (\<lambda>b. b = 0) x)) 0 @ dropWhile (\<lambda>b. b = 0) x = x" for x :: bytes
  proof (induction x)
    case (Cons b x)
    have "length (dropWhile (\<lambda>b. b = 0) x) \<le> length x" by (rule length_dropWhile_le)
    then show ?case using Cons by (simp add: Suc_diff_le)
  qed simp
  show "length x = 32 \<Longrightarrow> pad32 (dropWhile (\<lambda>b. b = 0) x) = x" using * [of x] by (simp add: pad32_def)
qed

definition key_header :: bytes where
  "key_header = [4] @ put_u32 1704067200 @ [22, 9] @ ed25519OID"

definition key_point :: "bytes \<Rightarrow> bytes option" where
  "key_point body =
     (if take 16 body \<noteq> key_header then None
      else case read_mpi (drop 16 body) of
             Some (_, form # pub, []) \<Rightarrow> if form = 0x40 then Some pub else None
           | _ \<Rightarrow> None)"

text \<open>The check that a receiver of the certification makes, given the verification of Ed25519.\<close>

definition verify_certification :: "pgp_lib \<Rightarrow> (bytes \<Rightarrow> bytes \<Rightarrow> bytes \<Rightarrow> bool) \<Rightarrow> bytes \<Rightarrow> bytes \<Rightarrow> bytes \<Rightarrow> bytes \<Rightarrow> bool" where
  "verify_certification lib ver pub keyBody uid sig =
     (let hlen = unat (get_u16 (drop 4 sig));
          covered = take (6 + hlen) sig;
          rest = drop (6 + hlen) sig;
          rest2 = drop (2 + unat (get_u16 rest)) rest;
          digest = certification_digest lib keyBody uid covered
      in take 4 sig = [4, 0x13, 22, 8] \<and> take 2 rest2 = take 2 digest \<and>
         (case read_mpi (drop 2 rest2) of
            None \<Rightarrow> False
          | Some (_, r, rest3) \<Rightarrow>
              (case read_mpi rest3 of
                 None \<Rightarrow> False
               | Some (_, s, rest4) \<Rightarrow> rest4 = [] \<and> ver pub digest (pad32 r @ pad32 s))))"

text \<open>What the standard library documents.\<close>

definition pgp_lib_ok :: "pgp_lib \<Rightarrow> (bytes \<Rightarrow> bytes \<Rightarrow> bytes \<Rightarrow> bool) \<Rightarrow> bool" where
  "pgp_lib_ok lib ver \<longleftrightarrow>
     (\<forall>m. length (sha1 lib m) = 20 \<and> length (sha256 lib m) = 32)
     \<and> (\<forall>seed. length (ed_public lib seed) = 32)
     \<and> (\<forall>seed m. length (ed_sign lib seed m) = 64 \<and> ver (ed_public lib seed) m (ed_sign lib seed m))"

lemma publicKeyBody_header: "publicKeyBody pub = key_header @ mpi (0x40 # pub)"
  by (simp add: publicKeyBody_def key_header_def pgp_constants pgpKeyCreationTime_def ed25519OID_def)

lemma length_key_header [simp]: "length key_header = 16"
  by (simp add: key_header_def ed25519OID_def)

lemma length_mpi_le: "length (mpi b) \<le> 2 + length b"
  using length_dropWhile_le [of "\<lambda>x. x = 0" b] by (simp add: mpi_def Let_def)

lemma key_point_publicKeyBody:
  assumes "length pub = 32"
  shows "key_point (publicKeyBody pub) = Some pub"
proof -
  have d: "dropWhile (\<lambda>x. x = 0) ((0x40 :: byte) # pub) = 0x40 # pub" by simp
  have "length ((0x40 :: byte) # pub) \<le> 8191" using assms by simp
  then obtain n where "read_mpi (mpi (0x40 # pub) @ []) = Some (n, dropWhile (\<lambda>x. x = 0) (0x40 # pub), [])"
    by (rule read_mpi_mpi)
  then show ?thesis by (simp add: key_point_def publicKeyBody_header d del: dropWhile.simps)
qed

lemma length_publicKeyBody_le: "length pub = 32 \<Longrightarrow> length (publicKeyBody pub) \<le> 51"
  using length_mpi_le [of "0x40 # pub"] by (simp add: publicKeyBody_header)

lemma verify_layout:
  assumes "length hashed < 65536" and "length unhashed < 65536" and "length sig = 64"
    and "digest = certification_digest lib keyBody uid (signed_part hashed)" and "2 \<le> length digest"
    and "ver pub digest sig"
  shows "verify_certification lib ver pub keyBody uid
    (signed_part hashed @ put_u16 (of_nat (length unhashed)) @ unhashed @ take 2 digest @ mpi (take 32 sig) @ mpi (drop 32 sig))"
    (is "verify_certification _ _ _ _ _ ?sig")
proof -
  have h: "unat (get_u16 (drop 4 ?sig)) = length hashed"
    using assms(1) by (simp add: signed_part_def unat_of_nat16)
  have l: "length (signed_part hashed) = 6 + length hashed" by (simp add: signed_part_def)
  have u: "unat (of_nat (length unhashed) :: 16 word) = length unhashed" using assms(2) by (rule unat_of_nat16)
  have f: "take 4 ?sig = [4, 0x13, 22, 8]" by (simp add: signed_part_def pgp_constants)
  obtain n1 where r: "read_mpi (mpi (take 32 sig) @ mpi (drop 32 sig)) =
      Some (n1, dropWhile (\<lambda>b. b = 0) (take 32 sig), mpi (drop 32 sig))"
    using read_mpi_mpi [of "take 32 sig" "mpi (drop 32 sig)"] assms(3) by auto
  obtain n2 where s: "read_mpi (mpi (drop 32 sig) @ []) = Some (n2, dropWhile (\<lambda>b. b = 0) (drop 32 sig), [])"
    using read_mpi_mpi [of "drop 32 sig" "[]"] assms(3) by auto
  have "pad32 (dropWhile (\<lambda>b. b = 0) (take 32 sig)) @ pad32 (dropWhile (\<lambda>b. b = 0) (drop 32 sig)) = sig"
    using assms(3) by (simp add: pad32_strip)
  then show ?thesis
    unfolding verify_certification_def Let_def h
    using assms(4-6) f r s by (simp add: l u)
qed

definition sig_body :: "pgp_lib \<Rightarrow> bytes \<Rightarrow> string \<Rightarrow> bytes" where
  "sig_body lib seed uid =
     (let pub = ed_public lib seed;
          covered = signed_part (hashed_area lib pub);
          digest = certification_digest lib (publicKeyBody pub) (bytes_of_string uid) covered;
          sig = ed_sign lib seed digest;
          unhashed = subpacket 16 (keyID lib pub)
      in covered @ put_u16 (of_nat (length unhashed)) @ unhashed @ take 2 digest @ mpi (take 32 sig) @ mpi (drop 32 sig))"

lemma selfSignature_packet: "selfSignature lib seed uid = packet 2 (sig_body lib seed uid)"
  by (simp add: selfSignature_def sig_body_def pgpTagSignature_def Let_def)

lemma area_lengths:
  assumes "pgp_lib_ok lib ver"
  shows "length (hashed_area lib pub) = 32" "length (subpacket 16 (keyID lib pub)) = 10"
  using assms by (simp_all add: pgp_lib_ok_def hashed_area_def subpacket_def keyID_def fingerprint_def Let_def)

lemma sig_body_verifies:
  assumes "pgp_lib_ok lib ver"
  shows "verify_certification lib ver (ed_public lib seed) (publicKeyBody (ed_public lib seed)) (bytes_of_string uid)
    (sig_body lib seed uid)"
  unfolding sig_body_def Let_def
  by (rule verify_layout)
    (use assms area_lengths [OF assms] in \<open>simp_all add: pgp_lib_ok_def certification_digest_def\<close>)

lemma sig_body_small:
  assumes "pgp_lib_ok lib ver"
  shows "length (sig_body lib seed uid) < 2 ^ 32"
proof -
  let ?s = "ed_sign lib seed (certification_digest lib (publicKeyBody (ed_public lib seed)) (bytes_of_string uid)
      (signed_part (hashed_area lib (ed_public lib seed))))"
  have "length (mpi (take 32 ?s)) \<le> 34" "length (mpi (drop 32 ?s)) \<le> 34"
    using length_mpi_le [of "take 32 ?s"] length_mpi_le [of "drop 32 ?s"] assms by (simp_all add: pgp_lib_ok_def)
  then show ?thesis using area_lengths [OF assms] by (simp add: sig_body_def Let_def signed_part_def)
qed


definition sample_lib :: pgp_lib where
  "sample_lib = \<lparr>sha1 = (\<lambda>_. replicate 20 7), sha256 = (\<lambda>_. replicate 32 9), ed_public = (\<lambda>_. replicate 32 3),
     ed_sign = (\<lambda>_ _. replicate 5 0 @ replicate 59 1)\<rparr>"

lemma sample_lib_ok: "pgp_lib_ok sample_lib (\<lambda>_ _ sig. sig = replicate 5 0 @ replicate 59 1)"
  by (simp add: pgp_lib_ok_def sample_lib_def)


section \<open>The checksum\<close>

definition fits24 :: "32 word \<Rightarrow> bool" where
  "fits24 c \<longleftrightarrow> (\<forall>n\<ge>24. \<not> bit c n)"

lemma poly_bits: "bit (0x1864CFB :: 32 word) 0" "bit (0x1864CFB :: 32 word) 24" "24 < n \<Longrightarrow> \<not> bit (0x1864CFB :: 32 word) n"
proof -
  have t: "take_bit 25 (0x1864CFB :: 32 word) = 0x1864CFB" by simp
  have "bit (take_bit 25 (0x1864CFB :: 32 word)) n \<longleftrightarrow> n < 25 \<and> bit (0x1864CFB :: 32 word) n" by (rule bit_take_bit_iff)
  then show "24 < n \<Longrightarrow> \<not> bit (0x1864CFB :: 32 word) n" unfolding t by linarith
qed simp_all

lemma bit_double: "n < 32 \<Longrightarrow> bit (push_bit 1 (c :: 32 word)) n \<longleftrightarrow> 0 < n \<and> bit c (n - 1)"
  unfolding bit_push_bit_iff by auto

lemma bit_crc_bit:
  assumes "n < 32"
  shows "bit (crc_bit c) n \<longleftrightarrow> ((0 < n \<and> bit c (n - 1)) \<noteq> (bit c 23 \<and> bit (0x1864CFB :: 32 word) n))"
proof -
  define d where "d = push_bit 1 c"
  have e: "(0x1000000 :: 32 word) = 2 ^ 24" by simp
  have "d AND 0x1000000 \<noteq> 0 \<longleftrightarrow> bit d 24" unfolding e by (metis and_exp_eq_0_iff_not_bit)
  moreover have "bit d 24 \<longleftrightarrow> bit c 23" using bit_double [of 24 c] by (simp add: d_def)
  ultimately have t: "d AND 0x1000000 \<noteq> 0 \<longleftrightarrow> bit c 23" by blast
  show ?thesis
    using bit_double [OF assms, of c] unfolding crc_bit_def Let_def d_def [symmetric] t
    by (auto simp: bit_xor_iff)
qed

lemma word32_eqI: "(\<And>n. n < 32 \<Longrightarrow> bit x n = bit y n) \<Longrightarrow> x = (y :: 32 word)"
  by (rule bit_word_eqI) simp

lemma fits24_eqI: "fits24 x \<Longrightarrow> fits24 y \<Longrightarrow> (\<And>n. n < 24 \<Longrightarrow> bit x n = bit y n) \<Longrightarrow> x = y"
  by (rule word32_eqI) (metis fits24_def not_less)

lemma fits24_crc_bit:
  assumes "fits24 c" shows "fits24 (crc_bit c)"
  unfolding fits24_def
proof (intro allI impI)
  fix n :: nat assume n: "24 \<le> n"
  show "\<not> bit (crc_bit c) n"
  proof (cases "n < 32")
    case True
    have "bit c (n - 1) \<Longrightarrow> n = 24" using assms n by (cases "n = 24") (auto simp: fits24_def)
    then show ?thesis using True n poly_bits(2) poly_bits(3) [of n] by (cases "n = 24") (auto simp: bit_crc_bit)
  qed (use bit_imp_le_length [of "crc_bit c" n] in auto)
qed

lemma crc_bit_inject:
  assumes "fits24 c" and "fits24 d" and "crc_bit c = crc_bit d"
  shows "c = d"
proof (rule fits24_eqI [OF assms(1,2)])
  have b: "bit (crc_bit c) n = bit (crc_bit d) n" for n using assms(3) by simp
  have top: "bit c 23 = bit d 23" using b [of 0] poly_bits(1) by (simp add: bit_crc_bit)
  fix n :: nat assume "n < 24"
  then show "bit c n = bit d n" using b [of "Suc n"] top by (auto simp: bit_crc_bit)
qed

lemma crc_bits_inject: "fits24 c \<Longrightarrow> fits24 d \<Longrightarrow> (crc_bit ^^ k) c = (crc_bit ^^ k) d \<Longrightarrow> c = d"
proof (induction k arbitrary: c d)
  case (Suc k)
  then show ?case
    using crc_bit_inject [of c d] fits24_crc_bit by (simp add: funpow_swap1)
qed simp

lemma fits24_crc_bits: "fits24 c \<Longrightarrow> fits24 ((crc_bit ^^ k) c)"
  by (induction k) (simp_all add: fits24_crc_bit)

lemma fits24_xor: "fits24 c \<Longrightarrow> fits24 d \<Longrightarrow> fits24 (c XOR d)"
  by (simp add: fits24_def bit_xor_iff)

lemma fits24_byte: "k \<le> 16 \<Longrightarrow> fits24 (push_bit k (ucast (b :: byte)))"
  by (auto simp: fits24_def bit_push_bit_iff bit_unsigned_iff byte_bit_high)

lemma fits24_fold: "fits24 c \<Longrightarrow> fits24 (fold crc_byte bs c)"
  by (induction bs arbitrary: c) (simp_all add: crc_byte_def fits24_crc_bits fits24_xor fits24_byte)

lemma crc_bit_xor: "crc_bit (c XOR d) = crc_bit c XOR crc_bit d"
  by (rule word32_eqI) (auto simp: bit_crc_bit bit_xor_iff)

lemma crc_bits_xor: "(crc_bit ^^ k) (c XOR d) = (crc_bit ^^ k) c XOR (crc_bit ^^ k) d"
  by (induction k) (simp_all add: crc_bit_xor)

text \<open>A byte below the top of the register is only shifted.\<close>

lemma crc_bits_shift: "k + j \<le> 16 \<Longrightarrow> (crc_bit ^^ k) (push_bit j (ucast (b :: byte))) = push_bit (k + j) (ucast b)"
proof (induction k)
  case (Suc k)
  have "crc_bit (push_bit (k + j) (ucast b)) = push_bit (Suc (k + j)) (ucast b)"
    using Suc.prems
    by (intro word32_eqI) (auto simp: bit_crc_bit bit_push_bit_iff bit_unsigned_iff byte_bit_high simp del: push_bit_Suc)
  then show ?case using Suc by (simp del: push_bit_Suc)
qed simp

text \<open>Up to three bytes enter the register at once.\<close>

lemma crc_three: "fold crc_byte [a, b, d] c =
    (crc_bit ^^ 24) (c XOR (push_bit 16 (ucast a) XOR push_bit 8 (ucast b) XOR push_bit 0 (ucast d)))"
proof -
  have f: "(crc_bit ^^ 24) x = (crc_bit ^^ 8) ((crc_bit ^^ 8) ((crc_bit ^^ 8) x))"
    "(crc_bit ^^ 16) x = (crc_bit ^^ 8) ((crc_bit ^^ 8) x)" for x
    using funpow_add [of 8 16 crc_bit] funpow_add [of 8 8 crc_bit] by (simp_all del: funpow.simps)
  have s: "(crc_bit ^^ 8) (push_bit 8 (ucast b)) = push_bit 16 (ucast b)"
    "(crc_bit ^^ 8) (push_bit 0 (ucast d)) = push_bit 8 (ucast d)"
    "(crc_bit ^^ 8) (push_bit 8 (ucast d)) = push_bit 16 (ucast d)"
    using crc_bits_shift [of 8 8] crc_bits_shift [of 8 0] by simp_all
  show ?thesis
    unfolding f crc_bits_xor s by (simp only: fold.simps comp_apply id_apply crc_byte_def crc_bits_xor s xor.assoc)
qed

lemma crc_byte_inject:
  assumes "fits24 c" and "fits24 d" and "crc_byte b c = crc_byte b d"
  shows "c = d"
proof -
  have "c XOR push_bit 16 (ucast b) = d XOR push_bit 16 (ucast b)"
    by (rule crc_bits_inject [of _ _ 8]) (use assms in \<open>simp_all add: crc_byte_def fits24_xor fits24_byte\<close>)
  then have "(c XOR push_bit 16 (ucast b)) XOR push_bit 16 (ucast b) =
      (d XOR push_bit 16 (ucast b)) XOR push_bit 16 (ucast b)" by (rule arg_cong)
  then show ?thesis by (simp only: xor.assoc xor_self_eq xor.right_neutral)
qed

lemma crc_fold_inject: "fits24 c \<Longrightarrow> fits24 d \<Longrightarrow> fold crc_byte bs c = fold crc_byte bs d \<Longrightarrow> c = d"
proof (induction bs arbitrary: c d)
  case (Cons b bs)
  have "fits24 (crc_byte b c)" "fits24 (crc_byte b d)"
    using Cons.prems fits24_fold [of c "[b]"] fits24_fold [of d "[b]"] by simp_all
  then show ?case using Cons crc_byte_inject [of c d b] by simp
qed simp

definition word_of_three :: "byte \<Rightarrow> byte \<Rightarrow> byte \<Rightarrow> 32 word" where
  "word_of_three a b d = push_bit 16 (ucast a) XOR push_bit 8 (ucast b) XOR push_bit 0 (ucast d)"

lemma word_of_three_inject:
  assumes "word_of_three a b d = word_of_three a' b' d'"
  shows "a = a' \<and> b = b' \<and> d = d'"
proof -
  have e: "bit (word_of_three a b d) n = bit (word_of_three a' b' d') n" for n using assms by simp
  have low: "n < 8 \<Longrightarrow> bit (word_of_three a b d) n = bit d n \<and> bit (word_of_three a b d) (n + 8) = bit b n
      \<and> bit (word_of_three a b d) (n + 16) = bit a n" for n a b d
    by (auto simp: word_of_three_def bit_xor_iff bit_push_bit_iff bit_unsigned_iff byte_bit_high)
  have "bit a n = bit a' n \<and> bit b n = bit b' n \<and> bit d n = bit d' n" if "n < 8" for n
    using low [OF that, of a b d] low [OF that, of a' b' d'] e by metis
  then show ?thesis by (auto intro!: bit_word_eqI)
qed

lemma crc_burst:
  assumes "fits24 c" and "fold crc_byte [a, b, d] c = fold crc_byte [a', b', d'] c"
  shows "a = a' \<and> b = b' \<and> d = d'"
proof -
  have f: "fits24 (word_of_three x y z)" for x y z
    unfolding word_of_three_def by (intro fits24_xor fits24_byte) simp_all
  have "c XOR word_of_three a b d = c XOR word_of_three a' b' d'"
    by (rule crc_bits_inject [of _ _ 24])
      (use assms f in \<open>simp_all only: crc_three fits24_xor word_of_three_def [symmetric]\<close>)
  then have "c XOR (c XOR word_of_three a b d) = c XOR (c XOR word_of_three a' b' d')" by (rule arg_cong)
  then have "word_of_three a b d = word_of_three a' b' d'"
    by (simp only: xor.assoc [symmetric] xor_self_eq xor.left_neutral)
  then show ?thesis by (rule word_of_three_inject)
qed

lemma fits24_mask: "fits24 c \<Longrightarrow> c AND 0xFFFFFF = c"
proof (rule word32_eqI)
  fix n :: nat assume c: "fits24 c"
  have m: "(0xFFFFFF :: 32 word) = mask 24" by (simp add: mask_eq_exp_minus_1)
  show "bit (c AND 0xFFFFFF) n = bit c n"
    unfolding m using c not_less [of n 24] by (auto simp: bit_and_iff bit_mask_iff fits24_def dest: bit_imp_le_length)
qed

lemma fits24_init: "fits24 0xB704CE"
proof -
  have t: "take_bit 24 (0xB704CE :: 32 word) = 0xB704CE" by simp
  have "bit (take_bit 24 (0xB704CE :: 32 word)) n \<longleftrightarrow> n < 24 \<and> bit (0xB704CE :: 32 word) n" for n
    by (rule bit_take_bit_iff)
  then show ?thesis unfolding t fits24_def by (metis not_less)
qed

lemma crc24_fold: "crc24 data = fold crc_byte data 0xB704CE"
  by (simp add: crc24_def fits24_mask fits24_fold fits24_init)

lemma crc24_fits: "fits24 (crc24 data)"
  by (simp add: crc24_fold fits24_fold fits24_init)

text \<open>C18: the checksum of the armour notices every change within three consecutive bytes, wherever
  they are and whatever else the data is.\<close>

theorem crc24_detects_bursts:
  assumes "[a, b, d] \<noteq> [a', b', d']"
  shows "crc24 (xs @ [a, b, d] @ ys) \<noteq> crc24 (xs @ [a', b', d'] @ ys)"
proof
  let ?c = "fold crc_byte xs 0xB704CE"
  have c: "fits24 ?c" by (simp add: fits24_fold fits24_init)
  assume "crc24 (xs @ [a, b, d] @ ys) = crc24 (xs @ [a', b', d'] @ ys)"
  then have "fold crc_byte ys (fold crc_byte [a, b, d] ?c) = fold crc_byte ys (fold crc_byte [a', b', d'] ?c)"
    by (simp add: crc24_fold)
  then have "fold crc_byte [a, b, d] ?c = fold crc_byte [a', b', d'] ?c"
    by (rule crc_fold_inject [rotated 2]) (rule fits24_fold [OF c])+
  then show False using crc_burst [OF c] assms by auto
qed

theorem crc24_detects_bursts_witness:
  "crc24 ([1] @ [2, 3, 4] @ [5]) \<noteq> crc24 ([1] @ [2, 9, 4] @ [5])"
  by (rule crc24_detects_bursts) simp

section \<open>The armour loses nothing\<close>

lemma armor_char_b64:
  assumes "\<And>n. n < 6 \<Longrightarrow> bit (v :: 32 word) n = bit (x :: byte) n"
  shows "armor_char v = b64_char x"
proof -
  have m: "(0x3F :: 32 word) = mask 6" "(63 :: byte) = mask 6" by (simp_all add: mask_eq_exp_minus_1)
  have "bit (unat (v AND 0x3F)) n = bit (unat (x AND 63)) n" for n
    unfolding m using assms [of n] by (auto simp: bit_unsigned_iff bit_and_iff bit_mask_iff dest: bit_imp_le_length)
  then have "unat (v AND 0x3F) = unat (x AND 63)" by (rule bit_eqI)
  then show ?thesis by (simp add: armor_char_def b64_char_def)
qed

definition word_of_buf :: "byte \<Rightarrow> byte \<Rightarrow> byte \<Rightarrow> 32 word" where
  "word_of_buf a b c = push_bit 16 (ucast a) OR push_bit 8 (ucast b) OR ucast c"

lemma armor_chars:
  "armor_char (drop_bit 18 (word_of_buf a b c)) = b64_char (drop_bit 2 a)"
  "armor_char (drop_bit 12 (word_of_buf a b c)) = b64_char (push_bit 4 a OR drop_bit 4 b)"
  "armor_char (drop_bit 6 (word_of_buf a b c)) = b64_char (push_bit 2 b OR drop_bit 6 c)"
  "armor_char (word_of_buf a b c) = b64_char c"
  by (rule armor_char_b64; auto simp: word_of_buf_def bit_simps byte_bit_high; fail)+

lemma armor_group_simps:
  "armor_group (a # b # c # bs) = [b64_char (drop_bit 2 a), b64_char (push_bit 4 a OR drop_bit 4 b),
     b64_char (push_bit 2 b OR drop_bit 6 c), b64_char c]"
  "armor_group [a, b] = [b64_char (drop_bit 2 a), b64_char (push_bit 4 a OR drop_bit 4 b), b64_char (push_bit 2 b), CHR ''='']"
  "armor_group [a] = [b64_char (drop_bit 2 a), b64_char (push_bit 4 a), CHR ''='', CHR ''='']"
  using armor_chars [of a b c] armor_chars [of a b 0] armor_chars [of a 0 0]
  by (simp_all add: armor_group_def word_of_buf_def numeral_eq_Suc del: push_bit_Suc drop_bit_Suc)

lemma armor_encode_b64: "armor_encode bs = b64_encode bs"
  by (induction bs rule: b64_encode.induct; subst armor_encode.simps)
    (simp_all add: armor_group_simps armor_encode.simps [of "[]"])

text \<open>C34: the encoder that the armour carries, which packs three bytes into a 32-bit number, is
  the standard encoding of base64.\<close>

theorem armor_encode_is_base64: "armor_encode = b64_encode"
  by (rule ext) (rule armor_encode_b64)

lemma b64_encode_append: "length xs mod 3 = 0 \<Longrightarrow> b64_encode (xs @ ys) = b64_encode xs @ b64_encode ys"
  by (induction xs rule: b64_encode.induct) simp_all

lemma third: "(3 + n) div 3 = Suc (n div 3)" "(5 + n) div 3 = Suc (Suc (Suc n) div 3)" for n :: nat
  by presburger+

lemma length_b64_encode: "length xs mod 3 = 0 \<Longrightarrow> length (b64_encode xs) = length xs div 3 * 4"
  by (induction xs rule: b64_encode.induct) (simp_all add: third)

lemma length_b64_le: "length (b64_encode xs) \<le> (length xs + 2) div 3 * 4"
  by (induction xs rule: b64_encode.induct) (simp_all add: third)

lemma b64_encode_Nil_iff [simp]: "b64_encode xs = [] \<longleftrightarrow> xs = []"
  by (cases xs rule: b64_encode.cases) simp_all

text \<open>Lines of 64 characters are the encodings of 48 bytes each.\<close>

lemma chunks_b64: "chunks 64 (b64_encode bs) = map b64_encode (chunks 48 bs)"
proof (induction "length bs" arbitrary: bs rule: less_induct)
  case less
  show ?case
  proof (cases "length bs \<le> 48")
    case True
    have "length (b64_encode bs) \<le> 64" using length_b64_le [of bs] div_le_mono [of "length bs + 2" 50 3] True by simp
    then show ?thesis using True
      by (cases "bs = []") (simp_all add: chunks.simps [of 64 "b64_encode bs"] chunks.simps [of 48 bs] chunks.simps [of _ "[]"])
  next
    case False
    let ?a = "take 48 bs" and ?b = "drop 48 bs"
    have l: "length ?a = 48" using False by simp
    have e: "b64_encode bs = b64_encode ?a @ b64_encode ?b"
      using b64_encode_append [of ?a ?b] l by simp
    have n: "length (b64_encode ?a) = 64" using length_b64_encode [of ?a] l by simp
    have "chunks 64 (b64_encode bs) = b64_encode ?a # chunks 64 (b64_encode ?b)"
      unfolding e using n l by (subst chunks.simps) auto
    moreover have "chunks 64 (b64_encode ?b) = map b64_encode (chunks 48 ?b)" using less [of ?b] False by simp
    moreover have "chunks 48 bs = ?a # chunks 48 ?b" using False by (subst chunks.simps) auto
    ultimately show ?thesis by simp
  qed
qed

lemma concat_pieces: "0 < k \<Longrightarrow> concat (chunks k xs) = xs"
  by (induction k xs rule: chunks.induct) (subst chunks.simps, auto)

lemma chunks_not_Nil: "x \<in> set (chunks k xs) \<Longrightarrow> x \<noteq> []"
proof (induction k xs rule: chunks.induct)
  case (1 k xs)
  then show ?case by (subst (asm) (2) chunks.simps) (auto split: if_splits)
qed

lemma b64_char_not_newline: "b64_char v \<noteq> CHR 0x0A"
proof
  assume "b64_char v = CHR 0x0A"
  then have "b64_val (CHR 0x0A) = Some (take_bit 6 v)" by (metis b64_char_props(1))
  then show False by (simp add: b64_val_def)
qed

lemma b64_encode_line: "CHR 0x0A \<notin> set (b64_encode xs)"
  by (induction xs rule: b64_encode.induct) (simp_all add: b64_char_not_newline [symmetric])

lemma b64_encode_head: "xs \<noteq> [] \<Longrightarrow> \<not> HasPrefix (b64_encode xs) ''=''"
  by (cases xs rule: b64_encode.cases) (simp_all add: HasPrefix_def)

text \<open>A reader of the armour that checks both delimiters and the checksum.\<close>

definition crc_bytes :: "bytes \<Rightarrow> bytes" where
  "crc_bytes data = (let c = crc24 data in [ucast (drop_bit 16 c), ucast (drop_bit 8 c), ucast c])"

definition dearmor :: "string \<Rightarrow> string \<Rightarrow> bytes option" where
  "dearmor blockType s =
     (case Split s (CHR 0x0A) of
        first # second # ls \<Rightarrow>
          (let is_sum = (\<lambda>l. HasPrefix l ''='')
           in case (b64_decode (concat (takeWhile (\<lambda>l. \<not> is_sum l) ls)), dropWhile (\<lambda>l. \<not> is_sum l) ls) of
                (Some data, [c, e, last_line]) \<Rightarrow>
                  if first = ''-----BEGIN '' @ blockType @ ''-----'' \<and> second = [] \<and> last_line = []
                     \<and> e = ''-----END '' @ blockType @ ''-----'' \<and> b64_decode (tl c) = Some (crc_bytes data)
                  then Some data else None
              | _ \<Rightarrow> None)
      | _ \<Rightarrow> None)"

lemma write_pieces_all: "(\<And>p. w p = None) \<Longrightarrow> write_pieces w ps = (concat ps, None)"
  by (induction ps) simp_all

lemma armor_text:
  "armor (\<lambda>_. None) blockType data =
    (unlines ([''-----BEGIN '' @ blockType @ ''-----'', []] @ map b64_encode (chunks 48 data) @
       [''='' @ b64_encode (crc_bytes data), ''-----END '' @ blockType @ ''-----'']), None)"
  by (simp add: armor_def write_pieces_all armor_writes_def Let_def armor_encode_b64 chunks_b64 crc_bytes_def
      unlines_def comp_def)

lemma until_first:
  "\<forall>x\<in>set xs. \<not> P x \<Longrightarrow> P y \<Longrightarrow> takeWhile (\<lambda>x. \<not> P x) (xs @ y # ys) = xs \<and> dropWhile (\<lambda>x. \<not> P x) (xs @ y # ys) = y # ys"
  by (induction xs) simp_all

lemma Split_unlines: "list_all (\<lambda>l. CHR 0x0A \<notin> set l) ls \<Longrightarrow> Split (unlines ls) (CHR 0x0A) = ls @ [[]]"
  by (induction ls) (simp_all add: Split_append)

text \<open>C17: whatever the data is, the armour of it reads back to exactly the data, with the checksum
  in its place.\<close>

theorem armor_roundtrip:
  assumes "CHR 0x0A \<notin> set blockType"
  shows "snd (armor (\<lambda>_. None) blockType data) = None \<and> dearmor blockType (fst (armor (\<lambda>_. None) blockType data)) = Some data"
proof -
  let ?body = "map b64_encode (chunks 48 data)" and ?sum = "''='' @ b64_encode (crc_bytes data)"
  let ?last = "''-----END '' @ blockType @ ''-----''"
  have lines: "list_all (\<lambda>l. CHR 0x0A \<notin> set l) ([''-----BEGIN '' @ blockType @ ''-----'', []] @ ?body @ [?sum, ?last])"
    using assms by (auto simp: list_all_iff b64_encode_line)
  have b: "\<forall>l\<in>set ?body. \<not> HasPrefix l ''=''" using chunks_not_Nil b64_encode_head by fastforce
  have sum: "HasPrefix ?sum ''=''" by (simp add: HasPrefix_def)
  have split: "takeWhile (\<lambda>l. \<not> HasPrefix l ''='') (?body @ [?sum, ?last, []]) = ?body"
    "dropWhile (\<lambda>l. \<not> HasPrefix l ''='') (?body @ [?sum, ?last, []]) = [?sum, ?last, []]"
    using until_first [OF b] sum by blast+
  have "b64_decode (concat ?body) = Some data"
    using concat_pieces [of 64 "b64_encode data"] by (simp add: b64_decode_encode flip: chunks_b64)
  then show ?thesis
    unfolding armor_text fst_conv dearmor_def Split_unlines [OF lines]
    using split by (simp add: Let_def b64_decode_encode)
qed

theorem armor_roundtrip_witness:
  "snd (armor (\<lambda>_. None) ''PGP'' [1, 2]) = None \<and> dearmor ''PGP'' (fst (armor (\<lambda>_. None) ''PGP'' [1, 2])) = Some [1, 2]"
  by (rule armor_roundtrip) simp

end
