(* ===== verification/Keystore.thy ===== *)
theory Keystore
  imports Openpgp
begin

text \<open>
  The generator of the signing identities (\<^verbatim>\<open>scripts/generate_keystore.go\<close>): key derivation from a
  master seed, the pinning of certificates and public keys, and the files and output of a run.
  HKDF, HMAC, the curve, X.509 and PEM belong to libraries and are parameters; so are the
  files and the outcome of every write.
\<close>

section \<open>Paths\<close>

text \<open>\<^verbatim>\<open>filepath.Join\<close> of two relative elements: the components are cleaned one by one; \<open>out\<close> holds the
  cleaned ones in reverse.\<close>

fun clean_parts :: "string list \<Rightarrow> string list \<Rightarrow> string list" where
  "clean_parts [] out = rev out"
| "clean_parts (p # ps) out =
     (if p = [] \<or> p = ''.'' then clean_parts ps out
      else if p = ''..'' then
        (case out of
           q # out' \<Rightarrow> if q = ''..'' then clean_parts ps (p # out) else clean_parts ps out'
         | [] \<Rightarrow> clean_parts ps [p])
      else clean_parts ps (p # out))"

definition join_path :: "string \<Rightarrow> string \<Rightarrow> string" where
  "join_path a b =
     (let ps = clean_parts (Split (a @ ''/'' @ b) (CHR ''/'')) [] in if ps = [] then ''.'' else Join ps ''/'')"

section \<open>Derivation\<close>

text \<open>The template of a signing certificate; instants in seconds since 1970.\<close>

datatype key_usage = DigitalSignature | CodeSigning

record x509_template =
  tmpl_serial :: int
  tmpl_common_name :: string
  tmpl_organization :: "string list"
  tmpl_not_before :: int
  tmpl_not_after :: int
  tmpl_key_usage :: key_usage
  tmpl_ext_usage :: "key_usage list"
  tmpl_basic_valid :: bool

record ks_lib =
  hkdf :: "string \<Rightarrow> string \<Rightarrow> string \<Rightarrow> nat \<Rightarrow> gerror + bytes"
  hmac_sha256 :: "bytes \<Rightarrow> bytes \<Rightarrow> bytes"
  pgp :: pgp_lib
  ec_public :: "nat \<Rightarrow> bytes"
  create_cert :: "x509_template \<Rightarrow> nat \<Rightarrow> gerror + bytes"
  marshal_key :: "nat \<Rightarrow> gerror + bytes"
  pem_encode :: "string \<Rightarrow> bytes \<Rightarrow> string"
  pem_decode :: "string \<Rightarrow> bytes option"
  parse_cert :: "bytes \<Rightarrow> gerror + bytes option"

definition hkdfSalt :: string where
  "hkdfSalt = ''syncthing-luks''"

definition expand :: "ks_lib \<Rightarrow> string \<Rightarrow> string \<Rightarrow> string \<Rightarrow> nat \<Rightarrow> gerror + bytes" where
  "expand lib seed role purpose n = hkdf lib seed hkdfSalt (role @ purpose) n"

text \<open>The order of P-256.\<close>

definition p256_N :: nat where
  "p256_N = 0xffffffff00000000ffffffffffffffffbce6faada7179e84f3b9cac2fc632551"

definition deriveECKey :: "ks_lib \<Rightarrow> string \<Rightarrow> string \<Rightarrow> gerror + nat" where
  "deriveECKey lib seed role =
     (case expand lib seed role [] 32 of
        Inl e \<Rightarrow> Inl e
      | Inr okm \<Rightarrow> Inr (be_val okm mod (p256_N - 1) + 1))"

definition url_char :: "char \<Rightarrow> char" where
  "url_char c = (if c = CHR ''+'' then CHR ''-'' else if c = CHR ''/'' then CHR ''_'' else c)"

text \<open>\<^verbatim>\<open>base64.RawURLEncoding\<close>: another alphabet for the last two characters, and no padding.\<close>

definition raw_url_encode :: "bytes \<Rightarrow> string" where
  "raw_url_encode bs = map url_char (takeWhile (\<lambda>c. c \<noteq> CHR ''='') (b64_encode bs))"

definition derivePassphrase :: "ks_lib \<Rightarrow> string \<Rightarrow> string \<Rightarrow> gerror + string" where
  "derivePassphrase lib seed role =
     (case expand lib seed role '':passphrase-key'' 32 of
        Inl e \<Rightarrow> Inl e
      | Inr prk \<Rightarrow> Inr (raw_url_encode (take 24 (hmac_sha256 lib prk (bytes_of_string (role @ '':passphrase''))))))"

definition certNotBefore :: int where
  "certNotBefore = 1704067200"

definition certNotAfter :: int where
  "certNotAfter = 2840140800"

definition certTemplate :: "string \<Rightarrow> x509_template" where
  "certTemplate role =
     \<lparr>tmpl_serial = 1, tmpl_common_name = ''Syncthing LUKS '' @ role, tmpl_organization = [''Syncthing LUKS''],
      tmpl_not_before = certNotBefore, tmpl_not_after = certNotAfter, tmpl_key_usage = DigitalSignature,
      tmpl_ext_usage = [CodeSigning], tmpl_basic_valid = True\<rparr>"

definition bootstrapCert :: "ks_lib \<Rightarrow> string \<Rightarrow> nat \<Rightarrow> gerror + bytes" where
  "bootstrapCert lib role d = create_cert lib (certTemplate role) d"

text \<open>An Ed25519 key is its seed.\<close>

definition deriveEd25519Key :: "ks_lib \<Rightarrow> string \<Rightarrow> string \<Rightarrow> gerror + bytes" where
  "deriveEd25519Key lib seed role = expand lib seed role '':openpgp-ed25519'' 32"

section \<open>Runs\<close>

text \<open>What a run reads and which writes fail.  A file that cannot be created is not written; one that
  can be created may get a part of its content only, which \<open>cut_write\<close> tells.  The armour of the
  secret key is written in pieces, each of which can fail.\<close>

record ks_world =
  read_file :: "string \<Rightarrow> gerror + string"
  mkdir_err :: "gerror option"
  write_err :: "string \<Rightarrow> gerror option"
  cut_write :: "string \<Rightarrow> string option"
  piece_err :: "string \<Rightarrow> gerror option"

datatype ks_effect = MadeDir string | WroteFile string string | Stdout string | Exit nat

definition pinnedCertPath :: "string \<Rightarrow> string" where
  "pinnedCertPath role = join_path ''signing'' (role @ ''-cert.pem'')"

definition writePEM :: "ks_lib \<Rightarrow> ks_world \<Rightarrow> string \<Rightarrow> string \<Rightarrow> bytes \<Rightarrow> ks_effect list \<times> bool" where
  "writePEM lib w path blockType der =
     (case write_err w path of
        Some e \<Rightarrow> ([], False)
      | None \<Rightarrow>
          (case cut_write w path of
             Some part \<Rightarrow> ([WroteFile path part], False)
           | None \<Rightarrow> ([WroteFile path (pem_encode lib blockType der)], True)))"

text \<open>\<^verbatim>\<open>os.WriteFile\<close>.\<close>

definition WriteFile :: "ks_world \<Rightarrow> string \<Rightarrow> string \<Rightarrow> ks_effect list \<times> bool" where
  "WriteFile w path content =
     (case write_err w path of
        Some e \<Rightarrow> ([], False)
      | None \<Rightarrow>
          (case cut_write w path of
             Some part \<Rightarrow> ([WroteFile path part], False)
           | None \<Rightarrow> ([WroteFile path content], True)))"

text \<open>The certificate of the role: minted and pinned, or read and compared with the derived key;
  \<open>None\<close> when the run fails.\<close>

definition bootstrap_cert :: "ks_lib \<Rightarrow> ks_world \<Rightarrow> string \<Rightarrow> nat \<Rightarrow> ks_effect list \<times> bytes option" where
  "bootstrap_cert lib w role d =
     (case bootstrapCert lib role d of
        Inl e \<Rightarrow> ([], None)
      | Inr der \<Rightarrow>
          (case mkdir_err w of
             Some e \<Rightarrow> ([], None)
           | None \<Rightarrow>
               (case writePEM lib w (pinnedCertPath role) ''CERTIFICATE'' der of
                  (evs, ok) \<Rightarrow> (MadeDir ''signing'' # evs, if ok then Some der else None))))"

definition pinned_cert :: "ks_lib \<Rightarrow> ks_world \<Rightarrow> string \<Rightarrow> nat \<Rightarrow> bytes option" where
  "pinned_cert lib w role d =
     (case read_file w (pinnedCertPath role) of
        Inl e \<Rightarrow> None
      | Inr pemBytes \<Rightarrow>
          (case pem_decode lib pemBytes of
             None \<Rightarrow> None
           | Some der \<Rightarrow>
               (case parse_cert lib der of
                  Inl e \<Rightarrow> None
                | Inr None \<Rightarrow> None
                | Inr (Some pinned) \<Rightarrow> if pinned \<noteq> ec_public lib d then None else Some der)))"

text \<open>What follows once the certificate is known.\<close>

definition write_identity :: "ks_lib \<Rightarrow> ks_world \<Rightarrow> string \<Rightarrow> string \<Rightarrow> nat \<Rightarrow> bytes \<Rightarrow> ks_effect list" where
  "write_identity lib w seed role d der =
     (case marshal_key lib d of
        Inl e \<Rightarrow> [Exit 1]
      | Inr privDER \<Rightarrow>
          (case writePEM lib w (''key_'' @ role @ ''.pem'') ''EC PRIVATE KEY'' privDER of (evs1, ok1) \<Rightarrow>
             if \<not> ok1 then evs1 @ [Exit 1]
             else case writePEM lib w (''cert_'' @ role @ ''.pem'') ''CERTIFICATE'' der of (evs2, ok2) \<Rightarrow>
               if \<not> ok2 then evs1 @ evs2 @ [Exit 1]
               else case derivePassphrase lib seed role of
                      Inl e \<Rightarrow> evs1 @ evs2 @ [Exit 1]
                    | Inr pass \<Rightarrow> evs1 @ evs2 @ [Stdout (pass @ [CHR 0x0A]), Exit 0]))"

definition hex_upper :: "bytes \<Rightarrow> string" where
  "hex_upper bs = concat (map (\<lambda>b. [''0123456789ABCDEF'' ! (unat b div 16), ''0123456789ABCDEF'' ! (unat b mod 16)]) bs)"

definition write_pgp :: "ks_lib \<Rightarrow> ks_world \<Rightarrow> string \<Rightarrow> bytes \<Rightarrow> string \<Rightarrow> ks_effect list" where
  "write_pgp lib w role priv pubArmor =
     (let secPath = ''secret_'' @ role @ ''.asc''; pubPath = ''pub_'' @ role @ ''.asc''
      in case write_err w secPath of
           Some e \<Rightarrow> [Exit 1]
         | None \<Rightarrow>
             (case armor (piece_err w) ''PGP PRIVATE KEY BLOCK'' (transferableSecretKey (pgp lib) priv) of
                (text, Some e) \<Rightarrow> [WroteFile secPath text, Exit 1]
              | (text, None) \<Rightarrow>
                  WroteFile secPath text #
                  (case WriteFile w pubPath pubArmor of
                     (evs, False) \<Rightarrow> evs @ [Exit 1]
                   | (evs, True) \<Rightarrow>
                       evs @ [Stdout (hex_upper (fingerprint (pgp lib) (ed_public (pgp lib) priv)) @ [CHR 0x0A]), Exit 0])))"

definition runOpenPGP :: "ks_lib \<Rightarrow> ks_world \<Rightarrow> string \<Rightarrow> string \<Rightarrow> bool \<Rightarrow> ks_effect list" where
  "runOpenPGP lib w seed role bootstrap =
     (case deriveEd25519Key lib seed role of
        Inl e \<Rightarrow> [Exit 1]
      | Inr priv \<Rightarrow>
          let pubArmor = fst (armor (\<lambda>_. None) ''PGP PUBLIC KEY BLOCK'' (transferablePublicKey (pgp lib) priv));
              pinned = join_path ''signing'' (role @ ''-pub.asc'')
          in if bootstrap then
               (case mkdir_err w of
                  Some e \<Rightarrow> [Exit 1]
                | None \<Rightarrow>
                    MadeDir ''signing'' #
                    (case WriteFile w pinned pubArmor of
                       (evs, False) \<Rightarrow> evs @ [Exit 1]
                     | (evs, True) \<Rightarrow> evs @ write_pgp lib w role priv pubArmor))
             else
               (case read_file w pinned of
                  Inl e \<Rightarrow> [Exit 1]
                | Inr want \<Rightarrow> if TrimSpace want \<noteq> TrimSpace pubArmor then [Exit 1] else write_pgp lib w role priv pubArmor))"

text \<open>The program, by its arguments.\<close>

definition keystore_main :: "ks_lib \<Rightarrow> ks_world \<Rightarrow> string list \<Rightarrow> ks_effect list" where
  "keystore_main lib w args0 =
     (let bootstrap = (args0 \<noteq> [] \<and> hd args0 = ''-bootstrap''); args = if bootstrap then tl args0 else args0
      in case args of
           [seed, role] \<Rightarrow>
             if seed = [] then [Exit 1]
             else if role = ''debian'' then runOpenPGP lib w seed role bootstrap
             else (case deriveECKey lib seed role of
                     Inl e \<Rightarrow> [Exit 1]
                   | Inr d \<Rightarrow>
                       (case (if bootstrap then bootstrap_cert lib w role d else ([], pinned_cert lib w role d)) of
                          (evs, None) \<Rightarrow> evs @ [Exit 1]
                        | (evs, Some der) \<Rightarrow> evs @ write_identity lib w seed role d der))
         | _ \<Rightarrow> [Exit 2])"

section \<open>Properties\<close>

text \<open>the private scalar always lies in the range that the curve allows.\<close>

theorem ec_scalar_in_range:
  assumes "deriveECKey lib seed role = Inr d"
  shows "1 \<le> d \<and> d < p256_N"
proof -
  obtain okm where "d = be_val okm mod (p256_N - 1) + 1"
    using assms by (auto simp: deriveECKey_def split: sum.splits)
  moreover have "be_val okm mod (p256_N - 1) < p256_N - 1" by (simp add: p256_N_def)
  ultimately show ?thesis by simp
qed

definition sample_ks :: ks_lib where
  "sample_ks = \<lparr>hkdf = (\<lambda>seed salt info n. Inr (replicate n 255)), hmac_sha256 = (\<lambda>k m. replicate 32 0), pgp = sample_lib,
     ec_public = (\<lambda>d. []), create_cert = (\<lambda>r d. Inr []), marshal_key = (\<lambda>d. Inr []), pem_encode = (\<lambda>t b. []),
     pem_decode = (\<lambda>t. Some []), parse_cert = (\<lambda>b. Inr (Some []))\<rparr>"

definition sample_ks_world :: ks_world where
  "sample_ks_world = \<lparr>read_file = (\<lambda>p. Inr []), mkdir_err = None, write_err = (\<lambda>p. None), cut_write = (\<lambda>p. None), piece_err = (\<lambda>p. None)\<rparr>"

lemma sample_deriveECKey: "deriveECKey sample_ks ''s'' ''r'' = Inr (be_val (replicate 32 255) mod (p256_N - 1) + 1)"
  by (simp add: deriveECKey_def expand_def sample_ks_def)

theorem ec_scalar_in_range_witness:
  "1 \<le> be_val (replicate 32 255) mod (p256_N - 1) + 1 \<and> be_val (replicate 32 255) mod (p256_N - 1) + 1 < p256_N"
  by (rule ec_scalar_in_range [OF sample_deriveECKey])

lemma writePEM_written: "WroteFile p c \<in> set (fst (writePEM lib w path t der)) \<Longrightarrow> p = path"
  by (auto simp: writePEM_def split: option.splits)

lemma WriteFile_written: "WroteFile p c \<in> set (fst (WriteFile w path content)) \<Longrightarrow> p = path"
  by (auto simp: WriteFile_def split: option.splits)

lemma WriteFile_ok: "WriteFile w path content = (evs, True) \<Longrightarrow> evs = [WroteFile path content]"
  by (auto simp: WriteFile_def split: option.splits)

lemma write_identity_written:
  "WroteFile p c \<in> set (write_identity lib w seed role d der) \<Longrightarrow> p \<in> {''key_'' @ role @ ''.pem'', ''cert_'' @ role @ ''.pem''}"
  using writePEM_written [of p c lib w "''key_'' @ role @ ''.pem''"] writePEM_written [of p c lib w "''cert_'' @ role @ ''.pem''"]
  by (auto simp: write_identity_def split_beta split: sum.splits if_splits)

lemma write_pgp_written:
  "WroteFile p c \<in> set (write_pgp lib w role priv a) \<Longrightarrow> p \<in> {''secret_'' @ role @ ''.asc'', ''pub_'' @ role @ ''.asc''}"
  using WriteFile_written [of p c w "''pub_'' @ role @ ''.asc''" a]
  by (cases "WriteFile w (''pub_'' @ role @ ''.asc'') a")
     (auto simp: write_pgp_def Let_def split: option.splits prod.splits bool.splits)

lemma pinned_cert_Some:
  "pinned_cert lib w role d = Some der \<Longrightarrow>
    \<exists>pemBytes. read_file w (pinnedCertPath role) = Inr pemBytes \<and> pem_decode lib pemBytes = Some der
      \<and> parse_cert lib der = Inr (Some (ec_public lib d))"
  by (auto simp: pinned_cert_def split: sum.splits option.splits if_splits)

abbreviation public_block :: "ks_lib \<Rightarrow> bytes \<Rightarrow> string" where
  "public_block lib priv \<equiv> fst (armor (\<lambda>_. None) ''PGP PUBLIC KEY BLOCK'' (transferablePublicKey (pgp lib) priv))"

text \<open>C26: without \<^verbatim>\<open>-bootstrap\<close> nothing at all is written unless the derived key is the pinned one,
  and the pin itself is never written.\<close>

theorem only_the_pinned_identity_is_written:
  assumes "WroteFile p c \<in> set (keystore_main lib w [seed, role])"
  shows "if role = ''debian''
    then \<exists>priv want. deriveEd25519Key lib seed role = Inr priv
      \<and> read_file w (join_path ''signing'' (role @ ''-pub.asc'')) = Inr want
      \<and> TrimSpace want = TrimSpace (public_block lib priv) \<and> p \<in> {''secret_debian.asc'', ''pub_debian.asc''}
    else \<exists>d pemBytes der. deriveECKey lib seed role = Inr d
      \<and> read_file w (pinnedCertPath role) = Inr pemBytes \<and> pem_decode lib pemBytes = Some der
      \<and> parse_cert lib der = Inr (Some (ec_public lib d)) \<and> p \<in> {''key_'' @ role @ ''.pem'', ''cert_'' @ role @ ''.pem''}"
proof (cases "role = ''debian''")
  case True
  have "WroteFile p c \<in> set (runOpenPGP lib w seed role False)"
    using assms True by (auto simp: keystore_main_def Let_def split: if_splits)
  then obtain priv want where h: "deriveEd25519Key lib seed role = Inr priv"
      "read_file w (join_path ''signing'' (role @ ''-pub.asc'')) = Inr want"
      "TrimSpace want = TrimSpace (public_block lib priv)" "WroteFile p c \<in> set (write_pgp lib w role priv (public_block lib priv))"
    unfolding runOpenPGP_def Let_def by (auto split: sum.splits if_splits)
  from write_pgp_written [OF h(4)] have "p \<in> {''secret_debian.asc'', ''pub_debian.asc''}" using True by simp
  then show ?thesis using h(1-3) True by auto
next
  case False
  then obtain d der where h: "deriveECKey lib seed role = Inr d" "pinned_cert lib w role d = Some der"
      "WroteFile p c \<in> set (write_identity lib w seed role d der)"
    using assms by (auto simp: keystore_main_def Let_def split: if_splits sum.splits option.splits)
  then show ?thesis using False pinned_cert_Some [OF h(2)] write_identity_written [OF h(3)] by auto
qed

theorem only_the_pinned_identity_is_written_witness:
  "\<exists>d pemBytes. deriveECKey sample_ks ''s'' ''r'' = Inr d \<and> read_file sample_ks_world (pinnedCertPath ''r'') = Inr pemBytes"
proof -
  have "WroteFile ''key_r.pem'' [] \<in> set (keystore_main sample_ks sample_ks_world [''s'', ''r''])"
    by (simp add: keystore_main_def sample_deriveECKey)
      (simp add: pinned_cert_def write_identity_def writePEM_def derivePassphrase_def expand_def sample_ks_def sample_ks_world_def)
  from only_the_pinned_identity_is_written [OF this] show ?thesis by auto
qed

lemma join_pinned: "join_path ''signing'' ''debian-pub.asc'' = ''signing/debian-pub.asc''"
  by (simp add: join_path_def)

text \<open>a public key that a bootstrap run pinned is accepted by every later run with the same seed:
  derivation and block are functions of the seed alone.\<close>

theorem pinned_public_key_is_accepted:
  assumes "Exit 0 \<in> set (keystore_main lib w [''-bootstrap'', seed, ''debian''])" and "seed \<noteq> ''-bootstrap''"
    and "WroteFile ''signing/debian-pub.asc'' c \<in> set (keystore_main lib w [''-bootstrap'', seed, ''debian''])"
    and "read_file w' ''signing/debian-pub.asc'' = Inr c" and "write_err w' = write_err w" and "cut_write w' = cut_write w"
    and "piece_err w' = piece_err w"
  shows "Exit 0 \<in> set (keystore_main lib w' [seed, ''debian''])"
proof -
  have j: "join_path ''signing'' ''debian-pub.asc'' = ''signing/debian-pub.asc''"
    by (rule join_pinned)
  have seed: "seed \<noteq> []" and run: "set (keystore_main lib w [''-bootstrap'', seed, ''debian'']) = set (runOpenPGP lib w seed ''debian'' True)"
    using assms(1) by (auto simp: keystore_main_def split: if_splits)
  from assms(1) obtain priv where k: "deriveEd25519Key lib seed ''debian'' = Inr priv" "mkdir_err w = None"
    unfolding run runOpenPGP_def Let_def by (auto split: sum.splits option.splits)
  moreover obtain evs ok where "WriteFile w ''signing/debian-pub.asc'' (public_block lib priv) = (evs, ok)" by fastforce
  ultimately have p: "deriveEd25519Key lib seed ''debian'' = Inr priv"
      "WriteFile w ''signing/debian-pub.asc'' (public_block lib priv) = (evs, ok)" "mkdir_err w = None" by blast+
  then have r: "runOpenPGP lib w seed ''debian'' True = MadeDir ''signing'' #
      (if ok then evs @ write_pgp lib w ''debian'' priv (public_block lib priv) else evs @ [Exit 1])"
    using j by (simp add: runOpenPGP_def Let_def)
  have evs: "set evs \<subseteq> range (WroteFile ''signing/debian-pub.asc'')"
    using p(2) by (auto simp: WriteFile_def split: option.splits)
  have ok: "ok" "Exit 0 \<in> set (write_pgp lib w ''debian'' priv (public_block lib priv))"
    using assms(1) evs unfolding run r by (auto split: if_splits)
  have "WroteFile ''signing/debian-pub.asc'' c \<notin> set (write_pgp lib w ''debian'' priv (public_block lib priv))"
    using write_pgp_written [of "''signing/debian-pub.asc''" c lib w "''debian''" priv] by auto
  then have c: "c = public_block lib priv"
    using assms(3) WriteFile_ok [of w "''signing/debian-pub.asc''" "public_block lib priv" evs] p(2) ok(1) unfolding run r by auto
  have "write_pgp lib w' ''debian'' priv (public_block lib priv) = write_pgp lib w ''debian'' priv (public_block lib priv)"
    unfolding write_pgp_def WriteFile_def assms(5-7) ..
  then show ?thesis
    using assms(2,4) seed p ok j c by (simp add: keystore_main_def runOpenPGP_def Let_def)
qed

definition pinned_world :: "string \<Rightarrow> ks_world" where
  "pinned_world c = sample_ks_world \<lparr>read_file := (\<lambda>p. if p = ''signing/debian-pub.asc'' then Inr c else Inl EOF)\<rparr>"

lemma sample_bootstrap:
  "Exit 0 \<in> set (keystore_main sample_ks sample_ks_world [''-bootstrap'', ''s'', ''debian''])"
  "WroteFile ''signing/debian-pub.asc'' (public_block sample_ks (replicate 32 255))
    \<in> set (keystore_main sample_ks sample_ks_world [''-bootstrap'', ''s'', ''debian''])"
proof -
  have k: "deriveEd25519Key sample_ks ''s'' ''debian'' = Inr (replicate 32 255)"
    by (simp add: deriveEd25519Key_def expand_def sample_ks_def)
  have w: "write_err sample_ks_world p = None" "cut_write sample_ks_world p = None" "mkdir_err sample_ks_world = None" "piece_err sample_ks_world = (\<lambda>_. None)" for p
    by (simp_all add: sample_ks_world_def)
  have "Exit 0 \<in> set (write_pgp sample_ks sample_ks_world ''debian'' priv a)" for priv a
    by (simp add: write_pgp_def WriteFile_def w armor_text)
  then show "Exit 0 \<in> set (keystore_main sample_ks sample_ks_world [''-bootstrap'', ''s'', ''debian''])"
    "WroteFile ''signing/debian-pub.asc'' (public_block sample_ks (replicate 32 255))
      \<in> set (keystore_main sample_ks sample_ks_world [''-bootstrap'', ''s'', ''debian''])"
    by (simp_all add: keystore_main_def runOpenPGP_def WriteFile_def Let_def k w join_pinned)
qed

theorem pinned_public_key_is_accepted_witness:
  "Exit 0 \<in> set (keystore_main sample_ks (pinned_world (public_block sample_ks (replicate 32 255))) [''s'', ''debian''])"
  by (rule pinned_public_key_is_accepted [OF sample_bootstrap(1) _ sample_bootstrap(2)])
    (simp_all add: pinned_world_def)

end
