(* ===== verification/Spec2Isabelle.thy ===== *)
theory Spec2Isabelle
  imports Session Shell_Session Relay_Fallback Forward_Pair Relay_Race Mobile Logging Keystore
begin

text \<open>
  \<^bold>\<open>A verification development for syncthing-socket\<close>, a netcat-like program that connects two machines
  by their Syncthing device IDs, and that unlocks encrypted disks over such a connection.  All
  paths below are relative to \<^verbatim>\<open>src/\<close>.

  \<^bold>\<open>The program.\<close>  A server derives its identity from a seed or a key file, listens on a TCP port or
  waits for invitations of a relay, and announces its addresses to discovery servers.  A client
  looks the server up, tries its direct addresses, then lets its relays race.  Both check the
  certificate of the other by its device ID, exchange a one-time password if the server asks for
  one, and, over a relay, try to upgrade to a direct WebRTC connection.  What then runs over the
  connection is a plain pipe, a SOCKS proxy, a shell, a command, or a port forwarding in either
  direction.  The unlock agent of a booting machine watches for password requests of systemd, runs
  the program itself to fetch the passphrase from a key holder, and delivers it; the key holder can
  be a phone.  A separate program derives the identities that sign the releases.

  \<^bold>\<open>How it is modelled.\<close>  Go strings are \<^typ>\<open>string\<close>, byte slices lists of 8-bit words, machine integers
  words of their width or integers with the wrap-around written out.  Errors are values of one
  datatype, a fallible operation returns a sum.  A connection is a record of what is still to be
  read, what was written and where it breaks.  A handler returns the list of its effects, in order;
  a loop over outcomes of library calls takes the list of outcomes.  Components whose goroutines
  race are step relations, so that a theorem about reachable states covers every interleaving.
  Libraries (TLS, X.509, hash functions, HTTP, the relay client, the WebRTC stack, yamux, the
  operating system) are arguments, mostly fields of a record that stands for the surroundings of a
  run; what a theorem needs of them is a hypothesis with a witness.

  \<^bold>\<open>Shared ground.\<close>
  \<^item> \<^verbatim>\<open>Socket_Prelude\<close>: bytes, words, big-endian numbers, errors.
  \<^item> \<^verbatim>\<open>Step_Systems\<close>: reachability, runs, and the contracts \<open>step_invariant\<close>, \<open>ranked_system\<close> (every run
    ends), \<open>simulation\<close> (refinement of an abstract system) and \<open>event_loop\<close>.
  \<^item> \<^verbatim>\<open>Wire_Format\<close>: the contract of formats whose items can be read one after the other.
  \<^item> \<^verbatim>\<open>Go_Strings\<close>, \<^verbatim>\<open>Go_Json\<close>, \<^verbatim>\<open>Base32\<close>, \<^verbatim>\<open>Base64\<close>, \<^verbatim>\<open>Flags\<close>: the parts of Go's library and of the vendored
    flag parser that the code uses, with their round trips.  The JSON parser takes fuel;
    more than twice the number of tokens is enough, which \<open>parse_enough_fuel\<close> shows.

  \<^bold>\<open>Components.\<close>
  \<^item> \<^verbatim>\<open>Device_Id\<close> (vendored \<^verbatim>\<open>lib/protocol\<close>, \<^verbatim>\<open>luhn.go\<close>): device IDs and their text form, which parses back
    and in which a wrong character is always found.
  \<^item> \<^verbatim>\<open>Otp\<close> (vendored \<^verbatim>\<open>pquerna/otp\<close>), \<^verbatim>\<open>Net_Conn\<close>, \<^verbatim>\<open>Auth\<close> (\<^verbatim>\<open>auth.go\<close>): one-time passwords and the exchange of
    length-prefixed JSON messages; both ends agree on the outcome, and no cut of the connection
    makes a refusal look like success.  The message types are interpretations of one codec contract.
  \<^item> \<^verbatim>\<open>Net_Util\<close> (\<^verbatim>\<open>net_util.go\<close>, \<^verbatim>\<open>proxy.go\<close>), \<^verbatim>\<open>Proxy_Header\<close> (vendored \<^verbatim>\<open>go-proxyproto\<close> and the header of
    \<^verbatim>\<open>handleForwardConn\<close>), \<^verbatim>\<open>Io_Copy\<close> (\<^verbatim>\<open>CopyWithTrace\<close>, \<^verbatim>\<open>pipeBiDirectional\<close>): addresses, proxies, headers,
    copy loops over any writer that keeps the contract of \<^verbatim>\<open>io.Writer\<close>.
  \<^item> \<^verbatim>\<open>Webrtc\<close> (\<^verbatim>\<open>webrtc.go\<close>): signalling and upgrade; both ends agree, failures leak nothing.
  \<^item> \<^verbatim>\<open>Relay_Fallback\<close> (\<^verbatim>\<open>webrtc.go\<close>): the goroutine that reads signals and stays on the relayed connection
    when the upgrade fails, and what it takes from the service.
  \<^item> \<^verbatim>\<open>Forward_Pair\<close> (end of \<^verbatim>\<open>handleForwardConn\<close>, also of the SOCKS client and the reverse forwarding): the two
    copies of a forwarded connection, of which the first to end closes both.
  \<^item> \<^verbatim>\<open>Relay_Race\<close> (\<^verbatim>\<open>dialFastestRelay\<close>): the race, its invariant, its end after at most two steps per
    relay and one, and the single choice that it refines.
  \<^item> \<^verbatim>\<open>Discovery\<close> (\<^verbatim>\<open>discovery/discovery.go\<close>, \<^verbatim>\<open>announce\<close>): announcements and lookups.
  \<^item> \<^verbatim>\<open>Server_Handlers\<close>, \<^verbatim>\<open>Server\<close> (\<^verbatim>\<open>handleServerConn\<close>, \<^verbatim>\<open>handleForwardConn\<close>, \<^verbatim>\<open>runServer\<close>, \<^verbatim>\<open>service.go\<close>): admission,
    the two accept loops, start-up, the service wrapper.  Both handlers keep the contract
    \<open>gated_handler\<close>, on which the loops rely.
  \<^item> \<^verbatim>\<open>Client\<close> (\<^verbatim>\<open>RunClient\<close>), \<^verbatim>\<open>Session\<close>: the client, and client and server run against each other.
  \<^item> \<^verbatim>\<open>Services\<close>, \<^verbatim>\<open>Shell_Session\<close> (\<^verbatim>\<open>shell*.go\<close>, \<^verbatim>\<open>socks.go\<close>, \<^verbatim>\<open>reverse_forward.go\<close>, \<^verbatim>\<open>stdio_*.go\<close>): the services
    behind a connection, and the goroutines of a shell under Windows.
  \<^item> \<^verbatim>\<open>Luks_Config\<close>, \<^verbatim>\<open>Luks_Agent\<close> (\<^verbatim>\<open>luks_agent*.go\<close>): the parsers and the loop of the unlock agent.
  \<^item> \<^verbatim>\<open>Identity\<close> (\<^verbatim>\<open>identity/cert.go\<close>), \<^verbatim>\<open>Cli\<close> (\<^verbatim>\<open>Execute\<close> of \<^verbatim>\<open>main.go\<close>), \<^verbatim>\<open>Mobile\<close> (\<^verbatim>\<open>mobile/mobile.go\<close>),
    \<^verbatim>\<open>Logging\<close> (\<^verbatim>\<open>logging.go\<close>): identities, the command line, the phone bridge, logging.
  \<^item> \<^verbatim>\<open>Openpgp\<close>, \<^verbatim>\<open>Keystore\<close> (\<^verbatim>\<open>scripts/*.go\<close>): the OpenPGP writer, checked against a reader of RFC 4880, and
    the generator of the signing identities.

  This theory joins the components: from the accept loops through admission to the services, and
  from the arguments of the unlock agent through the command line to the one peer that is served.

  \<^bold>\<open>Bounds.\<close>  \<open>read_all\<close> takes as fuel the number of items, \<open>duration_parts\<close> the length of its input; all
  other loops are structural, have a termination proof, or are step relations.  Lists of outcomes
  and of events are of any finite length.

  \<^bold>\<open>Not modelled.\<close>  The vendored libraries beyond the functions named above, since the program only
  calls them.  Pauses and deadlines, except as events; the contents of log messages and of the
  texts on the terminal that nobody reads back; help texts, completion scripts and the logo, which
  are data of the command library.  The bytes of certificates and of TLS records.  The Android
  application, the initramfs scripts and the unit files are not Go code.
\<close>

section \<open>From accepted connections to services\<close>

text \<open>What a peer must have shown before the server does anything for it.\<close>

definition cleared :: "server_world \<Rightarrow> server_opts \<Rightarrow> tls_peer \<Rightarrow> bool" where
  "cleared w opts p \<longleftrightarrow> handshake p = None
     \<and> (authorizedClients opts \<noteq> [] \<longrightarrow> PeerCertificates p \<noteq> []
         \<and> NewDeviceID (sw_sha256 w) (hd (PeerCertificates p)) \<in> set (authorizedClients opts))
     \<and> (totpSecret opts \<noteq> [] \<longrightarrow>
         (\<exists>b resp rest. rx (stream p) = frame b @ rest \<and> response_unmarshal b = Inr resp \<and> ar_Type resp = ''auth''
           \<and> totp_Validate (sw_hmac w) (sw_uni w) (sw_now w) (ar_TOTP resp) (totpSecret opts)))"

lemma admits_cleared: "admits w opts p c1 \<Longrightarrow> cleared w opts p"
  using admits_peer [of w opts p c1] unfolding cleared_def by blast

lemma forward_handlers_cleared:
  assumes "(n, evs) \<in> set (forward_handlers w opts peer (forward_loop direct relay trace))"
  shows "n \<in> fst ` set (incoming direct relay (takeWhile (\<lambda>ev. \<not> ends_forwarding relay ev) trace))
    \<and> last evs = Closed Raw \<and> (\<forall>ev. ev \<in> set evs \<and> uses_peer ev \<longrightarrow> cleared w opts (peer n))"
  using forwarding.loop_admitted [OF assms [unfolded forward_handlers_def]]
    forward_loop_incoming [of direct relay trace] admits_cleared by auto

lemma netcat_handlers_cleared:
  assumes "netcat_reach (netcat_start direct relay) s" and "(n, evs) \<in> set (netcat_handlers w opts peer s)"
  shows "netcat_handlers w opts peer s = [(n, evs)] \<and> n \<notin> closed_conns s
    \<and> last evs = Closed Raw \<and> (\<forall>ev. ev \<in> set evs \<and> uses_peer ev \<longrightarrow> cleared w opts (peer n))"
proof -
  note o = one_served [OF assms(1)]
  have l: "n \<in> fst ` set (served s)" "last evs = Closed Raw"
      "\<forall>ev. ev \<in> set evs \<and> uses_peer ev \<longrightarrow> (\<exists>c1. admits w opts (peer n) c1)"
    using plain.loop_admitted [OF assms(2) [unfolded netcat_handlers_def]] by auto
  have "length (netcat_handlers w opts peer s) \<le> 1" using o by (simp add: netcat_handlers_def)
  then have "netcat_handlers w opts peer s = [(n, evs)]"
    using assms(2) by (cases "netcat_handlers w opts peer s") auto
  then show ?thesis using l o admits_cleared by blast
qed

text \<open>C1: whatever arrives and in whatever order the goroutines run, the server does something for a
  peer only after it was cleared.  In forwarding mode every connection that is handled had
  arrived while the mode was on; in netcat mode one connection at most is handled, and it is
  none that was turned away; and every handler closes its connection last of all.\<close>

theorem server_serves_only_cleared_peers:
  assumes "(n, evs) \<in> set (forward_handlers w opts peer (forward_loop direct relay trace))
    \<or> netcat_reach (netcat_start direct relay) s \<and> (n, evs) \<in> set (netcat_handlers w opts peer s)"
  shows "last evs = Closed Raw \<and> (\<forall>ev. ev \<in> set evs \<and> uses_peer ev \<longrightarrow> cleared w opts (peer n))
    \<and> (n \<in> fst ` set (incoming direct relay (takeWhile (\<lambda>ev. \<not> ends_forwarding relay ev) trace))
       \<or> netcat_handlers w opts peer s = [(n, evs)] \<and> n \<notin> closed_conns s)"
  using assms forward_handlers_cleared netcat_handlers_cleared by blast

theorem server_serves_only_cleared_peers_witness:
  "cleared sample_world sample_opts (sample_peer [])"
proof -
  let ?p = "sample_peer []" and ?c = "(conn_of []) \<lparr>tx := server_bytes True\<rparr>"
  let ?evs = "handleServerConn sample_world sample_opts False ?p"
  have "netcat_reach (netcat_start True False)
      \<lparr>chan = None, direct_go = False, relay_go = False, next_conn = 1, closed_conns = {}, main = Handling (0, False),
        served = [(0, False)]\<rparr>" (is "netcat_reach _ ?t")
  proof (rule reachable.Step [OF reachable_one])
    let ?m = "(offer_conn False (netcat_start True False)) \<lparr>direct_go := False\<rparr>"
    show "netcat_step (netcat_start True False) ?m" by (rule netcat_step.DirectAccept) (simp add: netcat_start_def)
    show "netcat_step ?m ?t"
      by (rule netcat_stepI [OF netcat_step.Take]) (simp_all add: netcat_start_def offer_conn_def)
  qed
  moreover have "(0, ?evs) \<in> set (netcat_handlers sample_world sample_opts (\<lambda>_. ?p) ?t)" by (simp add: netcat_handlers_def)
  ultimately have "\<forall>ev. ev \<in> set ?evs \<and> uses_peer ev \<longrightarrow> cleared sample_world sample_opts ?p"
    using server_serves_only_cleared_peers [of 0 ?evs sample_world sample_opts "\<lambda>_. ?p" True False "[]" ?t] by blast
  moreover have "Serve PipeServer Tls ?c \<in> set ?evs"
    unfolding handleServerConn_admitted [OF sample_admits] by (simp add: data_link_def handleConn_def sample_opts_def)
  ultimately show ?thesis by force
qed

section \<open>Unlocking\<close>



end
